(* ===== verification/Prelude.thy ===== *)
theory Prelude
  imports Main
begin

text \<open>
  Shared vocabulary of the development: the collections of rewrite rules the component theories
  add to, and generic facts about lists and filters over sorted lists that several components use.
  Nothing here is specific to the program.
\<close>

section \<open>Collections\<close>

text \<open>
  \<open>py_simps\<close> collects the evaluation rules of the result and state monads; \<open>flt_simps\<close> the
  rules of the floating-point model; \<open>flow_defs\<close> the definitions unfolded to run the retry flow.
\<close>

named_theorems py_simps
named_theorems flt_simps
named_theorems flow_defs

section \<open>Windows of sorted lists\<close>

text \<open>The number of list elements in the half-open interval \<open>(lo, hi]\<close>.\<close>

definition count_in :: "'a::linorder \<Rightarrow> 'a \<Rightarrow> 'a list \<Rightarrow> nat" where
  "count_in lo hi xs = length (filter (\<lambda>s. lo < s \<and> s \<le> hi) xs)"

lemma count_in_Nil [simp]: "count_in lo hi [] = 0"
  by (simp add: count_in_def)

lemma count_in_Cons:
  "count_in lo hi (x # xs) = (if lo < x \<and> x \<le> hi then 1 else 0) + count_in lo hi xs"
  by (simp add: count_in_def)

lemma count_in_append: "count_in lo hi (xs @ ys) = count_in lo hi xs + count_in lo hi ys"
  by (simp add: count_in_def)

lemma count_in_insort:
  "count_in lo hi (insort x xs) = (if lo < x \<and> x \<le> hi then 1 else 0) + count_in lo hi xs"
  by (induction xs) (auto simp: count_in_Cons)

lemma count_in_sort: "count_in lo hi (sort xs) = count_in lo hi xs"
  by (induction xs) (auto simp: count_in_insort count_in_Cons)

lemma count_in_filter_le: "count_in lo hi (filter P xs) \<le> count_in lo hi xs"
  by (induction xs) (auto simp: count_in_Cons)

lemma count_in_filter_eq:
  "(\<And>x. x \<in> set xs \<Longrightarrow> lo < x \<Longrightarrow> x \<le> hi \<Longrightarrow> P x) \<Longrightarrow> count_in lo hi (filter P xs) = count_in lo hi xs"
  by (induction xs) (auto simp: count_in_Cons)

lemma count_in_all:
  "(\<And>x. x \<in> set xs \<Longrightarrow> lo < x \<and> x \<le> hi) \<Longrightarrow> count_in lo hi xs = length xs"
  by (induction xs) (auto simp: count_in_Cons)

lemma count_in_mono: "lo' \<le> lo \<Longrightarrow> hi \<le> hi' \<Longrightarrow> count_in lo hi xs \<le> count_in lo' hi' xs"
  by (induction xs) (auto simp: count_in_Cons)

lemma count_in_take_drop: "count_in lo hi (take n (drop m xs)) \<le> count_in lo hi xs"
proof -
  have "count_in lo hi xs =
      count_in lo hi (take m xs) + (count_in lo hi (take n (drop m xs))
        + count_in lo hi (drop n (drop m xs)))"
    by (metis append_take_drop_id count_in_append)
  then show ?thesis by simp
qed

text \<open>In a sorted list the elements of a window are consecutive.\<close>

lemma sorted_window_segment:
  assumes "sorted xs"
  shows "filter (\<lambda>s. lo < s \<and> s \<le> hi) xs =
    take (count_in lo hi xs) (drop (length (filter (\<lambda>s. s \<le> lo) xs)) xs)"
  using assms
proof (induction xs)
  case Nil
  then show ?case by simp
next
  case (Cons x xs)
  then have IH: "filter (\<lambda>s. lo < s \<and> s \<le> hi) xs =
      take (count_in lo hi xs) (drop (length (filter (\<lambda>s. s \<le> lo) xs)) xs)"
    and ge: "\<forall>y\<in>set xs. x \<le> y"
    by auto
  consider (low) "x \<le> lo" | (mid) "lo < x" "x \<le> hi" | (high) "lo < x" "hi < x"
    by fastforce
  then show ?case
  proof cases
    case low
    then have "\<not> lo < x" by simp
    with IH low show ?thesis by (simp add: count_in_Cons)
  next
    case mid
    then have "filter (\<lambda>s. s \<le> lo) xs = []"
      using ge by (force simp: filter_empty_conv)
    with mid IH show ?thesis by (auto simp: count_in_Cons)
  next
    case high
    then have none: "filter (\<lambda>s. lo < s \<and> s \<le> hi) xs = []"
      using ge by (force simp: filter_empty_conv)
    then have "count_in lo hi xs = 0" by (simp add: count_in_def)
    with high none show ?thesis by (auto simp: count_in_Cons)
  qed
qed

lemma count_in_eq_segment:
  assumes "sorted xs"
  obtains m where "m + count_in lo hi xs \<le> length xs"
    and "\<And>i. m \<le> i \<Longrightarrow> i < m + count_in lo hi xs \<Longrightarrow> lo < xs ! i \<and> xs ! i \<le> hi"
proof -
  define m where "m = length (filter (\<lambda>s. s \<le> lo) xs)"
  define w where "w = filter (\<lambda>s. lo < s \<and> s \<le> hi) xs"
  have seg: "w = take (count_in lo hi xs) (drop m xs)"
    unfolding w_def m_def by (rule sorted_window_segment [OF assms])
  have len: "length w = count_in lo hi xs" by (simp add: w_def count_in_def)
  have m_le: "m \<le> length xs" by (simp add: m_def)
  from seg len have "count_in lo hi xs \<le> length xs - m"
    by (metis length_drop length_take min.absorb_iff2 nle_le)
  then have 1: "m + count_in lo hi xs \<le> length xs" using m_le by simp
  moreover have "lo < xs ! i \<and> xs ! i \<le> hi" if "m \<le> i" "i < m + count_in lo hi xs" for i
  proof -
    have "xs ! i = w ! (i - m)" using that 1 by (simp add: seg)
    moreover have "w ! (i - m) \<in> set w" using that by (intro nth_mem) (simp add: len)
    ultimately show ?thesis by (simp add: w_def)
  qed
  ultimately show ?thesis by (rule that)
qed

lemma count_in_ge_segment:
  assumes "m + n \<le> length xs"
    and "\<And>i. m \<le> i \<Longrightarrow> i < m + n \<Longrightarrow> lo < xs ! i \<and> xs ! i \<le> hi"
  shows "n \<le> count_in lo hi xs"
proof -
  have "lo < x \<and> x \<le> hi" if "x \<in> set (take n (drop m xs))" for x
  proof -
    from that obtain j where "j < length (take n (drop m xs))" "x = take n (drop m xs) ! j"
      by (metis in_set_conv_nth)
    with assms(1) have "j < n" "x = xs ! (m + j)" by auto
    with assms(2) [of "m + j"] show ?thesis by simp
  qed
  then have "count_in lo hi (take n (drop m xs)) = length (take n (drop m xs))"
    by (rule count_in_all)
  also have "\<dots> = n" using assms(1) by simp
  finally show ?thesis using count_in_take_drop [of lo hi n m xs] by simp
qed

text \<open>Python's \<open>bisect_right\<close> and \<open>bisect_left\<close>, by their documented result on a sorted list.\<close>

definition bisect_right :: "'a::linorder list \<Rightarrow> 'a \<Rightarrow> nat" where
  "bisect_right xs x = length (takeWhile (\<lambda>y. y \<le> x) xs)"

definition bisect_left :: "'a::linorder list \<Rightarrow> 'a \<Rightarrow> nat" where
  "bisect_left xs x = length (takeWhile (\<lambda>y. y < x) xs)"

lemma bisect_right_count:
  "sorted xs \<Longrightarrow> bisect_right xs x = length (filter (\<lambda>y. y \<le> x) xs)"
proof (induction xs)
  case Nil
  then show ?case by (simp add: bisect_right_def)
next
  case (Cons y xs)
  have none: "filter (\<lambda>z. z \<le> x) xs = []" if "\<not> y \<le> x"
    using that Cons.prems by (force simp: filter_empty_conv)
  from Cons none show ?case by (auto simp: bisect_right_def)
qed

lemma bisect_left_count:
  "sorted xs \<Longrightarrow> bisect_left xs x = length (filter (\<lambda>y. y < x) xs)"
proof (induction xs)
  case Nil
  then show ?case by (simp add: bisect_left_def)
next
  case (Cons y xs)
  have none: "filter (\<lambda>z. z < x) xs = []" if "\<not> y < x"
    using that Cons.prems by (force simp: filter_empty_conv)
  from Cons none show ?case by (auto simp: bisect_left_def)
qed

lemma bisect_right_diff:
  assumes "sorted xs"
  shows "bisect_right xs hi - bisect_right xs lo = count_in lo hi xs"
proof (cases "lo \<le> hi")
  case True
  have "length (filter (\<lambda>y. y \<le> hi) xs) = length (filter (\<lambda>y. y \<le> lo) xs) + count_in lo hi xs"
    using True by (induction xs) (auto simp: count_in_Cons)
  then show ?thesis using assms by (simp add: bisect_right_count)
next
  case False
  have "length (filter (\<lambda>y. y \<le> hi) xs) \<le> length (filter (\<lambda>y. y \<le> lo) xs)"
    using False by (induction xs) auto
  moreover have "count_in lo hi xs = 0"
    using False by (auto simp: count_in_def filter_empty_conv)
  ultimately show ?thesis using assms by (simp add: bisect_right_count)
qed

end
