(* ===== verification/PyFloat.thy ===== *)
theory PyFloat
  imports Main Prelude
begin

text \<open>
  Python's \<open>float\<close> (IEEE-754 binary64) as exact integers. A finite double is an integer multiple
  of \<open>2 ^ -1074\<close>, the least subnormal, so it is modelled by that multiple: \<open>x :: flt\<close> stands for
  the real number \<open>x * 2 ^ -1074\<close>, and the infinities are \<open>\<plusminus> 2 ^ 2098\<close>, that is
  \<open>\<plusminus> 2 ^ 1024\<close> in these units. The order of doubles is then the order of the integers, addition
  is integer addition followed by rounding to 53 bits (nearest, ties to even), and
  \<open>math.nextafter\<close> is a step of one unit in the last place. The two zeros are identified; NaN is
  not an element of \<open>flt\<close> (see \<open>PyValue\<close>).
\<close>

type_synonym flt = int

definition fl_inf :: flt where
  "fl_inf = 2 ^ 2098"

section \<open>The grid of doubles\<close>

text \<open>The exponent of one unit in the last place of a magnitude.\<close>

function ulp_exp :: "int \<Rightarrow> nat" where
  "ulp_exp x = (if x < 9007199254740992 then 0 else Suc (ulp_exp (x div 2)))"
  by pat_completeness auto
termination
proof (relation "measure nat")
  fix x :: int
  assume "\<not> x < 9007199254740992"
  then have "0 < x" "x div 2 < x" by auto
  then show "(x div 2, x) \<in> measure nat" by (simp add: nat_mono_iff)
qed simp

declare ulp_exp.simps [simp del]

definition flt_ok :: "flt \<Rightarrow> bool" where
  "flt_ok x \<longleftrightarrow> \<bar>x\<bar> \<le> fl_inf \<and> 2 ^ ulp_exp \<bar>x\<bar> dvd x"

definition flt_finite :: "flt \<Rightarrow> bool" where
  "flt_finite x \<longleftrightarrow> \<bar>x\<bar> < fl_inf"

lemma ulp_exp_small: "x < 9007199254740992 \<Longrightarrow> ulp_exp x = 0"
  by (subst ulp_exp.simps) simp

lemma ulp_exp_big: "9007199254740992 \<le> x \<Longrightarrow> ulp_exp x = Suc (ulp_exp (x div 2))"
  by (subst ulp_exp.simps) simp

lemma ulp_exp_upper: "x < 2 ^ (53 + ulp_exp x)"
proof (induction x rule: ulp_exp.induct)
  case (1 x)
  show ?case
  proof (cases "x < 9007199254740992")
    case True
    then show ?thesis by (simp add: ulp_exp_small)
  next
    case False
    then have "x div 2 < 2 ^ (53 + ulp_exp (x div 2))" by (rule 1)
    then have "x < 2 * 2 ^ (53 + ulp_exp (x div 2))" by linarith
    also have "\<dots> = 2 ^ (53 + Suc (ulp_exp (x div 2)))" by (simp only: power_Suc add_Suc_right)
    finally show ?thesis using False by (simp add: ulp_exp_big)
  qed
qed

lemma ulp_exp_lower: "0 < ulp_exp x \<Longrightarrow> 2 ^ (52 + ulp_exp x) \<le> x"
proof (induction x rule: ulp_exp.induct)
  case (1 x)
  then have big: "\<not> x < 9007199254740992" by (auto simp: ulp_exp_small)
  show ?case
  proof (cases "0 < ulp_exp (x div 2)")
    case True
    with 1 big have "2 ^ (52 + ulp_exp (x div 2)) \<le> x div 2" by blast
    then have "2 * 2 ^ (52 + ulp_exp (x div 2)) \<le> x" by linarith
    also have "2 * 2 ^ (52 + ulp_exp (x div 2)) = (2::int) ^ (52 + Suc (ulp_exp (x div 2)))"
      by (simp only: power_Suc add_Suc_right)
    finally show ?thesis using big by (simp add: ulp_exp_big)
  next
    case False
    with big show ?thesis by (simp add: ulp_exp_big)
  qed
qed

lemma ulp_exp_mono: "x \<le> y \<Longrightarrow> ulp_exp x \<le> ulp_exp y"
proof (rule ccontr)
  assume le: "x \<le> y" and "\<not> ulp_exp x \<le> ulp_exp y"
  then have lt: "ulp_exp y < ulp_exp x" by simp
  have "y < 2 ^ (53 + ulp_exp y)" by (rule ulp_exp_upper)
  also have "(2::int) ^ (53 + ulp_exp y) \<le> 2 ^ (52 + ulp_exp x)"
    using lt by (intro power_increasing) auto
  also have "\<dots> \<le> x" using lt by (intro ulp_exp_lower) simp
  finally show False using le by simp
qed

lemma ulp_exp_le: "x < 2 ^ (53 + k) \<Longrightarrow> ulp_exp x \<le> k"
proof (rule ccontr)
  assume lt: "x < 2 ^ (53 + k)" and "\<not> ulp_exp x \<le> k"
  then have "k < ulp_exp x" by simp
  then have "(2::int) ^ (53 + k) \<le> 2 ^ (52 + ulp_exp x)" by (intro power_increasing) auto
  also have "\<dots> \<le> x" using \<open>k < ulp_exp x\<close> by (intro ulp_exp_lower) simp
  finally show False using lt by simp
qed

lemma ulp_exp_pow: "ulp_exp (2 ^ (53 + k)) = Suc k"
proof (rule antisym)
  show "ulp_exp (2 ^ (53 + k)) \<le> Suc k" by (rule ulp_exp_le) simp
  have "\<not> ulp_exp (2 ^ (53 + k)) \<le> k"
  proof
    assume le: "ulp_exp (2 ^ (53 + k)) \<le> k"
    have "(2::int) ^ (53 + k) < 2 ^ (53 + ulp_exp (2 ^ (53 + k)))" by (rule ulp_exp_upper)
    also have "(2::int) ^ (53 + ulp_exp (2 ^ (53 + k))) \<le> 2 ^ (53 + k)"
      using le by (intro power_increasing) auto
    finally show False by simp
  qed
  then show "Suc k \<le> ulp_exp (2 ^ (53 + k))" by simp
qed

text \<open>A multiple of \<open>2 ^ k\<close> up to \<open>2 ^ (53 + k)\<close> is on the grid.\<close>

lemma dvd_grid:
  assumes "0 \<le> x" "x \<le> 2 ^ (53 + k)" "2 ^ k dvd x"
  shows "2 ^ ulp_exp x dvd x"
proof (cases "x = 2 ^ (53 + k)")
  case True
  have "(2::int) ^ Suc k dvd 2 ^ (53 + k)" by (intro le_imp_power_dvd) simp
  with True show ?thesis by (simp only: ulp_exp_pow)
next
  case False
  with assms have "ulp_exp x \<le> k" by (intro ulp_exp_le) simp
  then have "(2::int) ^ ulp_exp x dvd 2 ^ k" by (rule le_imp_power_dvd)
  with assms(3) show ?thesis by (rule dvd_trans [rotated])
qed

lemma flt_ok_minus [simp]: "flt_ok (- x) = flt_ok x"
  by (simp add: flt_ok_def)

lemma flt_finite_minus [simp]: "flt_finite (- x) = flt_finite x"
  by (simp add: flt_finite_def)

lemma flt_ok_0 [simp]: "flt_ok 0"
  by (simp add: flt_ok_def fl_inf_def)

lemma flt_ok_inf [simp]: "flt_ok fl_inf"
proof -
  have "(2::int) ^ ulp_exp (2 ^ (53 + 2045)) dvd 2 ^ (53 + 2045)"
    by (rule dvd_grid [where k = 2045]) (auto intro: le_imp_power_dvd)
  then show ?thesis by (simp add: flt_ok_def fl_inf_def)
qed

lemma fl_inf_pos [simp]: "0 < fl_inf"
  by (simp add: fl_inf_def)

lemma fl_inf_nonneg [simp]: "0 \<le> fl_inf"
  by (rule less_imp_le) simp

lemma flt_ok_le_inf: "flt_ok x \<Longrightarrow> x \<le> fl_inf"
  unfolding flt_ok_def by linarith

lemma flt_ok_ge_inf: "flt_ok x \<Longrightarrow> - fl_inf \<le> x"
  unfolding flt_ok_def by linarith

section \<open>Rounding to nearest, ties to even\<close>

text \<open>\<open>rne a k\<close> is \<open>a / 2 ^ k\<close> rounded to an integer, ties to even.\<close>

definition rne :: "int \<Rightarrow> nat \<Rightarrow> int" where
  "rne a k =
     (let q = a div 2 ^ k; r = a mod 2 ^ k
      in if 2 * r < 2 ^ k then q else if 2 ^ k < 2 * r then q + 1
         else if even q then q else q + 1)"

text \<open>\<open>rnd_pos n s\<close> rounds the non-negative number \<open>n / 2 ^ s\<close> to a double of unbounded range.\<close>

definition rnd_pos :: "int \<Rightarrow> nat \<Rightarrow> int" where
  "rnd_pos n s = (let k = ulp_exp (n div 2 ^ s) in rne n (s + k) * 2 ^ k)"

definition rnd :: "int \<Rightarrow> nat \<Rightarrow> int" where
  "rnd n s = (if n < 0 then - rnd_pos (- n) s else rnd_pos n s)"

lemma rne_bounds: "a div 2 ^ k \<le> rne a k \<and> rne a k \<le> a div 2 ^ k + 1"
  by (auto simp: rne_def Let_def)

lemma rne_exact [simp]: "rne (q * 2 ^ k) k = q"
  by (simp add: rne_def Let_def)

lemma rne_mono:
  assumes "a \<le> b"
  shows "rne a k \<le> rne b k"
proof (cases "a div 2 ^ k = b div 2 ^ k")
  case True
  have "a div 2 ^ k * 2 ^ k + a mod 2 ^ k = a" "b div 2 ^ k * 2 ^ k + b mod 2 ^ k = b"
    by (simp_all only: div_mult_mod_eq)
  with True assms have "a mod 2 ^ k \<le> b mod 2 ^ k" by simp
  with True show ?thesis by (auto simp: rne_def Let_def)
next
  case False
  moreover have "a div 2 ^ k \<le> b div 2 ^ k" using assms by (intro zdiv_mono1) auto
  ultimately have "a div 2 ^ k + 1 \<le> b div 2 ^ k" by simp
  then show ?thesis using rne_bounds [of a k] rne_bounds [of b k] by linarith
qed

lemma rne_nearest: "\<bar>2 * (rne a k * 2 ^ k - a)\<bar> \<le> 2 ^ k"
proof -
  define q r where "q = a div 2 ^ k" and "r = a mod 2 ^ k"
  have a: "a = q * 2 ^ k + r" unfolding q_def r_def by (simp only: div_mult_mod_eq)
  have r: "0 \<le> r" "r < 2 ^ k" by (simp_all add: r_def)
  have "rne a k = q \<and> 2 * r \<le> 2 ^ k \<or> rne a k = q + 1 \<and> 2 ^ k \<le> 2 * r"
    by (auto simp: rne_def Let_def q_def r_def)
  then show ?thesis using r a by (auto simp: algebra_simps)
qed

lemma rnd_pos_bounds:
  fixes n :: int and s :: nat
  assumes "0 \<le> n"
  defines "k \<equiv> ulp_exp (n div 2 ^ s)"
  shows "rnd_pos n s \<le> 2 ^ (53 + k)" and "0 < k \<Longrightarrow> 2 ^ (52 + k) \<le> rnd_pos n s"
    and "2 ^ k dvd rnd_pos n s" and "0 \<le> rnd_pos n s"
proof -
  have q: "n div 2 ^ (s + k) = n div 2 ^ s div 2 ^ k"
    by (simp add: power_add zdiv_zmult2_eq)
  have up: "n div 2 ^ s div 2 ^ k < 2 ^ 53"
  proof -
    have "n div 2 ^ s < 2 ^ 53 * 2 ^ k"
      using ulp_exp_upper [of "n div 2 ^ s"] by (simp add: k_def power_add)
    moreover have "n div 2 ^ s div 2 ^ k * 2 ^ k \<le> n div 2 ^ s"
      by (metis div_mult_mod_eq le_add_same_cancel1 pos_mod_sign zero_less_numeral zero_less_power)
    ultimately have "n div 2 ^ s div 2 ^ k * 2 ^ k < 2 ^ 53 * 2 ^ k" by linarith
    then show ?thesis by (simp only: mult_less_cancel_right_pos zero_less_power zero_less_numeral)
  qed
  have "rne n (s + k) \<le> 2 ^ 53" using rne_bounds [of n "s + k"] up q by simp
  then have "rne n (s + k) * 2 ^ k \<le> 2 ^ 53 * 2 ^ k" by (rule mult_right_mono) simp
  then show "rnd_pos n s \<le> 2 ^ (53 + k)"
    by (simp add: rnd_pos_def k_def [symmetric] power_add)
  have nonneg: "0 \<le> rne n (s + k)"
  proof -
    have "0 \<le> n div 2 ^ (s + k)" using assms by (simp add: pos_imp_zdiv_nonneg_iff)
    then show ?thesis using rne_bounds [of n "s + k"] by linarith
  qed
  then show "0 \<le> rnd_pos n s" by (simp add: rnd_pos_def k_def [symmetric])
  show "2 ^ k dvd rnd_pos n s" by (simp add: rnd_pos_def k_def [symmetric])
  show "2 ^ (52 + k) \<le> rnd_pos n s" if "0 < k"
  proof -
    have "2 ^ 52 * 2 ^ k \<le> n div 2 ^ s"
      using ulp_exp_lower [of "n div 2 ^ s"] that by (simp add: k_def power_add)
    then have "2 ^ 52 * 2 ^ k div 2 ^ k \<le> n div 2 ^ s div 2 ^ k"
      by (rule zdiv_mono1) simp
    then have "2 ^ 52 \<le> rne n (s + k)" using rne_bounds [of n "s + k"] q by simp
    then have "2 ^ 52 * 2 ^ k \<le> rne n (s + k) * 2 ^ k" by (rule mult_right_mono) simp
    then show ?thesis by (simp add: rnd_pos_def k_def [symmetric] power_add)
  qed
qed

lemma rnd_pos_mono:
  assumes "0 \<le> a" "a \<le> b"
  shows "rnd_pos a s \<le> rnd_pos b s"
proof -
  define k l where "k = ulp_exp (a div 2 ^ s)" and "l = ulp_exp (b div 2 ^ s)"
  have le: "a div 2 ^ s \<le> b div 2 ^ s" using assms by (intro zdiv_mono1) auto
  then have kl: "k \<le> l" by (simp add: k_def l_def ulp_exp_mono)
  show ?thesis
  proof (cases "k = l")
    case True
    have "rne a (s + k) * 2 ^ k \<le> rne b (s + k) * 2 ^ k"
      using assms rne_mono [of a b "s + k"] by (intro mult_right_mono) auto
    with True show ?thesis by (simp add: rnd_pos_def k_def [symmetric] l_def [symmetric])
  next
    case False
    with kl have "k < l" by simp
    have "rnd_pos a s \<le> 2 ^ (53 + k)" using assms by (simp add: rnd_pos_bounds k_def)
    also have "(2::int) ^ (53 + k) \<le> 2 ^ (52 + l)"
      using \<open>k < l\<close> by (intro power_increasing) auto
    also have "\<dots> \<le> rnd_pos b s"
      using assms \<open>k < l\<close> rnd_pos_bounds(2) [of b s] by (simp add: l_def)
    finally show ?thesis .
  qed
qed

lemma rnd_mono: "a \<le> b \<Longrightarrow> rnd a s \<le> rnd b s"
  using rnd_pos_mono [of a b s] rnd_pos_mono [of "- b" "- a" s]
    rnd_pos_bounds(4) [of b s] rnd_pos_bounds(4) [of "- a" s]
  by (auto simp: rnd_def)

lemma rnd_minus [simp]: "rnd (- n) s = - rnd n s"
  by (auto simp: rnd_def rnd_pos_def Let_def rne_def)

lemma rnd_pos_grid: "0 \<le> n \<Longrightarrow> 2 ^ ulp_exp (rnd_pos n s) dvd rnd_pos n s"
  by (rule dvd_grid [where k = "ulp_exp (n div 2 ^ s)"]) (simp_all add: rnd_pos_bounds)

lemma rnd_grid: "2 ^ ulp_exp \<bar>rnd n s\<bar> dvd rnd n s"
proof (cases "n < 0")
  case True
  then show ?thesis using rnd_pos_grid [of "- n" s] rnd_pos_bounds(4) [of "- n" s]
    by (simp add: rnd_def)
next
  case False
  then show ?thesis using rnd_pos_grid [of n s] rnd_pos_bounds(4) [of n s]
    by (simp add: rnd_def)
qed

lemma rnd_pos_id:
  assumes "0 \<le> x" "2 ^ ulp_exp x dvd x"
  shows "rnd_pos x 0 = x"
proof -
  obtain q where "x = q * 2 ^ ulp_exp x" using assms(2) by (metis dvd_def mult.commute)
  then have "rne x (ulp_exp x) = q" by (metis rne_exact)
  with \<open>x = q * 2 ^ ulp_exp x\<close> show ?thesis by (simp add: rnd_pos_def)
qed

lemma rnd_id: "flt_ok x \<Longrightarrow> rnd x 0 = x"
  using rnd_pos_id [of x] rnd_pos_id [of "- x"] by (auto simp: rnd_def flt_ok_def)

text \<open>The rounding error is at most half a unit in the last place.\<close>

lemma rnd_pos_nearest: "\<bar>2 * (rnd_pos n 0 - n)\<bar> \<le> 2 ^ ulp_exp n"
  using rne_nearest [of n "ulp_exp n"] by (simp add: rnd_pos_def Let_def)

lemma rnd_nearest: "\<bar>2 * (rnd n 0 - n)\<bar> \<le> 2 ^ ulp_exp \<bar>n\<bar>"
proof (cases "n < 0")
  case True
  then show ?thesis using rnd_pos_nearest [of "- n"] by (simp add: rnd_def)
next
  case False
  then show ?thesis using rnd_pos_nearest [of n] by (simp add: rnd_def)
qed

section \<open>Arithmetic\<close>

text \<open>Overflow: a rounded result of magnitude \<open>2 ^ 1024\<close> or more is an infinity.\<close>

definition saturate :: "int \<Rightarrow> flt" where
  "saturate r = max (- fl_inf) (min fl_inf r)"

text \<open>
  \<open>x + y\<close> and \<open>x - y\<close> on floats. The program never combines two infinities of opposite
  sign (one operand is always a validated finite number), so no NaN arises here.
\<close>

definition fl_add :: "flt \<Rightarrow> flt \<Rightarrow> flt" where
  "fl_add x y =
     (if \<bar>x\<bar> = fl_inf then x else if \<bar>y\<bar> = fl_inf then y else saturate (rnd (x + y) 0))"

definition fl_sub :: "flt \<Rightarrow> flt \<Rightarrow> flt" where
  "fl_sub x y = fl_add x (- y)"

text \<open>\<open>x * y\<close> for operands that are not a zero times an infinity.\<close>

definition fl_mul :: "flt \<Rightarrow> flt \<Rightarrow> flt" where
  "fl_mul x y =
     (if \<bar>x\<bar> = fl_inf \<or> \<bar>y\<bar> = fl_inf then sgn x * sgn y * fl_inf
      else saturate (rnd (x * y) 1074))"

text \<open>\<open>math.nextafter(x, math.inf)\<close> and \<open>math.nextafter(x, -math.inf)\<close>.\<close>

definition next_up :: "flt \<Rightarrow> flt" where
  "next_up x =
     (if x = fl_inf then fl_inf
      else if 0 \<le> x then x + 2 ^ ulp_exp x else x + 2 ^ ulp_exp (- x - 1))"

definition next_down :: "flt \<Rightarrow> flt" where
  "next_down x = - next_up (- x)"

text \<open>\<open>float(n)\<close> of a Python integer; \<open>None\<close> is the \<open>OverflowError\<close>.\<close>

definition fl_of_int :: "int \<Rightarrow> flt option" where
  "fl_of_int n =
     (let r = rnd (n * 2 ^ 1074) 0 in if \<bar>r\<bar> < fl_inf then Some r else None)"

text \<open>\<open>fl_lit m e\<close> is the literal \<open>m * 2 ^ e\<close> with \<open>-1074 \<le> e\<close>.\<close>

definition fl_lit :: "int \<Rightarrow> int \<Rightarrow> flt" where
  "fl_lit m e = m * 2 ^ nat (e + 1074)"

lemma saturate_mono: "a \<le> b \<Longrightarrow> saturate a \<le> saturate b"
  by (auto simp: saturate_def)

lemma saturate_ok: "2 ^ ulp_exp \<bar>r\<bar> dvd r \<Longrightarrow> flt_ok (saturate r)"
proof (cases "\<bar>r\<bar> \<le> fl_inf")
  case True
  moreover assume "2 ^ ulp_exp \<bar>r\<bar> dvd r"
  ultimately show ?thesis by (auto simp: saturate_def flt_ok_def)
next
  case False
  then have "saturate r = fl_inf \<or> saturate r = - fl_inf"
    by (auto simp: saturate_def max_def min_def)
  then show ?thesis by auto
qed

lemma saturate_id: "flt_ok x \<Longrightarrow> saturate x = x"
  by (auto simp: saturate_def flt_ok_def)

lemma fl_add_ok [simp, intro]: "flt_ok x \<Longrightarrow> flt_ok y \<Longrightarrow> flt_ok (fl_add x y)"
  by (auto simp: fl_add_def intro!: saturate_ok rnd_grid)

lemma fl_sub_ok [simp, intro]: "flt_ok x \<Longrightarrow> flt_ok y \<Longrightarrow> flt_ok (fl_sub x y)"
  by (simp add: fl_sub_def)

lemma fl_mul_ok: "flt_ok x \<Longrightarrow> flt_ok y \<Longrightarrow> flt_ok (fl_mul x y)"
proof -
  have "sgn x * sgn y * fl_inf = fl_inf \<or> sgn x * sgn y * fl_inf = - fl_inf
      \<or> sgn x * sgn y * fl_inf = 0"
    by (auto simp: sgn_if)
  then have "flt_ok (sgn x * sgn y * fl_inf)" by auto
  then show ?thesis by (auto simp: fl_mul_def intro!: saturate_ok rnd_grid)
qed

lemma fl_of_int_ok: "fl_of_int n = Some x \<Longrightarrow> flt_ok x \<and> flt_finite x"
  using rnd_grid [of "n * 2 ^ 1074" 0]
  by (auto simp: fl_of_int_def flt_ok_def flt_finite_def Let_def split: if_splits)

lemma saturate_bounds: "- fl_inf \<le> saturate r \<and> saturate r \<le> fl_inf"
  by (auto simp: saturate_def)

lemma fl_add_mono:
  assumes "flt_ok x" "flt_ok y" "x \<le> y" "flt_finite p"
  shows "fl_add x p \<le> fl_add y p"
proof -
  have p: "\<bar>p\<bar> \<noteq> fl_inf" using assms(4) by (simp add: flt_finite_def)
  consider "x = fl_inf" | "x = - fl_inf" | "\<bar>x\<bar> \<noteq> fl_inf" by fastforce
  then show ?thesis
  proof cases
    case 1
    with assms flt_ok_le_inf [of y] have "y = fl_inf" by simp
    with 1 show ?thesis by simp
  next
    case 2
    then show ?thesis using flt_ok_ge_inf [of "fl_add y p"] p assms(2)
        saturate_bounds [of "rnd (y + p) 0"]
      by (auto simp: fl_add_def flt_ok_def)
  next
    case 3
    then show ?thesis using assms p saturate_mono [OF rnd_mono, of "x + p" "y + p" 0]
        saturate_bounds [of "rnd (x + p) 0"] flt_ok_ge_inf [of x]
      by (auto simp: fl_add_def abs_if split: if_splits)
  qed
qed

lemma fl_sub_mono:
  "flt_ok x \<Longrightarrow> flt_ok y \<Longrightarrow> x \<le> y \<Longrightarrow> flt_finite p \<Longrightarrow> fl_sub x p \<le> fl_sub y p"
  by (simp add: fl_sub_def fl_add_mono)

lemma fl_add_ge:
  assumes "flt_ok x" "0 \<le> p" "flt_finite p"
  shows "x \<le> fl_add x p"
proof -
  have "x = saturate (rnd x 0)" using assms by (simp add: rnd_id saturate_id)
  also have "\<dots> \<le> saturate (rnd (x + p) 0)"
    using assms by (intro saturate_mono rnd_mono) simp
  finally show ?thesis using assms by (auto simp: fl_add_def flt_finite_def)
qed

lemma fl_sub_le:
  assumes "flt_ok x" "0 \<le> p" "flt_finite p"
  shows "fl_sub x p \<le> x"
proof -
  have "saturate (rnd (x - p) 0) \<le> saturate (rnd x 0)"
    using assms by (intro saturate_mono rnd_mono) simp
  also have "\<dots> = x" using assms by (simp add: rnd_id saturate_id)
  finally show ?thesis using assms by (auto simp: fl_sub_def fl_add_def flt_finite_def)
qed

section \<open>Neighbours\<close>

lemma next_up_gt: "flt_ok x \<Longrightarrow> x \<noteq> fl_inf \<Longrightarrow> x < next_up x"
  by (auto simp: next_up_def)

lemma next_up_least:
  assumes x: "flt_ok x" and y: "flt_ok y" and "x < y"
  shows "next_up x \<le> y"
proof -
  have fin: "x \<noteq> fl_inf" using flt_ok_le_inf [OF y] \<open>x < y\<close> by simp
  show ?thesis
  proof (cases "0 \<le> x")
    case True
    then have "ulp_exp x \<le> ulp_exp y" using \<open>x < y\<close> by (intro ulp_exp_mono) simp
    then have "(2::int) ^ ulp_exp x dvd 2 ^ ulp_exp y" by (rule le_imp_power_dvd)
    moreover have "2 ^ ulp_exp y dvd y" "2 ^ ulp_exp x dvd x"
      using x y True \<open>x < y\<close> by (simp_all add: flt_ok_def)
    ultimately have "2 ^ ulp_exp x dvd y - x" by (meson dvd_diff dvd_trans)
    then have "2 ^ ulp_exp x \<le> y - x" using \<open>x < y\<close> by (intro zdvd_imp_le) auto
    with True fin show ?thesis by (simp add: next_up_def)
  next
    case False
    define z j where "z = - x" and "j = ulp_exp (z - 1)"
    have z: "0 < z" and up: "next_up x = - (z - 2 ^ j)"
      using False fin by (simp_all add: next_up_def z_def j_def)
    have dz: "2 ^ j dvd z"
    proof -
      have "j \<le> ulp_exp z" by (simp add: j_def ulp_exp_mono)
      then have "(2::int) ^ j dvd 2 ^ ulp_exp z" by (rule le_imp_power_dvd)
      moreover have "2 ^ ulp_exp z dvd z" using x z by (simp add: flt_ok_def z_def)
      ultimately show ?thesis by (rule dvd_trans)
    qed
    have ge0: "0 \<le> z - 2 ^ j"
      using zdvd_imp_le [OF dz z] by simp
    show ?thesis
    proof (cases "0 \<le> y")
      case True
      with ge0 up show ?thesis by simp
    next
      case neg: False
      define w where "w = - y"
      have w: "0 < w" "w \<le> z - 1" using neg \<open>x < y\<close> by (auto simp: w_def z_def)
      have wd: "2 ^ ulp_exp w dvd w" using y w by (simp add: flt_ok_def w_def)
      have "ulp_exp w \<le> j" using w by (simp add: j_def ulp_exp_mono)
      then consider "ulp_exp w = j" | "ulp_exp w < j" by linarith
      then have "w \<le> z - 2 ^ j"
      proof cases
        case 1
        then have "2 ^ j dvd z - w" using wd dz by (metis dvd_diff)
        then have "2 ^ j \<le> z - w" using w by (intro zdvd_imp_le) auto
        then show ?thesis by simp
      next
        case 2
        have "w < 2 ^ (53 + ulp_exp w)" by (rule ulp_exp_upper)
        also have "(2::int) ^ (53 + ulp_exp w) \<le> 2 ^ (52 + j)"
          using 2 by (intro power_increasing) auto
        finally have w_lt: "w < 2 ^ (52 + j)" .
        have "2 ^ (52 + j) \<le> z - 1" using 2 ulp_exp_lower [of "z - 1"] by (simp add: j_def)
        moreover have "2 ^ j dvd z - 2 ^ (52 + j)"
          using dz by (intro dvd_diff le_imp_power_dvd) auto
        ultimately have "2 ^ j \<le> z - 2 ^ (52 + j)" by (intro zdvd_imp_le) auto
        with w_lt show ?thesis by simp
      qed
      then show ?thesis by (simp add: up w_def)
    qed
  qed
qed

lemma next_up_ok [simp, intro]:
  assumes "flt_ok x"
  shows "flt_ok (next_up x)"
proof (cases "x = fl_inf")
  case True
  then show ?thesis by (simp add: next_up_def)
next
  case False
  with assms have lt: "x < fl_inf" using flt_ok_le_inf [of x] by simp
  have le: "next_up x \<le> fl_inf" using next_up_least [OF assms flt_ok_inf lt] .
  show ?thesis
  proof (cases "0 \<le> x")
    case True
    define k where "k = ulp_exp x"
    have nu: "next_up x = x + 2 ^ k" using True False by (simp add: next_up_def k_def)
    have d: "2 ^ k dvd x" using assms True by (simp add: flt_ok_def k_def)
    have "x < 2 ^ (53 + k)" unfolding k_def by (rule ulp_exp_upper)
    moreover have "2 ^ k dvd 2 ^ (53 + k) - x" using d by (intro dvd_diff le_imp_power_dvd) auto
    ultimately have "2 ^ k \<le> 2 ^ (53 + k) - x" by (intro zdvd_imp_le) auto
    then have "2 ^ ulp_exp (x + 2 ^ k) dvd x + 2 ^ k"
      using True d by (intro dvd_grid [where k = k]) auto
    with nu le True show ?thesis by (simp add: flt_ok_def)
  next
    case neg: False
    define z j where "z = - x" and "j = ulp_exp (z - 1)"
    have z: "0 < z" and up: "next_up x = - (z - 2 ^ j)"
      using neg False by (simp_all add: next_up_def z_def j_def)
    have dz: "2 ^ j dvd z"
    proof -
      have "j \<le> ulp_exp z" by (simp add: j_def ulp_exp_mono)
      then have "(2::int) ^ j dvd 2 ^ ulp_exp z" by (rule le_imp_power_dvd)
      moreover have "2 ^ ulp_exp z dvd z" using assms z by (simp add: flt_ok_def z_def)
      ultimately show ?thesis by (rule dvd_trans)
    qed
    have ge0: "0 \<le> z - 2 ^ j" using zdvd_imp_le [OF dz z] by simp
    have "ulp_exp (z - 2 ^ j) \<le> j" unfolding j_def by (intro ulp_exp_mono) simp
    then have "(2::int) ^ ulp_exp (z - 2 ^ j) dvd 2 ^ j" by (rule le_imp_power_dvd)
    moreover have "2 ^ j dvd z - 2 ^ j" using dz by (intro dvd_diff) auto
    ultimately have "2 ^ ulp_exp (z - 2 ^ j) dvd z - 2 ^ j" by (rule dvd_trans)
    moreover have "z - 2 ^ j \<le> fl_inf"
    proof -
      have "(0::int) \<le> 2 ^ j" by simp
      then show ?thesis using flt_ok_ge_inf [OF assms] unfolding z_def by linarith
    qed
    ultimately have "flt_ok (z - 2 ^ j)" using ge0 by (simp add: flt_ok_def)
    then show ?thesis unfolding up by (simp only: flt_ok_minus)
  qed
qed

lemma next_down_ok [simp, intro]: "flt_ok x \<Longrightarrow> flt_ok (next_down x)"
  by (simp add: next_down_def)

lemma next_down_lt: "flt_ok x \<Longrightarrow> x \<noteq> - fl_inf \<Longrightarrow> next_down x < x"
  using next_up_gt [of "- x"] by (fastforce simp: next_down_def)

lemma next_down_greatest: "flt_ok x \<Longrightarrow> flt_ok y \<Longrightarrow> y < x \<Longrightarrow> y \<le> next_down x"
  using next_up_least [of "- x" "- y"] by (simp add: next_down_def)

lemma next_down_pos: "0 < x \<Longrightarrow> next_down x = x - 2 ^ ulp_exp (x - 1)"
proof -
  assume "0 < x"
  moreover have "- x \<noteq> fl_inf" using \<open>0 < x\<close> fl_inf_pos by linarith
  ultimately show ?thesis by (simp add: next_down_def next_up_def)
qed

lemma fl_inf_nonzero [simp]: "fl_inf \<noteq> 0"
  by (simp add: fl_inf_def)

lemma next_down_0: "next_down 0 = - 1"
  using fl_inf_nonzero [symmetric] by (simp add: next_down_def next_up_def ulp_exp_small)


section \<open>Scaling and whole seconds\<close>

text \<open>
  Rounding commutes with a power of two, so arithmetic on numbers of a common exponent is
  arithmetic on their integer significands. Whole seconds add exactly.
\<close>

lemma rnd_pos_scale:
  assumes "0 \<le> a"
  shows "rnd_pos (a * 2 ^ e) 0 = rnd_pos a 0 * 2 ^ e"
proof (cases "ulp_exp a = 0")
  case True
  have "a < 2 ^ 53" using ulp_exp_upper [of a] True by simp
  then have "2 ^ ulp_exp (a * 2 ^ e) dvd a * 2 ^ e"
    using assms by (intro dvd_grid [where k = e]) (auto simp: power_add)
  then have "rnd_pos (a * 2 ^ e) 0 = a * 2 ^ e" using assms by (intro rnd_pos_id) auto
  moreover have "rnd_pos a 0 = a" using assms True by (intro rnd_pos_id) auto
  ultimately show ?thesis by simp
next
  case False
  define k where "k = ulp_exp a"
  have lo: "2 ^ (52 + k) \<le> a" using False ulp_exp_lower [of a] by (simp add: k_def)
  have up: "a < 2 ^ (53 + k)" unfolding k_def by (rule ulp_exp_upper)
  have "ulp_exp (a * 2 ^ e) \<le> k + e"
    using up by (intro ulp_exp_le) (simp add: power_add)
  moreover have "k + e \<le> ulp_exp (a * 2 ^ e)"
  proof -
    have "k + e = ulp_exp (2 ^ (53 + (k - 1 + e)))"
      using False by (simp only: ulp_exp_pow) (simp add: k_def)
    also have "\<dots> \<le> ulp_exp (a * 2 ^ e)"
    proof (rule ulp_exp_mono)
      have "(2::int) ^ (53 + (k - 1 + e)) = 2 ^ (52 + k) * 2 ^ e"
        using False by (simp add: power_add [symmetric] k_def)
      also have "\<dots> \<le> a * 2 ^ e" using lo by (intro mult_right_mono) auto
      finally show "(2::int) ^ (53 + (k - 1 + e)) \<le> a * 2 ^ e" .
    qed
    finally show ?thesis .
  qed
  ultimately have k': "ulp_exp (a * 2 ^ e) = k + e" by simp
  have "rne (a * 2 ^ e) (k + e) = rne a k"
  proof -
    have d: "a * 2 ^ e div 2 ^ (k + e) = a div 2 ^ k" by (simp add: power_add)
    have m: "a * 2 ^ e mod 2 ^ (k + e) = a mod 2 ^ k * 2 ^ e" by (simp add: power_add mult_mod_left)
    show ?thesis unfolding rne_def d m by (simp add: power_add Let_def mult.assoc [symmetric])
  qed
  then show ?thesis by (simp add: rnd_pos_def k' k_def [symmetric] power_add)
qed

lemma rnd_scale: "rnd (a * 2 ^ e) 0 = rnd a 0 * 2 ^ e"
proof (cases "a < 0")
  case True
  then have "a * 2 ^ e < 0" by (simp add: mult_less_0_iff)
  moreover have "- (a * 2 ^ e) = - a * 2 ^ e" by simp
  ultimately show ?thesis using True rnd_pos_scale [of "- a" e] by (simp only: rnd_def if_True)
next
  case False
  then have "\<not> a * 2 ^ e < 0" by (simp add: mult_less_0_iff)
  with False rnd_pos_scale [of a e] show ?thesis by (simp add: rnd_def)
qed

lemma fl_add_scale:
  assumes "\<bar>a\<bar> < 2 ^ 90" "\<bar>b\<bar> < 2 ^ 90" "e \<le> 2000"
  shows "fl_add (a * 2 ^ e) (b * 2 ^ e) = rnd (a + b) 0 * 2 ^ e"
proof -
  have small: "\<bar>c * 2 ^ e\<bar> < fl_inf" if "\<bar>c\<bar> < 2 ^ 92" for c :: int
  proof -
    have "\<bar>c * 2 ^ e\<bar> = \<bar>c\<bar> * 2 ^ e" by (simp add: abs_mult)
    also have "\<dots> < 2 ^ 92 * 2 ^ e" using that by (intro mult_strict_right_mono) auto
    also have "\<dots> = (2::int) ^ (92 + e)" by (simp only: power_add)
    also have "\<dots> \<le> 2 ^ 2098" using assms(3) by (intro power_increasing) auto
    finally show ?thesis unfolding fl_inf_def .
  qed
  define r where "r = rnd (a + b) 0"
  have "\<bar>2 * (r - (a + b))\<bar> \<le> 2 ^ ulp_exp \<bar>a + b\<bar>" unfolding r_def by (rule rnd_nearest)
  also have "(2::int) ^ ulp_exp \<bar>a + b\<bar> \<le> 2 ^ 91"
  proof (intro power_increasing ulp_exp_le [THEN order_trans])
    show "\<bar>a + b\<bar> < 2 ^ (53 + 91)" using assms by simp
  qed auto
  finally have "\<bar>r\<bar> < 2 ^ 92" using assms by simp
  then have "saturate (r * 2 ^ e) = r * 2 ^ e" using small [of r] by (auto simp: saturate_def)
  moreover have "\<bar>a * 2 ^ e\<bar> \<noteq> fl_inf" "\<bar>b * 2 ^ e\<bar> \<noteq> fl_inf"
    using small [of a] small [of b] assms by auto
  ultimately show ?thesis
    unfolding fl_add_def r_def by (simp add: distrib_right [symmetric] rnd_scale)
qed

definition sec :: "int \<Rightarrow> flt" where
  "sec n = n * 2 ^ 1074"

lemma sec_less_iff [simp]: "sec a < sec b \<longleftrightarrow> a < b"
  by (simp add: sec_def)

lemma sec_le_iff [simp]: "sec a \<le> sec b \<longleftrightarrow> a \<le> b"
  by (simp add: sec_def)

lemma sec_eq_iff [simp]: "sec a = sec b \<longleftrightarrow> a = b"
  by (simp add: sec_def)

lemma sec_0: "sec 0 = 0"
  by (simp add: sec_def)

lemma rnd_small_int: "\<bar>c\<bar> < 2 ^ 52 \<Longrightarrow> rnd c 0 = c"
  by (auto simp: rnd_def rnd_pos_def ulp_exp_small rne_def)

lemma fl_add_sec [simp]:
  "\<bar>a\<bar> < 2 ^ 50 \<Longrightarrow> \<bar>b\<bar> < 2 ^ 50 \<Longrightarrow> fl_add (sec a) (sec b) = sec (a + b)"
  unfolding sec_def by (subst fl_add_scale) (auto simp: rnd_small_int)

lemma fl_sub_sec [simp]:
  assumes "\<bar>a\<bar> < 2 ^ 50" "\<bar>b\<bar> < 2 ^ 50"
  shows "fl_sub (sec a) (sec b) = sec (a - b)"
proof -
  have "- sec b = sec (- b)" by (simp add: sec_def)
  then show ?thesis using assms unfolding fl_sub_def by simp
qed

lemma sec_lt_inf: "\<bar>a\<bar> < 2 ^ 50 \<Longrightarrow> \<bar>sec a\<bar> < fl_inf"
proof -
  assume "\<bar>a\<bar> < 2 ^ 50"
  then have "\<bar>a\<bar> * 2 ^ 1074 < 2 ^ 50 * 2 ^ 1074" by (intro mult_strict_right_mono) auto
  also have "\<dots> = (2::int) ^ 1124" by simp
  also have "\<dots> \<le> 2 ^ 2098" by (intro power_increasing) auto
  finally show ?thesis by (simp add: sec_def abs_mult fl_inf_def)
qed

lemma sec_neq_inf [simp]:
  assumes "\<bar>a\<bar> < 2 ^ 50"
  shows "\<bar>sec a\<bar> \<noteq> fl_inf" "sec a \<noteq> fl_inf" "fl_inf \<noteq> sec a"
  using sec_lt_inf [OF assms] by auto

lemma sec_finite [simp]: "\<bar>a\<bar> < 2 ^ 50 \<Longrightarrow> flt_finite (sec a)"
  by (simp add: flt_finite_def sec_lt_inf)

lemma sec_ok [simp]:
  assumes "\<bar>a\<bar> < 2 ^ 50"
  shows "flt_ok (sec a)"
proof -
  have "rnd (sec a) 0 = sec a" 
    using assms unfolding sec_def by (subst rnd_scale, subst rnd_small_int) auto
  then have "2 ^ ulp_exp \<bar>sec a\<bar> dvd sec a" using rnd_grid [of "sec a" 0] by simp
  then show ?thesis using sec_lt_inf [OF assms] by (simp add: flt_ok_def)
qed

lemma sec_nonneg [simp]: "0 \<le> sec a \<longleftrightarrow> 0 \<le> a"
  by (simp add: sec_def zero_le_mult_iff)

lemma sec_pos [simp]: "0 < sec a \<longleftrightarrow> 0 < a"
  by (simp add: sec_def zero_less_mult_iff)

lemma sec_neg [simp]: "sec a < 0 \<longleftrightarrow> a < 0" "sec a \<le> 0 \<longleftrightarrow> a \<le> 0"
  by (simp_all add: sec_def mult_less_0_iff mult_le_0_iff)

lemma fl_of_int_sec [simp]: "\<bar>n\<bar> < 2 ^ 50 \<Longrightarrow> fl_of_int n = Some (sec n)"
proof -
  assume n: "\<bar>n\<bar> < 2 ^ 50"
  have "rnd (n * 2 ^ 1074) 0 = n * 2 ^ 1074"
    by (subst rnd_scale, subst rnd_small_int) (use n in auto)
  moreover have "\<bar>n * 2 ^ 1074\<bar> < fl_inf" using sec_lt_inf [OF n] unfolding sec_def .
  ultimately show ?thesis unfolding fl_of_int_def Let_def sec_def by simp
qed

lemma fl_of_int_signs: "fl_of_int n = Some x \<Longrightarrow> (0 \<le> x \<longrightarrow> 0 \<le> n) \<and> (0 < x \<longrightarrow> 0 < n)"
proof -
  assume x: "fl_of_int n = Some x"
  have r: "x = rnd (n * 2 ^ 1074) 0" using x by (auto simp: fl_of_int_def Let_def split: if_splits)
  have "x < 0" if "n < 0"
  proof -
    have "n * 2 ^ 1074 \<le> - 1 * 2 ^ 1074" using that by (intro mult_right_mono) simp_all
    then have "x \<le> rnd (- 1 * 2 ^ 1074) 0" unfolding r by (rule rnd_mono)
    also have "\<dots> = rnd (- 1) 0 * 2 ^ 1074" by (rule rnd_scale)
    also have "\<dots> < 0" by (simp add: rnd_small_int)
    finally show ?thesis .
  qed
  moreover have "x = 0" if "n = 0" using that by (simp add: r rnd_small_int)
  ultimately show ?thesis by linarith
qed

end
