(* ===== verification/PyValue.thy ===== *)
theory PyValue
  imports Main PyFloat
begin

text \<open>
  Python values, exception classes and exceptions, and the two result types of the model: \<open>res\<close>
  for code that may raise, \<open>py\<close> for code that also reads or writes state. The record types an
  exception can carry (\<open>AttemptRecord\<close> of \<open>attempt.py\<close>, \<open>RetryResult\<close> of \<open>result.py\<close>) are
  declared here, since \<open>RetryExhaustedError\<close> has a result and a result has exceptions.
\<close>

section \<open>Exception classes\<close>

text \<open>A class is its module, its name and its bases; \<open>issubclass\<close> walks the bases.\<close>

datatype exc_type = ExcType (et_module: string) (et_name: string) (et_bases: "exc_type list")

fun issubclass :: "exc_type \<Rightarrow> exc_type \<Rightarrow> bool" where
  "issubclass (ExcType m n bs) c \<longleftrightarrow>
     ExcType m n bs = c \<or> list_ex (\<lambda>b. issubclass b c) bs"

definition BaseException_t :: exc_type where
  "BaseException_t = ExcType ''builtins'' ''BaseException'' []"

definition Exception_t :: exc_type where
  "Exception_t = ExcType ''builtins'' ''Exception'' [BaseException_t]"

definition KeyboardInterrupt_t :: exc_type where
  "KeyboardInterrupt_t = ExcType ''builtins'' ''KeyboardInterrupt'' [BaseException_t]"

definition OverflowError_t :: exc_type where
  "OverflowError_t = ExcType ''builtins'' ''OverflowError''
     [ExcType ''builtins'' ''ArithmeticError'' [Exception_t]]"

definition RuntimeError_t :: exc_type where
  "RuntimeError_t = ExcType ''builtins'' ''RuntimeError'' [Exception_t]"

definition ValueError_t :: exc_type where
  "ValueError_t = ExcType ''builtins'' ''ValueError'' [Exception_t]"

definition TypeError_t :: exc_type where
  "TypeError_t = ExcType ''builtins'' ''TypeError'' [Exception_t]"

definition KeyError_t :: exc_type where
  "KeyError_t = ExcType ''builtins'' ''KeyError'' [ExcType ''builtins'' ''LookupError'' [Exception_t]]"

definition OSError_t :: exc_type where
  "OSError_t = ExcType ''builtins'' ''OSError'' [Exception_t]"

definition TimeoutError_t :: exc_type where
  "TimeoutError_t = ExcType ''builtins'' ''TimeoutError'' [OSError_t]"

definition ConnectionError_t :: exc_type where
  "ConnectionError_t = ExcType ''builtins'' ''ConnectionError'' [OSError_t]"

text \<open>The classes of \<open>exceptions.py\<close>.\<close>

definition RelinkerError_t :: exc_type where
  "RelinkerError_t = ExcType ''relinker.exceptions'' ''RelinkerError'' [Exception_t]"

definition InvalidRetryConfigError_t :: exc_type where
  "InvalidRetryConfigError_t =
     ExcType ''relinker.exceptions'' ''InvalidRetryConfigError'' [RelinkerError_t, ValueError_t]"

definition RetryExhaustedError_t :: exc_type where
  "RetryExhaustedError_t =
     ExcType ''relinker.exceptions'' ''RetryExhaustedError'' [RelinkerError_t]"

definition TryAgain_t :: exc_type where
  "TryAgain_t = ExcType ''relinker.exceptions'' ''TryAgain'' [Exception_t]"

lemmas exc_type_defs = BaseException_t_def Exception_t_def KeyboardInterrupt_t_def
  OverflowError_t_def RuntimeError_t_def ValueError_t_def TypeError_t_def OSError_t_def TimeoutError_t_def
  ConnectionError_t_def RelinkerError_t_def InvalidRetryConfigError_t_def
  RetryExhaustedError_t_def TryAgain_t_def

lemma issubclass_refl [simp]: "issubclass c c"
  by (cases c) simp

lemma issubclass_trans:
  "issubclass a b \<Longrightarrow> issubclass b c \<Longrightarrow> issubclass a c"
proof (induction a b rule: issubclass.induct)
  case (1 m n bs d)
  then show ?case by (auto simp: list_ex_iff)
qed

lemma issubclass_size: "issubclass a b \<Longrightarrow> a = b \<or> size b < size a"
proof (induction a b rule: issubclass.induct)
  case (1 m n bs c)
  have "size x < size (ExcType m n bs)" if "x \<in> set bs" for x
    using size_list_estimation' [OF that order_refl, of size] by simp
  with 1 show ?case by (fastforce simp: list_ex_iff)
qed

text \<open>Classes are ordered by \<open>issubclass\<close>: no two classes are bases of each other.\<close>

instantiation exc_type :: order
begin

definition less_eq_exc_type :: "exc_type \<Rightarrow> exc_type \<Rightarrow> bool" where
  "c \<le> d \<longleftrightarrow> issubclass c d"

definition less_exc_type :: "exc_type \<Rightarrow> exc_type \<Rightarrow> bool" where
  "c < d \<longleftrightarrow> issubclass c d \<and> \<not> issubclass d c"

instance
proof
  fix a b :: exc_type
  assume "a \<le> b" "b \<le> a"
  then show "a = b" using issubclass_size [of a b] issubclass_size [of b a] by (auto simp: less_eq_exc_type_def)
qed (auto simp: less_eq_exc_type_def less_exc_type_def intro: issubclass_trans)

end

lemma class_order:
  "Exception_t \<le> BaseException_t" "OSError_t \<le> Exception_t" "TryAgain_t \<le> Exception_t"
  by (simp_all add: less_eq_exc_type_def exc_type_defs)

section \<open>Values\<close>

text \<open>
  The values the program inspects: \<open>None\<close>, booleans, numbers, strings, lists, dictionaries (as
  association lists in insertion order), classes, and opaque objects with an identity and
  attributes. A float is a \<open>flt\<close> or NaN. \<open>VCoroutine\<close> is a coroutine object and \<open>VAwaitable\<close>
  any other awaitable.
\<close>

datatype pyval =
    VNone
  | VBool bool
  | VInt int
  | VFloat flt
  | VNaN
  | VStr string
  | VList "pyval list"
  | VDict "(pyval \<times> pyval) list"
  | VExcType exc_type
  | VClass string
  | VObj nat "(string \<times> pyval) list"
  | VCoroutine nat
  | VAwaitable nat

text \<open>\<open>type(value).__name__\<close>\<close>

fun type_name :: "pyval \<Rightarrow> string" where
  "type_name VNone = ''NoneType''"
| "type_name (VBool _) = ''bool''"
| "type_name (VInt _) = ''int''"
| "type_name (VFloat _) = ''float''"
| "type_name VNaN = ''float''"
| "type_name (VStr _) = ''str''"
| "type_name (VList _) = ''list''"
| "type_name (VDict _) = ''dict''"
| "type_name (VExcType _) = ''type''"
| "type_name (VClass _) = ''type''"
| "type_name (VObj _ _) = ''object''"
| "type_name (VCoroutine _) = ''coroutine''"
| "type_name (VAwaitable _) = ''awaitable''"

section \<open>Records of one execution\<close>

datatype retry_cause = CauseException | CauseResult

text \<open>\<open>AttemptRecord\<close> of \<open>attempt.py\<close>; \<open>'v\<close> are the values, \<open>'e\<close> the exceptions.\<close>

datatype ('v, 'e) attempt_record = AttemptRecord
  (ar_number: nat) (ar_started_at: flt) (ar_ended_at: flt)
  (ar_value: 'v) (ar_error: "'e option") (ar_has_value: bool)

text \<open>\<open>RetryResult\<close> of \<open>result.py\<close>.\<close>

datatype ('v, 'e) retry_result = RetryResult
  (rr_attempts: "('v, 'e) attempt_record list")
  (rr_value: 'v) (rr_error: "'e option")
  (rr_started_at: flt) (rr_ended_at: flt)
  (rr_exhausted: bool) (rr_retry_cause: "retry_cause option")
  (rr_total_attempts: nat) (rr_total_failed: "nat option") (rr_total_successful: "nat option")
  (rr_policy_name: "string option")

section \<open>Exceptions\<close>

text \<open>
  An exception instance: its identity, class, message, \<open>__cause__\<close>, \<open>__context__\<close>,
  \<open>__suppress_context__\<close>, and the \<open>result\<close> attribute of \<open>RetryExhaustedError\<close>. Messages are kept
  up to the values interpolated into them.
\<close>

datatype exn = Exn (exn_id: nat) (exn_type: exc_type) (exn_msg: string)
  (exn_cause: "exn option") (exn_context: "exn option") (exn_suppress: bool)
  (exn_result: "(pyval, exn) retry_result option")

type_synonym attempt = "(pyval, exn) attempt_record"
type_synonym result = "(pyval, exn) retry_result"

definition isinstance_exn :: "exn \<Rightarrow> exc_type \<Rightarrow> bool" where
  "isinstance_exn e c = issubclass (exn_type e) c"

abbreviation is_exception :: "exn \<Rightarrow> bool" where
  "is_exception e \<equiv> isinstance_exn e Exception_t"

abbreviation is_try_again :: "exn \<Rightarrow> bool" where
  "is_try_again e \<equiv> isinstance_exn e TryAgain_t"

text \<open>A freshly raised library exception. Identity 0 is the library's own.\<close>

definition new_exn :: "exc_type \<Rightarrow> string \<Rightarrow> exn" where
  "new_exn c msg = Exn 0 c msg None None False None"

definition config_error :: "string \<Rightarrow> exn" where
  "config_error msg = new_exn InvalidRetryConfigError_t msg"

lemma config_error_is_exception [simp]: "is_exception (config_error msg)"
  by (simp add: isinstance_exn_def config_error_def new_exn_def exc_type_defs)

lemma isinstance_mono: "isinstance_exn e c \<Longrightarrow> c \<le> d \<Longrightarrow> isinstance_exn e d"
  unfolding isinstance_exn_def less_eq_exc_type_def [symmetric] by (rule order_trans)

lemma try_again_is_exception: "is_try_again e \<Longrightarrow> is_exception e"
  by (erule isinstance_mono) (rule class_order)

section \<open>Code that may raise\<close>

datatype 'a res = Ok 'a | Raise exn

fun res_bind :: "'a res \<Rightarrow> ('a \<Rightarrow> 'b res) \<Rightarrow> 'b res" where
  "res_bind (Ok x) f = f x"
| "res_bind (Raise e) f = Raise e"

fun is_ok :: "'a res \<Rightarrow> bool" where
  "is_ok (Ok _) = True"
| "is_ok (Raise _) = False"

lemma res_bind_Ok_iff: "res_bind m f = Ok y \<longleftrightarrow> (\<exists>x. m = Ok x \<and> f x = Ok y)"
  by (cases m) auto

lemma res_bind_Raise_iff:
  "res_bind m f = Raise e \<longleftrightarrow> m = Raise e \<or> (\<exists>x. m = Ok x \<and> f x = Raise e)"
  by (cases m) auto

lemma res_bind_assoc: "res_bind (res_bind m f) g = res_bind m (\<lambda>x. res_bind (f x) g)"
  by (cases m) auto

lemma is_ok_conv: "is_ok r \<longleftrightarrow> (\<exists>x. r = Ok x)"
  by (cases r) auto

text \<open>\<open>any(...)\<close> and \<open>all(...)\<close> over a generator: they stop at the first decisive element, and
  an exception of an element they reach propagates.\<close>

fun res_any :: "bool res list \<Rightarrow> bool res" where
  "res_any [] = Ok False"
| "res_any (r # rs) = res_bind r (\<lambda>b. if b then Ok True else res_any rs)"

fun res_all :: "bool res list \<Rightarrow> bool res" where
  "res_all [] = Ok True"
| "res_all (r # rs) = res_bind r (\<lambda>b. if b then res_all rs else Ok False)"

lemma res_any_Ok: "list_all is_ok rs \<Longrightarrow> res_any rs = Ok (Ok True \<in> set rs)"
proof (induction rs)
  case (Cons r rs)
  then show ?case by (cases r) auto
qed simp

lemma res_all_Ok: "list_all is_ok rs \<Longrightarrow> res_all rs = Ok (Ok False \<notin> set rs)"
proof (induction rs)
  case (Cons r rs)
  then show ?case by (cases r) auto
qed simp

lemma res_any_single: "res_any [r] = r"
  by (cases r) auto

lemma res_all_single: "res_all [r] = r"
  by (cases r) auto

lemma res_any_append: "res_any (rs @ ss) = res_bind (res_any rs) (\<lambda>b. if b then Ok True else res_any ss)"
  by (induction rs) (auto simp: res_bind_assoc intro!: arg_cong2 [where f = res_bind])

lemma res_all_append: "res_all (rs @ ss) = res_bind (res_all rs) (\<lambda>b. if b then res_all ss else Ok False)"
  by (induction rs) (auto simp: res_bind_assoc intro!: arg_cong2 [where f = res_bind])

section \<open>Code that also reads or writes state\<close>

text \<open>A statement maps a state to a result and the state it leaves, also when it raises.\<close>

type_synonym ('s, 'a) py = "'s \<Rightarrow> 'a res \<times> 's"

definition py_return :: "'a \<Rightarrow> ('s, 'a) py" where
  "py_return x s = (Ok x, s)"

definition py_raise :: "exn \<Rightarrow> ('s, 'a) py" where
  "py_raise e s = (Raise e, s)"

definition py_lift :: "'a res \<Rightarrow> ('s, 'a) py" where
  "py_lift r s = (r, s)"

definition py_bind :: "('s, 'a) py \<Rightarrow> ('a \<Rightarrow> ('s, 'b) py) \<Rightarrow> ('s, 'b) py" where
  "py_bind m f s = (case m s of (Ok x, s') \<Rightarrow> f x s' | (Raise e, s') \<Rightarrow> (Raise e, s'))"

text \<open>\<open>try: m except ...: h\<close>, where the handler decides what it re-raises.\<close>

definition py_catch :: "('s, 'a) py \<Rightarrow> (exn \<Rightarrow> ('s, 'a) py) \<Rightarrow> ('s, 'a) py" where
  "py_catch m h s = (case m s of (Ok x, s') \<Rightarrow> (Ok x, s') | (Raise e, s') \<Rightarrow> h e s')"

lemma py_eval [py_simps]:
  "py_return x s = (Ok x, s)" "py_raise e s = (Raise e, s)" "py_lift r s = (r, s)"
  by (simp_all add: py_return_def py_raise_def py_lift_def)

lemma py_bind_eval [py_simps]:
  "m s = (Ok x, s') \<Longrightarrow> py_bind m f s = f x s'"
  "m s = (Raise e, s') \<Longrightarrow> py_bind m f s = (Raise e, s')"
  by (simp_all add: py_bind_def)

lemma py_catch_eval [py_simps]:
  "m s = (Ok x, s') \<Longrightarrow> py_catch m h s = (Ok x, s')"
  "m s = (Raise e, s') \<Longrightarrow> py_catch m h s = h e s'"
  by (simp_all add: py_catch_def)

end
