(* ===== verification/Validation.thy ===== *)
theory Validation
  imports Main PyValue
begin

text \<open>
  \<open>internal/validation.py\<close>: the checks every configuration value and every resolved delay passes.
  Each returns the value the code returns, or raises. A Python integer too large for a float makes
  \<open>float(value)\<close> raise \<open>OverflowError\<close>, which these functions do not catch.
\<close>

definition MAX_SLEEP_SECONDS :: flt where
  "MAX_SLEEP_SECONDS = sec 86400"

text \<open>\<open>float(value)\<close> for an integer or a float value.\<close>

definition overflow_error :: exn where
  "overflow_error = new_exn OverflowError_t ''int too large to convert to float''"

definition py_float :: "int \<Rightarrow> flt res" where
  "py_float n = (case fl_of_int n of None \<Rightarrow> Raise overflow_error | Some x \<Rightarrow> Ok x)"

fun ensure_finite_float :: "string \<Rightarrow> pyval \<Rightarrow> flt res" where
  "ensure_finite_float name (VInt n) = py_float n"
| "ensure_finite_float name (VFloat x) =
     (if flt_finite x then Ok x else Raise (config_error (name @ '' must be finite'')))"
| "ensure_finite_float name VNaN = Raise (config_error (name @ '' must be finite''))"
| "ensure_finite_float name v =
     Raise (config_error (name @ '' must be a number, got '' @ type_name v))"

definition ensure_non_negative :: "string \<Rightarrow> pyval \<Rightarrow> unit res" where
  "ensure_non_negative name value =
     res_bind (ensure_finite_float name value) (\<lambda>resolved.
       if resolved < 0
       then Raise (config_error (name @ '' must be greater than or equal to 0''))
       else Ok ())"

definition ensure_safe_delay :: "string \<Rightarrow> pyval \<Rightarrow> flt res" where
  "ensure_safe_delay name value =
     res_bind (ensure_finite_float name value) (\<lambda>resolved.
       if resolved < 0
       then Raise (config_error (name @ '' must be greater than or equal to 0''))
       else if MAX_SLEEP_SECONDS < resolved
       then Raise (config_error (name @ '' must be at most 86400.0 seconds''))
       else Ok resolved)"

definition resolved_delay_message :: string where
  "resolved_delay_message =
     ''resolved delay must be a finite non-negative number not exceeding 86400.0 seconds''"

fun ensure_resolved_delay :: "pyval \<Rightarrow> flt res" where
  "ensure_resolved_delay (VInt n) =
     res_bind (py_float n) (\<lambda>resolved.
       if resolved < 0 \<or> MAX_SLEEP_SECONDS < resolved
       then Raise (config_error resolved_delay_message) else Ok resolved)"
| "ensure_resolved_delay (VFloat resolved) =
     (if \<not> flt_finite resolved \<or> resolved < 0 \<or> MAX_SLEEP_SECONDS < resolved
      then Raise (config_error resolved_delay_message) else Ok resolved)"
| "ensure_resolved_delay v = Raise (config_error resolved_delay_message)"

definition ensure_positive :: "string \<Rightarrow> pyval \<Rightarrow> unit res" where
  "ensure_positive name value =
     res_bind (ensure_finite_float name value) (\<lambda>resolved.
       if resolved \<le> 0 then Raise (config_error (name @ '' must be greater than 0''))
       else Ok ())"

fun ensure_positive_int :: "string \<Rightarrow> pyval \<Rightarrow> unit res" where
  "ensure_positive_int name (VInt n) =
     (if n \<le> 0 then Raise (config_error (name @ '' must be a positive integer'')) else Ok ())"
| "ensure_positive_int name v = Raise (config_error (name @ '' must be a positive integer''))"

text \<open>The loop over the configured exception types.\<close>

fun ensure_exception_type_list :: "pyval list \<Rightarrow> unit res" where
  "ensure_exception_type_list [] = Ok ()"
| "ensure_exception_type_list (VExcType c # rest) =
     (if \<not> issubclass c BaseException_t
      then Raise (config_error ''exception types must be classes derived from BaseException'')
      else if \<not> issubclass c Exception_t
      then Raise (config_error
        (et_name c @ '' is a BaseException subclass that the executor never catches''))
      else ensure_exception_type_list rest)"
| "ensure_exception_type_list (v # rest) =
     Raise (config_error ''exception types must be classes derived from BaseException'')"

definition ensure_exception_types :: "pyval list \<Rightarrow> unit res" where
  "ensure_exception_types exception_types =
     (if exception_types = []
      then Raise (config_error ''at least one exception type is required'')
      else ensure_exception_type_list exception_types)"

section \<open>What a check guarantees\<close>

lemma MAX_SLEEP_finite [simp]: "flt_finite MAX_SLEEP_SECONDS"
  by (simp add: MAX_SLEEP_SECONDS_def)

lemma MAX_SLEEP_ok [simp]: "flt_ok MAX_SLEEP_SECONDS"
  by (simp add: MAX_SLEEP_SECONDS_def)

lemma MAX_SLEEP_pos [simp]: "0 < MAX_SLEEP_SECONDS" "0 \<le> MAX_SLEEP_SECONDS"
  by (simp_all add: MAX_SLEEP_SECONDS_def)

lemma MAX_SLEEP_lt_inf: "MAX_SLEEP_SECONDS < fl_inf"
  using MAX_SLEEP_finite unfolding flt_finite_def by linarith

text \<open>A safe delay: a finite number between 0 and the ceiling.\<close>

definition safe_delay :: "flt \<Rightarrow> bool" where
  "safe_delay d \<longleftrightarrow> 0 \<le> d \<and> d \<le> MAX_SLEEP_SECONDS"

lemma safe_delay_finite: "safe_delay d \<Longrightarrow> flt_finite d"
  using MAX_SLEEP_lt_inf by (auto simp: safe_delay_def flt_finite_def)

lemma ensure_finite_float_finite:
  "ensure_finite_float name v = Ok x \<Longrightarrow> flt_finite x"
  by (cases "(name, v)" rule: ensure_finite_float.cases)
    (auto simp: py_float_def dest: fl_of_int_ok split: if_splits option.splits)

lemma ensure_safe_delay_safe: "ensure_safe_delay name v = Ok x \<Longrightarrow> safe_delay x"
  by (auto simp: ensure_safe_delay_def res_bind_Ok_iff safe_delay_def split: if_splits)

lemma ensure_resolved_delay_safe: "ensure_resolved_delay v = Ok x \<Longrightarrow> safe_delay x"
  by (cases v rule: ensure_resolved_delay.cases)
    (auto simp: res_bind_Ok_iff safe_delay_def split: if_splits)

lemma ensure_resolved_delay_id: "safe_delay x \<Longrightarrow> ensure_resolved_delay (VFloat x) = Ok x"
  using safe_delay_finite [of x] by (auto simp: safe_delay_def)

text \<open>\<open>ensure_safe_delay\<close> and \<open>ensure_resolved_delay\<close> accept the same values.\<close>

lemma ensure_resolved_delay_iff:
  "ensure_resolved_delay v = Ok x \<longleftrightarrow> ensure_safe_delay name v = Ok x"
  by (cases v rule: ensure_resolved_delay.cases)
    (auto simp: ensure_safe_delay_def res_bind_Ok_iff)

lemma ensure_positive_int_iff:
  "ensure_positive_int name v = Ok () \<longleftrightarrow> (\<exists>n. v = VInt n \<and> 0 < n)"
  by (cases v) auto

lemma ensure_exception_type_list_iff:
  "ensure_exception_type_list vs = Ok () \<longleftrightarrow>
    (\<forall>v\<in>set vs. \<exists>c. v = VExcType c \<and> issubclass c Exception_t)"
proof (induction vs rule: ensure_exception_type_list.induct)
  case (2 c rest)
  have "issubclass c Exception_t \<Longrightarrow> issubclass c BaseException_t"
    using order_trans [OF _ class_order(1)] by (auto simp: less_eq_exc_type_def)
  with 2 show ?case by auto
qed auto

end
