(* ===== verification/BudgetSlots.thy ===== *)
theory BudgetSlots
  imports Main Validation
begin

text \<open>
  The slot arithmetic of \<open>budget.py\<close>: \<open>_prune\<close>, \<open>_is_legal_slot\<close>, \<open>_available_at\<close>,
  \<open>_first_legal_slot\<close> and \<open>_first_slot_after_window\<close>, as functions of the period \<open>per\<close>, the
  capacity \<open>n\<close> and the sorted list of scheduled sched. The locale \<open>rolling_window\<close> states what
  the slot search needs of the two float boundaries of a window (a Galois connection) and proves
  the combinatorial facts once; it is interpreted on the binary64 operations the code uses.
\<close>

section \<open>The code\<close>

text \<open>\<open>_first_slot_after_window\<close>\<close>

definition first_slot_after_window :: "flt \<Rightarrow> flt \<Rightarrow> flt" where
  "first_slot_after_window per first =
     (let candidate = fl_add first per;
          previous = next_down candidate
      in if first \<le> fl_sub previous per then previous
         else if first \<le> fl_sub candidate per then candidate
         else next_up candidate)"

text \<open>
  The \<open>for\<close> loop of \<open>_first_legal_slot\<close> over the blocks of \<open>n\<close> consecutive sched, from the
  candidate and the flag \<open>changed\<close> to their values after the loop.
\<close>

fun block_scan :: "flt \<Rightarrow> nat \<Rightarrow> flt list \<Rightarrow> nat list \<Rightarrow> flt \<times> bool \<Rightarrow> flt \<times> bool" where
  "block_scan per n sched [] st = st"
| "block_scan per n sched (i # idx) (candidate, changed) =
     (let first = sched ! i;
          last = sched ! (i + n - 1);
          forbidden_start = fl_sub last per
      in if first \<le> forbidden_start then block_scan per n sched idx (candidate, changed)
         else let forbidden_end = first_slot_after_window per first
         in if forbidden_start < candidate \<and> candidate < forbidden_end
            then block_scan per n sched idx (forbidden_end, True)
            else block_scan per n sched idx (candidate, changed))"

text \<open>\<open>range(0, len(scheduled_times) - max_retries + 1)\<close>; the capacity is positive by construction.\<close>

definition block_indices :: "nat \<Rightarrow> flt list \<Rightarrow> nat list" where
  "block_indices n sched = (if n = 0 then [] else [0 ..< length sched + 1 - n])"

text \<open>How many scheduled times may still push the candidate forward.\<close>

definition pushers :: "flt \<Rightarrow> flt \<Rightarrow> flt list \<Rightarrow> nat" where
  "pushers per candidate sched =
     length (filter (\<lambda>s. candidate < first_slot_after_window per s) sched)"

lemma pushers_mono: "c \<le> c' \<Longrightarrow> pushers per c' sched \<le> pushers per c sched"
  unfolding pushers_def by (induction sched) auto

lemma pushers_less:
  assumes "f \<in> set sched" "c < first_slot_after_window per f"
  shows "pushers per (first_slot_after_window per f) sched < pushers per c sched"
  using assms
proof (induction sched)
  case (Cons x xs)
  define a where "a = first_slot_after_window per f"
  have "pushers per a xs \<le> pushers per c xs" using Cons.prems by (intro pushers_mono) (simp add: a_def)
  with Cons show ?case by (auto simp: pushers_def a_def)
qed simp

lemma block_scan_progress:
  assumes "list_all (\<lambda>i. i < length sched) idx"
  shows "case block_scan per n sched idx (c, ch) of (c', ch') \<Rightarrow>
      c \<le> c' \<and> (ch \<longrightarrow> ch') \<and> (ch' \<and> \<not> ch \<longrightarrow> pushers per c' sched < pushers per c sched)"
  using assms
proof (induction idx arbitrary: c ch)
  case (Cons i idx)
  define e where "e = first_slot_after_window per (sched ! i)"
  show ?case
  proof (cases "sched ! i \<le> fl_sub (sched ! (i + n - 1)) per
      \<or> \<not> (fl_sub (sched ! (i + n - 1)) per < c \<and> c < e)")
    case True
    with Cons.IH [of c ch] Cons.prems show ?thesis by (auto simp: Let_def e_def)
  next
    case False
    then have lt: "c < e" by simp
    have less: "pushers per e sched < pushers per c sched"
      unfolding e_def by (rule pushers_less) (use Cons.prems lt in \<open>auto simp: e_def\<close>)
    have step: "block_scan per n sched (i # idx) (c, ch) = block_scan per n sched idx (e, True)"
      using False by (auto simp: Let_def e_def)
    obtain c' ch' where r: "block_scan per n sched idx (e, True) = (c', ch')" by force
    with Cons.IH [of e True] Cons.prems have "e \<le> c'" "ch'" by auto
    moreover have "pushers per c' sched \<le> pushers per e sched" using \<open>e \<le> c'\<close> by (rule pushers_mono)
    ultimately show ?thesis using lt less by (simp only: step r) auto
  qed
qed simp

text \<open>\<open>_first_legal_slot\<close>: rescan until a whole pass leaves the candidate alone.\<close>

function first_legal_slot :: "flt \<Rightarrow> nat \<Rightarrow> flt \<Rightarrow> flt list \<Rightarrow> flt" where
  "first_legal_slot per n candidate sched =
     (case block_scan per n sched (block_indices n sched) (candidate, False) of
        (candidate', changed) \<Rightarrow>
          if changed then first_legal_slot per n candidate' sched else candidate')"
  by pat_completeness auto
termination
proof (relation "measure (\<lambda>(per, n, candidate, sched). pushers per candidate sched)")
  fix per candidate candidate' :: flt and n :: nat and sched :: "flt list" and changed :: bool
  assume scan: "(candidate', changed) = block_scan per n sched (block_indices n sched) (candidate, False)"
    and changed
  have "list_all (\<lambda>i. i < length sched) (block_indices n sched)"
    by (auto simp: list_all_iff block_indices_def)
  from block_scan_progress [OF this, where per = per and n = n and c = candidate and ch = False]
  have "pushers per candidate' sched < pushers per candidate sched"
    using scan \<open>changed\<close> by (auto split: prod.splits)
  then show "((per, n, candidate', sched), per, n, candidate, sched)
      \<in> measure (\<lambda>(per, n, candidate, sched). pushers per candidate sched)"
    by simp
qed simp

declare first_legal_slot.simps [simp del]

text \<open>\<open>_is_legal_slot\<close>\<close>

definition is_legal_slot :: "flt \<Rightarrow> nat \<Rightarrow> flt \<Rightarrow> flt list \<Rightarrow> bool" where
  "is_legal_slot per n candidate sched =
     (let future_start = bisect_right sched candidate;
          future_end = bisect_left sched (fl_add candidate per);
          window_ends = candidate # take (future_end - future_start) (drop future_start sched)
      in list_all (\<lambda>window_end.
           \<not> n \<le> bisect_right sched window_end - bisect_right sched (fl_sub window_end per))
         window_ends)"

text \<open>
  The \<open>while\<close> loop of \<open>_available_at\<close>; \<open>None\<close> if it never ends. \<open>available\<close> counts the
  iterations, \<open>planned\<close> is the copy of the schedule that grows.
\<close>

partial_function (option) available_loop ::
    "flt \<Rightarrow> nat \<Rightarrow> flt \<Rightarrow> flt list \<Rightarrow> nat \<Rightarrow> nat option" where
  "available_loop per n candidate planned available =
     (if is_legal_slot per n candidate planned
      then available_loop per n candidate (insort candidate planned) (Suc available)
      else Some available)"

definition available_at :: "flt \<Rightarrow> nat \<Rightarrow> flt \<Rightarrow> flt list \<Rightarrow> nat option" where
  "available_at per n candidate sched = available_loop per n candidate sched 0"

section \<open>The contract of a window and its two boundaries\<close>

text \<open>
  \<open>left t\<close> is the open left end of the window that ends at \<open>t\<close>; \<open>after f\<close> is the first time
  whose window no longer holds \<open>f\<close>. That they fit together is the law \<open>galois\<close>.
\<close>

locale rolling_window =
  fixes left :: "'t::linorder \<Rightarrow> 't"
    and after :: "'t \<Rightarrow> 't"
    and dom :: "'t \<Rightarrow> bool"
  assumes left_mono: "dom s \<Longrightarrow> dom t \<Longrightarrow> s \<le> t \<Longrightarrow> left s \<le> left t"
    and left_le: "dom t \<Longrightarrow> left t \<le> t"
    and after_dom: "dom t \<Longrightarrow> dom (after t)"
    and galois: "dom f \<Longrightarrow> dom c \<Longrightarrow> f \<le> left c \<longleftrightarrow> after f \<le> c"
begin

definition within :: "nat \<Rightarrow> 't list \<Rightarrow> bool" where
  "within n sched \<longleftrightarrow> (\<forall>t. dom t \<longrightarrow> count_in (left t) t sched \<le> n)"

definition blocks :: "nat \<Rightarrow> 't list \<Rightarrow> 't \<Rightarrow> nat \<Rightarrow> bool" where
  "blocks n sched c i \<longleftrightarrow>
     left (sched ! (i + n - 1)) < sched ! i \<and> left (sched ! (i + n - 1)) < c \<and> c < after (sched ! i)"

lemma after_ge: "dom f \<Longrightarrow> f \<le> after f"
proof -
  assume f: "dom f"
  then have "f \<le> left (after f)" using galois [of f "after f"] after_dom by simp
  then show ?thesis using left_le [OF after_dom [OF f]] by simp
qed

lemma block_overfull:
  assumes ts: "sorted sched" "\<forall>t\<in>set sched. dom t" and c: "dom c"
    and i: "i + n \<le> length sched" "0 < n" and b: "blocks n sched c i"
  shows "\<not> within n (insort c sched)"
proof
  define f l where "f = sched ! i" and "l = sched ! (i + n - 1)"
  assume ok: "within n (insort c sched)"
  have mem: "f \<in> set sched" "l \<in> set sched" using i by (auto simp: f_def l_def)
  then have d: "dom f" "dom l" using ts by auto
  have fl: "left l < f" "left l < c" "c < after f" using b by (auto simp: blocks_def f_def l_def)
  have lf: "left c < f" using galois [of f c] d c fl by (simp add: not_le [symmetric])
  have le_l: "f \<le> l" using ts(1) i by (auto simp: f_def l_def intro: sorted_nth_mono)
  define t where "t = max c l"
  have t: "dom t" "c \<le> t" "l \<le> t" using c d by (auto simp: t_def max_def)
  have left_t: "left t < f \<and> left t < c"
  proof (cases "c \<le> l")
    case True
    with fl show ?thesis by (simp add: t_def max_def)
  next
    case False
    then have "left t = left c" by (simp add: t_def max_def)
    moreover have "left c < c" using lf le_l False by simp
    ultimately show ?thesis using lf by simp
  qed
  have "n \<le> count_in (left t) t sched"
  proof (rule count_in_ge_segment [OF i(1)])
    fix j assume j: "i \<le> j" "j < i + n"
    then have "f \<le> sched ! j" "sched ! j \<le> l"
      using ts(1) i by (auto simp: f_def l_def intro: sorted_nth_mono)
    then show "left t < sched ! j \<and> sched ! j \<le> t" using left_t t by auto
  qed
  then have "n < count_in (left t) t (insort c sched)"
    using left_t t by (simp add: count_in_insort)
  then show False using ok t by (auto simp: within_def not_le [symmetric])
qed

lemma unblocked_within:
  assumes ts: "sorted sched" "\<forall>t\<in>set sched. dom t" and c: "dom c" and n: "0 < n"
    and ok: "within n sched"
    and free: "\<And>i. i + n \<le> length sched \<Longrightarrow> \<not> blocks n sched c i"
  shows "within n (insort c sched)"
  unfolding within_def
proof (intro allI impI, rule ccontr)
  fix t assume t: "dom t" and "\<not> count_in (left t) t (insort c sched) \<le> n"
  moreover have base: "count_in (left t) t sched \<le> n" using ok t by (simp add: within_def)
  ultimately have c_in: "left t < c" "c \<le> t" and full: "count_in (left t) t sched = n"
    by (auto simp: count_in_insort split: if_splits)
  obtain i where i: "i + n \<le> length sched"
    and seg: "\<And>j. i \<le> j \<Longrightarrow> j < i + n \<Longrightarrow> left t < sched ! j \<and> sched ! j \<le> t"
    using count_in_eq_segment [OF ts(1), of "left t" t] full by metis
  define f l where "f = sched ! i" and "l = sched ! (i + n - 1)"
  have f: "left t < f" and l: "l \<le> t" using seg [of i] seg [of "i + n - 1"] n by (auto simp: f_def l_def)
  have d: "dom f" "dom l" using ts(2) i n by (auto simp: f_def l_def)
  have "left l \<le> left t" using left_mono [OF d(2) t l] .
  moreover have "left c \<le> left t" using left_mono [OF c t] c_in by simp
  moreover have "\<not> f \<le> left c" using f \<open>left c \<le> left t\<close> by (meson le_less_trans not_le)
  then have "c < after f" using galois [of f c] d c by (simp add: not_le)
  ultimately have "blocks n sched c i" using f c_in by (auto simp: blocks_def f_def l_def)
  with free i show False by blast
qed

text \<open>A new time keeps the capacity exactly when no block forbids it.\<close>

lemma within_insort_iff:
  assumes "sorted sched" "\<forall>t\<in>set sched. dom t" "dom c" "0 < n" "within n sched"
  shows "within n (insort c sched) \<longleftrightarrow> (\<forall>i. i + n \<le> length sched \<longrightarrow> \<not> blocks n sched c i)"
  using block_overfull [OF assms(1,2,3)] unblocked_within [OF assms] assms(4) by blast

text \<open>A forbidding block forbids every time from the candidate to its end.\<close>

lemma blocks_interval:
  "blocks n sched c i \<Longrightarrow> c \<le> x \<Longrightarrow> x < after (sched ! i) \<Longrightarrow> blocks n sched x i"
  by (auto simp: blocks_def)

text \<open>
  Checking the windows that end at the candidate or at a later time up to \<open>hi\<close> is enough,
  provided no time from \<open>hi\<close> on has a window that still holds the candidate.
\<close>

lemma within_insort_by_ends:
  assumes ts: "sorted sched" "\<forall>t\<in>set sched. dom t" and c: "dom c"
    and ok: "within n sched"
    and ends: "\<And>w. w = c \<or> w \<in> set sched \<and> c < w \<and> w < hi \<Longrightarrow> count_in (left w) w sched < n"
    and far: "\<And>w. w \<in> set sched \<Longrightarrow> hi \<le> w \<Longrightarrow> c \<le> left w"
  shows "within n (insort c sched)"
  unfolding within_def
proof (intro allI impI, rule ccontr)
  fix t assume t: "dom t" and "\<not> count_in (left t) t (insort c sched) \<le> n"
  moreover have "count_in (left t) t sched \<le> n" using ok t by (simp add: within_def)
  ultimately have c_in: "left t < c" "c \<le> t" and full: "count_in (left t) t sched = n"
    by (auto simp: count_in_insort split: if_splits)
  define w where "w = Max (insert c {s \<in> set sched. s \<le> t})"
  have fin: "finite (insert c {s \<in> set sched. s \<le> t})" by simp
  have w_in: "w \<in> insert c {s \<in> set sched. s \<le> t}" unfolding w_def using fin by (rule Max_in) simp
  have w_ge: "c \<le> w" "\<And>s. s \<in> set sched \<Longrightarrow> s \<le> t \<Longrightarrow> s \<le> w"
    unfolding w_def using fin by (auto intro: Max_ge)
  have w_le: "w \<le> t" using w_in c_in by auto
  have dw: "dom w" using w_in ts(2) c by auto
  have lw: "left w \<le> left t" using left_mono [OF dw t w_le] .
  have "count_in (left t) t sched \<le> count_in (left w) w sched"
  proof -
    have "count_in (left t) t sched = count_in (left t) w sched"
      unfolding count_in_def using w_ge(2) w_le by (intro arg_cong [where f = length] filter_cong) auto
    also have "\<dots> \<le> count_in (left w) w sched" using lw by (intro count_in_mono) auto
    finally show ?thesis .
  qed
  moreover have "count_in (left w) w sched < n"
  proof (rule ends, cases "w = c")
    case False
    with w_in have mem: "w \<in> set sched" by auto
    have "\<not> hi \<le> w" using far [OF mem] lw c_in by auto
    then show "w = c \<or> w \<in> set sched \<and> c < w \<and> w < hi" using mem False w_ge by auto
  qed simp
  ultimately show False using full by simp
qed

end

section \<open>The binary64 boundaries satisfy it\<close>

text \<open>A period the constructor accepts.\<close>

definition valid_per :: "flt \<Rightarrow> bool" where
  "valid_per per \<longleftrightarrow> flt_ok per \<and> flt_finite per \<and> 0 < per"

text \<open>A non-negative clock reading or scheduled time, with a valid period.\<close>

definition slot_dom :: "flt \<Rightarrow> flt \<Rightarrow> bool" where
  "slot_dom per t \<longleftrightarrow> flt_ok t \<and> 0 \<le> t \<and> valid_per per"

lemma fl_sub_finite_eq:
  "\<bar>x\<bar> \<noteq> fl_inf \<Longrightarrow> flt_finite p \<Longrightarrow> fl_sub x p = saturate (rnd (x - p) 0)"
  by (auto simp: fl_sub_def fl_add_def flt_finite_def)

lemma next_up_slot:
  assumes f: "flt_ok f" "0 \<le> f" "f \<noteq> fl_inf" and per: "valid_per per"
    and c: "c = fl_add f per"
  shows "f \<le> fl_sub (next_up c) per"
proof -
  have okc: "flt_ok c" using f per by (simp add: c valid_per_def)
  show ?thesis
  proof (cases "next_up c = fl_inf")
    case True
    then show ?thesis using flt_ok_le_inf [OF f(1)] by (simp add: fl_sub_def fl_add_def)
  next
    case False
    then have fin: "c \<noteq> fl_inf" by (auto simp: next_up_def)
    have pf: "\<bar>per\<bar> \<noteq> fl_inf" using per by (auto simp: valid_per_def flt_finite_def)
    have ff: "\<bar>f\<bar> \<noteq> fl_inf" using f by auto
    have c_eq: "c = saturate (rnd (f + per) 0)" using pf ff by (simp add: c fl_add_def)
    have gt: "f + per < next_up c"
    proof (rule ccontr)
      assume "\<not> f + per < next_up c"
      then have "rnd (next_up c) 0 \<le> rnd (f + per) 0" by (intro rnd_mono) simp
      then have "next_up c \<le> rnd (f + per) 0" using okc by (simp add: rnd_id)
      then have "saturate (next_up c) \<le> c" unfolding c_eq by (rule saturate_mono)
      then show False using okc fin next_up_gt [of c] by (simp add: saturate_id)
    qed
    have "\<bar>next_up c\<bar> \<noteq> fl_inf"
      using False gt f per fl_inf_pos by (auto simp: valid_per_def abs_if split: if_splits)
    then have "fl_sub (next_up c) per = saturate (rnd (next_up c - per) 0)"
      using per by (intro fl_sub_finite_eq) (auto simp: valid_per_def)
    moreover have "saturate (rnd f 0) \<le> saturate (rnd (next_up c - per) 0)"
      using gt by (intro saturate_mono rnd_mono) simp
    ultimately show ?thesis using f by (simp add: rnd_id saturate_id)
  qed
qed

lemma prev_prev_slot:
  assumes f: "flt_ok f" "0 \<le> f" "f \<noteq> fl_inf" and per: "valid_per per"
    and c: "c = fl_add f per" and x: "flt_ok x" "x < next_down c"
  shows "fl_sub x per < f"
proof -
  define d where "d = next_down c"
  have pf: "\<bar>per\<bar> \<noteq> fl_inf" using per by (auto simp: valid_per_def flt_finite_def)
  have ff: "\<bar>f\<bar> \<noteq> fl_inf" using f by auto
  have c_eq: "c = saturate (rnd (f + per) 0)" using pf ff by (simp add: c fl_add_def)
  have okc: "flt_ok c" using f per by (simp add: c valid_per_def)
  have cpos: "f \<le> c" unfolding c using f per by (intro fl_add_ge) (auto simp: valid_per_def)
  then have "c \<noteq> - fl_inf" using f fl_inf_pos by linarith
  then have dlt: "d < c" unfolding d_def using okc by (intro next_down_lt)
  have okd: "flt_ok d" using okc by (simp add: d_def)
  have d_le: "d \<le> f + per"
  proof (rule ccontr)
    assume "\<not> d \<le> f + per"
    then have "rnd (f + per) 0 \<le> rnd d 0" by (intro rnd_mono) simp
    then have "c \<le> saturate d" unfolding c_eq using okd by (intro saturate_mono) (simp add: rnd_id)
    then show False using dlt okd by (simp add: saturate_id)
  qed
  have xd: "x < d" using x by (simp add: d_def)
  have sub_le: "fl_sub x per \<le> x"
    using x(1) per by (intro fl_sub_le) (auto simp: valid_per_def)
  show ?thesis
  proof (cases "x < f")
    case True
    with sub_le show ?thesis by simp
  next
    case False
    then have x0: "0 \<le> x" and dpos: "0 < d" using f xd by auto
    define g where "g = (2::int) ^ ulp_exp (d - 1)"
    have pd: "next_down d = d - g" using dpos by (simp add: next_down_pos g_def)
    have x_le: "x \<le> d - g" using next_down_greatest [OF okd x(1) xd] pd by simp
    have g_f: "2 ^ ulp_exp (f - 1) \<le> g"
      unfolding g_def using False xd by (intro power_increasing ulp_exp_mono) auto
    have "x - per \<le> f - 2 ^ ulp_exp (f - 1)" using x_le d_le g_f by simp
    also have "\<dots> \<le> next_down f"
    proof (cases "f = 0")
      case True
      then show ?thesis by (simp add: next_down_0 ulp_exp_small)
    qed (use f in \<open>simp add: next_down_pos\<close>)
    finally have "rnd (x - per) 0 \<le> rnd (next_down f) 0" by (rule rnd_mono)
    then have "saturate (rnd (x - per) 0) \<le> next_down f"
      using saturate_mono [of "rnd (x - per) 0" "next_down f"] f by (simp add: rnd_id saturate_id)
    moreover have "\<bar>x\<bar> \<noteq> fl_inf" using x0 xd flt_ok_le_inf [OF okd] by simp
    ultimately have "fl_sub x per \<le> next_down f"
      using per by (subst fl_sub_finite_eq) (auto simp: valid_per_def)
    also have "next_down f < f"
    proof (rule next_down_lt [OF f(1)])
      show "f \<noteq> - fl_inf" using f(2) fl_inf_pos by linarith
    qed
    finally show ?thesis .
  qed
qed

text \<open>
  The first float whose window excludes \<open>first\<close>: the candidate, one of its two neighbours, and
  never anything further away.
\<close>

lemma first_slot_galois:
  assumes f: "slot_dom per f" and c: "slot_dom per c"
  shows "f \<le> fl_sub c per \<longleftrightarrow> first_slot_after_window per f \<le> c"
proof (cases "f = fl_inf")
  case True
  have per: "valid_per per" using f by (simp add: slot_dom_def)
  have "fl_sub fl_inf per = fl_inf" by (simp add: fl_sub_def fl_add_def)
  moreover have "next_down fl_inf < fl_inf" using fl_inf_pos by (intro next_down_lt) auto
  moreover have "fl_sub x per < fl_inf" if "flt_ok x" "x < fl_inf" for x
    using that fl_sub_le [of x per] per by (fastforce simp: valid_per_def)
  moreover have "fl_add fl_inf per = fl_inf" by (simp add: fl_add_def)
  ultimately have "first_slot_after_window per f = fl_inf"
    using True by (auto simp: first_slot_after_window_def Let_def not_le)
  moreover have "fl_inf \<le> fl_sub c per \<longleftrightarrow> fl_inf \<le> c"
    using c flt_ok_le_inf [of c] \<open>fl_sub fl_inf per = fl_inf\<close>
      \<open>\<And>x. flt_ok x \<Longrightarrow> x < fl_inf \<Longrightarrow> fl_sub x per < fl_inf\<close> [of c]
    by (auto simp: slot_dom_def not_le [symmetric])
  ultimately show ?thesis using True by simp
next
  case False
  have per: "valid_per per" and fo: "flt_ok f" "0 \<le> f" and co: "flt_ok c"
    using f c by (auto simp: slot_dom_def)
  define a d u where "a = fl_add f per" and "d = next_down a" and "u = next_up a"
  have oka: "flt_ok a" "flt_ok d" "flt_ok u"
    using fo per by (auto simp: a_def d_def u_def valid_per_def)
  have mono: "fl_sub x per \<le> fl_sub y per" if "flt_ok x" "flt_ok y" "x \<le> y" for x y
    using that per by (intro fl_sub_mono) (auto simp: valid_per_def)
  have low: "fl_sub x per < f" if "flt_ok x" "x < d" for x
    using prev_prev_slot [OF fo False per a_def] that by (simp add: d_def)
  have up: "f \<le> fl_sub u per" using next_up_slot [OF fo False per a_def] by (simp add: u_def)
  have below: "x \<le> d" if "flt_ok x" "x < a" for x
    unfolding d_def using next_down_greatest [OF oka(1) that(1)] that(2) by simp
  have above: "u \<le> x" if "flt_ok x" "a < x" for x
    unfolding u_def using next_up_least [OF oka(1) that(1)] that(2) by simp
  consider (prev) "f \<le> fl_sub d per" | (here) "\<not> f \<le> fl_sub d per" "f \<le> fl_sub a per"
    | (next1) "\<not> f \<le> fl_sub d per" "\<not> f \<le> fl_sub a per" by blast
  then show ?thesis
  proof cases
    case prev
    then have "first_slot_after_window per f = d"
      by (simp add: first_slot_after_window_def Let_def a_def d_def)
    with prev low [OF co] mono [OF oka(2) co] show ?thesis by force
  next
    case here
    then have "first_slot_after_window per f = a"
      by (simp add: first_slot_after_window_def Let_def a_def d_def)
    with here below [OF co] mono [OF co oka(2)] mono [OF oka(1) co] show ?thesis by force
  next
    case next1
    then have "first_slot_after_window per f = u"
      by (simp add: first_slot_after_window_def Let_def a_def d_def u_def)
    with next1 up above [OF co] mono [OF co oka(1)] mono [OF oka(3) co] show ?thesis by force
  qed
qed

lemma first_slot_dom:
  assumes "slot_dom per f"
  shows "slot_dom per (first_slot_after_window per f)"
proof -
  have per: "valid_per per" and fo: "flt_ok f" "0 \<le> f" using assms by (auto simp: slot_dom_def)
  have ok: "flt_ok (first_slot_after_window per f)"
    using fo per by (auto simp: first_slot_after_window_def Let_def valid_per_def)
  have "0 \<le> first_slot_after_window per f"
  proof (rule ccontr)
    assume neg: "\<not> 0 \<le> first_slot_after_window per f"
    define a where "a = fl_add f per"
    have a: "f \<le> a" "flt_ok a" using fo per by (auto simp: a_def valid_per_def intro: fl_add_ge)
    have "a \<le> next_up a" using next_up_gt [of a] a by (cases "a = fl_inf") (auto simp: next_up_def)
    then have "first_slot_after_window per f = next_down a" "f \<le> fl_sub (next_down a) per"
      using neg a fo by (auto simp: first_slot_after_window_def Let_def a_def split: if_splits)
    moreover have "fl_sub (next_down a) per \<le> next_down a"
      using a per by (intro fl_sub_le) (auto simp: valid_per_def)
    ultimately show False using neg fo by simp
  qed
  with ok per show ?thesis by (simp add: slot_dom_def)
qed

interpretation win: rolling_window
  "\<lambda>t. fl_sub t per" "first_slot_after_window per" "slot_dom per" for per
proof unfold_locales
  fix s t assume "slot_dom per s" "slot_dom per t" "s \<le> t"
  then show "fl_sub s per \<le> fl_sub t per"
    by (intro fl_sub_mono) (auto simp: slot_dom_def valid_per_def)
next
  fix t assume "slot_dom per t"
  then show "fl_sub t per \<le> t" by (intro fl_sub_le) (auto simp: slot_dom_def valid_per_def)
next
  fix t assume "slot_dom per t"
  then show "slot_dom per (first_slot_after_window per t)" by (rule first_slot_dom)
next
  fix f c assume "slot_dom per f" "slot_dom per c"
  then show "f \<le> fl_sub c per \<longleftrightarrow> first_slot_after_window per f \<le> c" by (rule first_slot_galois)
qed

section \<open>Correctness of the slot search\<close>

text \<open>
  The rolling capacity (invariant B1 of \<open>docs/maintainers/retry-budget-invariants.md\<close>): every
  window \<open>(t - per, t]\<close>, with the float subtraction of the code, holds at most \<open>n\<close> times.
\<close>

definition rolling_ok :: "flt \<Rightarrow> nat \<Rightarrow> flt list \<Rightarrow> bool" where
  "rolling_ok per n sched \<longleftrightarrow> (\<forall>t. flt_ok t \<longrightarrow> count_in (fl_sub t per) t sched \<le> n)"

definition slots_ok :: "flt \<Rightarrow> flt list \<Rightarrow> bool" where
  "slots_ok per sched \<longleftrightarrow> (\<forall>t\<in>set sched. slot_dom per t)"

lemma slots_ok_insort [simp]:
  "slots_ok per (insort t sched) \<longleftrightarrow> slot_dom per t \<and> slots_ok per sched"
  by (auto simp: slots_ok_def set_insort_key)

lemma within_rolling:
  assumes "slots_ok per sched" "valid_per per"
  shows "win.within per n sched \<longleftrightarrow> rolling_ok per n sched"
proof -
  have "count_in (fl_sub t per) t sched = 0" if "t < 0" for t
    using assms that by (auto simp: count_in_def filter_empty_conv slots_ok_def slot_dom_def)
  then have "count_in (fl_sub t per) t sched \<le> n" if "\<not> 0 \<le> t" for t using that by simp
  then show ?thesis using assms unfolding win.within_def rolling_ok_def slot_dom_def by blast
qed

lemma rolling_insort_iff:
  assumes "sorted sched" "slots_ok per sched" "slot_dom per c" "0 < n" "rolling_ok per n sched"
  shows "rolling_ok per n (insort c sched) \<longleftrightarrow>
    (\<forall>i. i + n \<le> length sched \<longrightarrow> \<not> win.blocks per n sched c i)"
proof -
  have v: "valid_per per" using assms(3) by (simp add: slot_dom_def)
  have "win.within per n (insort c sched) \<longleftrightarrow>
      (\<forall>i. i + n \<le> length sched \<longrightarrow> \<not> win.blocks per n sched c i)"
    using assms v by (intro win.within_insort_iff) (auto simp: slots_ok_def within_rolling)
  then show ?thesis using assms v by (simp add: within_rolling)
qed

text \<open>
  One pass of the block loop: the candidate only moves forward, over times a block forbids, and
  a pass that leaves it alone has met no block that forbids it.
\<close>

lemma block_scan_spec:
  assumes "list_all (\<lambda>i. i + n \<le> length sched \<and> i < length sched) idx"
    and "slots_ok per sched" "slot_dom per c"
    and "block_scan per n sched idx (c, ch) = (c', ch')"
  shows "slot_dom per c' \<and> c \<le> c' \<and> (ch \<longrightarrow> ch')
    \<and> (\<forall>x. c \<le> x \<and> x < c' \<longrightarrow> (\<exists>i. i + n \<le> length sched \<and> win.blocks per n sched x i))
    \<and> (\<not> ch' \<longrightarrow> c' = c \<and> (\<forall>i\<in>set idx. \<not> win.blocks per n sched c i))"
  using assms
proof (induction idx arbitrary: c ch)
  case (Cons i idx)
  define e where "e = first_slot_after_window per (sched ! i)"
  have mem: "sched ! i \<in> set sched" using Cons.prems(1) by simp
  then have de: "slot_dom per e"
    unfolding e_def using Cons.prems(2) by (intro first_slot_dom) (auto simp: slots_ok_def)
  show ?case
  proof (cases "win.blocks per n sched c i")
    case True
    then have rec: "block_scan per n sched idx (e, True) = (c', ch')"
      using Cons.prems(4) by (auto simp: Let_def e_def win.blocks_def not_le [symmetric])
    have lt: "c < e" using True by (simp add: win.blocks_def e_def)
    have "\<exists>i. i + n \<le> length sched \<and> win.blocks per n sched x i" if "c \<le> x" "x < e" for x
      using True that Cons.prems(1) win.blocks_interval [OF True, of x] by (auto simp: e_def)
    moreover have "slot_dom per c' \<and> e \<le> c' \<and> (True \<longrightarrow> ch')
        \<and> (\<forall>x. e \<le> x \<and> x < c' \<longrightarrow> (\<exists>i. i + n \<le> length sched \<and> win.blocks per n sched x i))
        \<and> (\<not> ch' \<longrightarrow> c' = e \<and> (\<forall>i\<in>set idx. \<not> win.blocks per n sched e i))"
      by (rule Cons.IH [OF _ Cons.prems(2) de rec]) (use Cons.prems(1) in simp)
    ultimately show ?thesis using lt by (metis not_le order.strict_trans1 order.strict_implies_order)
  next
    case False
    then have rec: "block_scan per n sched idx (c, ch) = (c', ch')"
      using Cons.prems(4) by (auto simp: Let_def e_def win.blocks_def not_le split: if_splits)
    with Cons.IH [OF _ Cons.prems(2,3) rec] Cons.prems(1) False show ?thesis by auto
  qed
qed auto

lemma first_legal_slot_spec:
  assumes ts: "sorted sched" "slots_ok per sched" and n: "0 < n" and ok: "rolling_ok per n sched"
  shows "slot_dom per c \<Longrightarrow>
    slot_dom per (first_legal_slot per n c sched) \<and> c \<le> first_legal_slot per n c sched
    \<and> rolling_ok per n (insort (first_legal_slot per n c sched) sched)
    \<and> (\<forall>x. slot_dom per x \<and> c \<le> x \<and> x < first_legal_slot per n c sched \<longrightarrow>
        \<not> rolling_ok per n (insort x sched))"
proof (induction "pushers per c sched" arbitrary: c rule: less_induct)
  case less
  note iff = rolling_insort_iff [OF ts _ n ok]
  obtain c' ch' where scan: "block_scan per n sched (block_indices n sched) (c, False) = (c', ch')"
    by force
  have idx: "list_all (\<lambda>i. i + n \<le> length sched \<and> i < length sched) (block_indices n sched)"
    by (auto simp: block_indices_def list_all_iff)
  note pass = block_scan_spec [OF idx ts(2) less.prems scan]
  have skip: "\<not> rolling_ok per n (insort x sched)" if "slot_dom per x" "c \<le> x" "x < c'" for x
    using pass that iff [of x] by blast
  show ?case
  proof (cases ch')
    case False
    have "i \<in> set (block_indices n sched)" if "i + n \<le> length sched" for i
      using that n by (auto simp: block_indices_def)
    with pass False have "rolling_ok per n (insort c sched)" using iff [OF less.prems] by blast
    moreover have "first_legal_slot per n c sched = c"
      using scan False pass by (subst first_legal_slot.simps) simp
    ultimately show ?thesis using less.prems by auto
  next
    case True
    have eq: "first_legal_slot per n c sched = first_legal_slot per n c' sched"
      using scan True by (subst first_legal_slot.simps) simp
    have "list_all (\<lambda>i. i < length sched) (block_indices n sched)"
      using idx by (auto simp: list_all_iff)
    from block_scan_progress [OF this, of c False per n] scan True
    have "pushers per c' sched < pushers per c sched" by simp
    from less.hyps [OF this] pass have IH: "slot_dom per (first_legal_slot per n c' sched)"
      "c' \<le> first_legal_slot per n c' sched"
      "rolling_ok per n (insort (first_legal_slot per n c' sched) sched)"
      "\<And>x. slot_dom per x \<Longrightarrow> c' \<le> x \<Longrightarrow> x < first_legal_slot per n c' sched \<Longrightarrow>
        \<not> rolling_ok per n (insort x sched)" by auto
    have "\<not> rolling_ok per n (insort x sched)"
      if "slot_dom per x" "c \<le> x" "x < first_legal_slot per n c' sched" for x
      using that skip IH(4) by (cases "x < c'") auto
    with IH pass eq show ?thesis by (auto intro: order_trans)
  qed
qed

section \<open>Correctness of the availability count\<close>

text \<open>
  The window arithmetic is exact at \<open>c\<close>: the first slot after the window of \<open>c\<close> is the float
  \<open>c + per\<close>, and the window of \<open>c\<close> is not empty. Whole seconds satisfy it.
\<close>

definition exact_at :: "flt \<Rightarrow> flt \<Rightarrow> bool" where
  "exact_at per c \<longleftrightarrow> first_slot_after_window per c = fl_add c per \<and> fl_sub c per < c"

lemma first_slot_exact:
  assumes f: "slot_dom per f" and sum: "fl_add f per = f + per" "f + per < fl_inf"
    and sub: "fl_sub (f + per) per = f"
  shows "first_slot_after_window per f = f + per"
proof (rule antisym)
  have per: "valid_per per" and fo: "flt_ok f" "0 \<le> f" using f by (auto simp: slot_dom_def)
  have dom: "slot_dom per (f + per)"
    using sum(1) fo per fl_add_ok [of f per] by (auto simp: slot_dom_def valid_per_def)
  show "first_slot_after_window per f \<le> f + per"
    using first_slot_galois [OF f dom] sub by simp
  have fin: "f \<noteq> fl_inf" using sum(2) per by (auto simp: valid_per_def)
  define d where "d = next_down (f + per)"
  have pos: "0 < f + per" using fo per by (auto simp: valid_per_def)
  have dd: "d = f + per - 2 ^ ulp_exp (f + per - 1)" using pos by (simp add: d_def next_down_pos)
  have okd: "flt_ok d" unfolding d_def using dom by (intro next_down_ok) (simp add: slot_dom_def)
  have "fl_sub d per < f"
  proof (cases "d < f")
    case True
    moreover have "fl_sub d per \<le> d" using okd per by (intro fl_sub_le) (auto simp: valid_per_def)
    ultimately show ?thesis by simp
  next
    case False
    have "f - 1 \<le> f + per - 1" using per by (simp add: valid_per_def)
    then have "(2::int) ^ ulp_exp (f - 1) \<le> 2 ^ ulp_exp (f + per - 1)"
      by (intro power_increasing ulp_exp_mono) auto
    then have "d - per \<le> f - 2 ^ ulp_exp (f - 1)" using dd by simp
    also have "\<dots> \<le> next_down f"
    proof (cases "f = 0")
      case True
      then show ?thesis by (simp add: next_down_0 ulp_exp_small)
    qed (use fo in \<open>simp add: next_down_pos\<close>)
    finally have le: "rnd (d - per) 0 \<le> rnd (next_down f) 0" by (rule rnd_mono)
    have "saturate (rnd (d - per) 0) \<le> next_down f"
      using saturate_mono [OF le] fo by (simp add: rnd_id saturate_id)
    moreover have "\<bar>d\<bar> \<noteq> fl_inf"
    proof -
      have "(0::int) < 2 ^ ulp_exp (f + per - 1)" by simp
      then have "d < fl_inf" using dd sum(2) by linarith
      then show ?thesis using False fo by simp
    qed
    ultimately have "fl_sub d per \<le> next_down f"
      using per by (subst fl_sub_finite_eq) (auto simp: valid_per_def)
    also have "next_down f < f"
    proof (rule next_down_lt [OF fo(1)])
      show "f \<noteq> - fl_inf" using fo(2) fl_inf_pos by linarith
    qed
    finally show ?thesis .
  qed
  then have "first_slot_after_window per f \<noteq> d"
    using first_slot_galois [OF f, of d] first_slot_dom [OF f] by (auto simp: slot_dom_def)
  then have "fl_add f per \<le> first_slot_after_window per f"
    using sum sub fo per
    by (auto simp: first_slot_after_window_def Let_def d_def valid_per_def split: if_splits)
  then show "f + per \<le> first_slot_after_window per f" by (simp add: sum)
qed

lemma exact_at_sec:
  assumes "0 \<le> t" "t < 2 ^ 40" "0 < p" "p < 2 ^ 40"
  shows "exact_at (sec p) (sec t)"
proof -
  have plus: "sec t + sec p = sec (t + p)" by (simp add: sec_def distrib_right)
  have dom: "slot_dom (sec p) (sec t)" using assms by (simp add: slot_dom_def valid_per_def)
  have "first_slot_after_window (sec p) (sec t) = sec t + sec p"
  proof (rule first_slot_exact [OF dom])
    have "\<bar>sec (t + p)\<bar> < fl_inf" using assms by (intro sec_lt_inf) simp
    then show "sec t + sec p < fl_inf" unfolding plus by linarith
  qed (use assms in \<open>simp_all add: plus\<close>)
  then show ?thesis using assms by (simp add: exact_at_def plus)
qed

lemma first_slot_after_window_sec:
  assumes "0 \<le> t" "t < 2 ^ 40" "0 < p" "p < 2 ^ 40"
  shows "first_slot_after_window (sec p) (sec t) = sec (t + p)"
  using exact_at_sec [OF assms] assms by (simp add: exact_at_def)

lemma is_legal_slot_alt:
  assumes "sorted sched"
  shows "is_legal_slot per n c sched \<longleftrightarrow>
    (\<forall>w. w = c \<or> w \<in> set sched \<and> c < w \<and> w < fl_add c per \<longrightarrow>
      count_in (fl_sub w per) w sched < n)"
proof -
  define a b where "a = bisect_right sched c" and "b = bisect_left sched (fl_add c per)"
  have mid: "set (take (b - a) (drop a sched)) = {w \<in> set sched. c < w \<and> w < fl_add c per}"
  proof -
    have "w \<in> set (take (b - a) (drop a sched)) \<longleftrightarrow> w \<in> set sched \<and> c < w \<and> w < fl_add c per" for w
      using assms unfolding a_def b_def
    proof (induction sched)
      case Nil
      then show ?case by simp
    next
      case (Cons x xs)
      have ge: "\<forall>y\<in>set xs. x \<le> y" and sx: "sorted xs" using Cons.prems by auto
      have IH: "w \<in> set (take (bisect_left xs (fl_add c per) - bisect_right xs c)
          (drop (bisect_right xs c) xs)) \<longleftrightarrow> w \<in> set xs \<and> c < w \<and> w < fl_add c per"
        by (rule Cons.IH [OF sx])
      show ?case
      proof (cases "x \<le> c")
        case True
        show ?thesis
        proof (cases "x < fl_add c per")
          case True
          with IH \<open>x \<le> c\<close> show ?thesis by (auto simp: bisect_right_def bisect_left_def)
        next
          case False
          then show ?thesis using \<open>x \<le> c\<close> ge by (force simp: bisect_right_def bisect_left_def)
        qed
      next
        case False
        then have z: "bisect_right (x # xs) c = 0" "bisect_right xs c = 0"
          using ge by (cases xs; force simp: bisect_right_def)+
        show ?thesis
        proof (cases "x < fl_add c per")
          case True
          with IH False z show ?thesis by (auto simp: bisect_left_def)
        next
          case f2: False
          then show ?thesis using ge z by (force simp: bisect_left_def)
        qed
      qed
    qed
    then show ?thesis by blast
  qed
  show ?thesis
    unfolding is_legal_slot_def Let_def a_def [symmetric] b_def [symmetric] list_all_iff
    by (auto simp: mid bisect_right_diff [OF assms] not_le)
qed

text \<open>Where the arithmetic is exact, the fast check agrees with the definition of capacity.\<close>

lemma is_legal_slot_iff:
  assumes ts: "sorted sched" "slots_ok per sched" and c: "slot_dom per c" and n: "0 < n"
    and ok: "rolling_ok per n sched" and ex: "exact_at per c"
  shows "is_legal_slot per n c sched \<longleftrightarrow> rolling_ok per n (insort c sched)"
proof
  have v: "valid_per per" using c by (simp add: slot_dom_def)
  have after: "w < fl_add c per \<longleftrightarrow> fl_sub w per < c" if "w \<in> set sched" for w
    using first_slot_galois [OF c, of w] ts(2) that ex by (auto simp: slots_ok_def exact_at_def)
  {
    assume legal: "is_legal_slot per n c sched"
    have "win.within per n (insort c sched)"
    proof (rule win.within_insort_by_ends [where hi = "fl_add c per"])
      show "win.within per n sched" using ok ts v by (simp add: within_rolling)
      show "count_in (fl_sub w per) w sched < n"
        if "w = c \<or> w \<in> set sched \<and> c < w \<and> w < fl_add c per" for w
        using legal that unfolding is_legal_slot_alt [OF ts(1)] by blast
    qed (use ts c after in \<open>auto simp: slots_ok_def not_less [symmetric]\<close>)
    then show "rolling_ok per n (insort c sched)" using ts c v by (simp add: within_rolling)
  }
  assume full: "rolling_ok per n (insort c sched)"
  have "count_in (fl_sub w per) w sched < n"
    if "w = c \<or> w \<in> set sched \<and> c < w \<and> w < fl_add c per" for w
  proof -
    have "fl_sub w per < c \<and> c \<le> w" using that after ex by (auto simp: exact_at_def)
    moreover have "flt_ok w" using that c ts(2) by (auto simp: slots_ok_def slot_dom_def)
    then have "count_in (fl_sub w per) w (insort c sched) \<le> n" using full by (simp add: rolling_ok_def)
    ultimately show ?thesis by (simp add: count_in_insort)
  qed
  then show "is_legal_slot per n c sched" by (simp add: is_legal_slot_alt [OF ts(1)])
qed

text \<open>Adding \<open>m\<close> reservations at \<open>c\<close>.\<close>

definition with_copies :: "nat \<Rightarrow> flt \<Rightarrow> flt list \<Rightarrow> flt list" where
  "with_copies m c sched = ((insort c) ^^ m) sched"

lemma with_copies_Suc: "with_copies (Suc m) c sched = with_copies m c (insort c sched)"
  by (simp only: with_copies_def funpow_Suc_right o_apply)

lemma with_copies_0 [simp]: "with_copies 0 c sched = sched"
  by (simp add: with_copies_def)

text \<open>
  The counting loop ends, and it counts exactly the reservations that still fit at \<open>c\<close>.
\<close>

lemma available_loop_spec:
  assumes c: "slot_dom per c" and n: "0 < n" and ex: "exact_at per c"
  shows "sorted planned \<Longrightarrow> slots_ok per planned \<Longrightarrow> rolling_ok per n planned \<Longrightarrow>
    \<exists>m. available_loop per n c planned k = Some (k + m)
      \<and> rolling_ok per n (with_copies m c planned) \<and> \<not> rolling_ok per n (with_copies (Suc m) c planned)"
proof (induction "n - count_in (fl_sub c per) c planned" arbitrary: planned k rule: less_induct)
  case less
  note iff = is_legal_slot_iff [OF less.prems(1,2) c n less.prems(3) ex]
  show ?case
  proof (cases "is_legal_slot per n c planned")
    case False
    then have "available_loop per n c planned k = Some (k + 0)"
      by (subst available_loop.simps) simp
    moreover have "\<not> rolling_ok per n (with_copies (Suc 0) c planned)"
      using False iff by (simp add: with_copies_def)
    ultimately show ?thesis using less.prems(3) with_copies_0 by metis
  next
    case True
    have ok: "rolling_ok per n (insort c planned)" using True iff by simp
    have step: "available_loop per n c planned k = available_loop per n c (insort c planned) (Suc k)"
      using True by (subst available_loop.simps) simp
    have "count_in (fl_sub c per) c planned < n"
      using True by (simp add: is_legal_slot_alt [OF less.prems(1)])
    moreover have "count_in (fl_sub c per) c (insort c planned) = Suc (count_in (fl_sub c per) c planned)"
      using ex by (simp add: count_in_insort exact_at_def)
    ultimately have "n - count_in (fl_sub c per) c (insort c planned)
        < n - count_in (fl_sub c per) c planned" by simp
    from less.hyps [OF this, of "Suc k"] less.prems ok c obtain m where
      "available_loop per n c (insort c planned) (Suc k) = Some (Suc k + m)"
      "rolling_ok per n (with_copies m c (insort c planned))"
      "\<not> rolling_ok per n (with_copies (Suc m) c (insort c planned))"
      by (auto simp: sorted_insort)
    then have "available_loop per n c planned k = Some (k + Suc m)
        \<and> rolling_ok per n (with_copies (Suc m) c planned)
        \<and> \<not> rolling_ok per n (with_copies (Suc (Suc m)) c planned)"
      by (simp add: step with_copies_Suc)
    then show ?thesis by blast
  qed
qed

text \<open>A period below half a unit in the last place of \<open>c\<close> vanishes, and the loop never ends.\<close>

lemma vanishing_period_legal:
  assumes "0 < n" "fl_sub c per = c" "fl_add c per = c" "sorted planned"
  shows "is_legal_slot per n c planned"
  using assms by (auto simp: is_legal_slot_alt count_in_def)

lemma available_loop_diverges:
  assumes n: "0 < n" and van: "fl_sub c per = c" "fl_add c per = c"
  shows "sorted planned \<Longrightarrow> available_loop per n c planned k = None"
proof (rule ccontr)
  assume "sorted planned" "available_loop per n c planned k \<noteq> None"
  then obtain r where "available_loop per n c planned k = Some r" by blast
  then have "n = n \<and> c = c \<and> per = per \<and> sorted planned \<longrightarrow> False"
  proof (rule available_loop.raw_induct [where P = "\<lambda>per' n' c' planned k r.
      n' = n \<and> c' = c \<and> per' = per \<and> sorted planned \<longrightarrow> False", rotated])
    fix f per' n' c' pl k' r'
    assume IH: "\<And>per' n' c' planned k r. f per' n' c' planned k = Some r \<Longrightarrow>
        n' = n \<and> c' = c \<and> per' = per \<and> sorted planned \<longrightarrow> False"
      and eq: "(if is_legal_slot per' n' c' pl then f per' n' c' (insort c' pl) (Suc k') else Some k')
        = Some r'"
    show "n' = n \<and> c' = c \<and> per' = per \<and> sorted pl \<longrightarrow> False"
    proof
      assume h: "n' = n \<and> c' = c \<and> per' = per \<and> sorted pl"
      then have "f per' n' c' (insort c' pl) (Suc k') = Some r'"
        using eq vanishing_period_legal [OF n van, of pl] by simp
      from IH [OF this] h show False by (simp add: sorted_insort)
    qed
  qed
  with \<open>sorted planned\<close> show False by simp
qed

end
