(* ===== verification/Budget.thy ===== *)
theory Budget
  imports Main BudgetSlots
begin

text \<open>
  The \<open>RetryBudget\<close> object of \<open>budget.py\<close>: its state, its operations \<open>_reserve\<close>, \<open>_release\<close>,
  \<open>snapshot\<close> and \<open>cleanup\<close> as state transformers (each is one critical section of the code's
  lock, so one atomic step), and its invariant over any sequence of operations at non-decreasing
  clock readings. A call to \<open>_monotonic()\<close> is an argument \<open>current\<close>.
\<close>

section \<open>State\<close>

record reservation =
  rs_token :: nat
  rs_key :: string
  rs_scheduled_at :: flt

record retry_budget =
  bg_max_retries :: nat
  bg_per :: flt
  bg_reservations :: "string \<rightharpoonup> reservation list"
  bg_next_token :: nat
  bg_op_count :: nat

record budget_snapshot =
  sn_key :: string
  sn_capacity :: nat
  sn_per :: flt
  sn_active :: nat
  sn_available :: nat
  sn_queued :: nat
  sn_next_available_in :: flt

definition available_now :: "budget_snapshot \<Rightarrow> nat" where
  "available_now s = sn_available s"

section \<open>Operations\<close>

definition CLEANUP_INTERVAL :: nat where
  "CLEANUP_INTERVAL = 100"

text \<open>\<open>__init__\<close>\<close>

definition budget_init :: "pyval \<Rightarrow> pyval \<Rightarrow> retry_budget res" where
  "budget_init max_retries per =
     res_bind (ensure_positive_int ''max_retries'' max_retries) (\<lambda>_.
     res_bind (ensure_positive ''per'' per) (\<lambda>_.
     res_bind (ensure_finite_float ''per'' per) (\<lambda>per_float.
       case max_retries of
         VInt n \<Rightarrow> Ok \<lparr>bg_max_retries = nat n, bg_per = per_float, bg_reservations = Map.empty,
                       bg_next_token = 1, bg_op_count = 0\<rparr>
       | _ \<Rightarrow> Raise (config_error ''max_retries must be a positive integer''))))"

text \<open>\<open>not key.strip()\<close>; strings are sequences of the first 256 characters.\<close>

definition is_space :: "char \<Rightarrow> bool" where
  "is_space c \<longleftrightarrow> (let n = of_char c :: nat
     in 9 \<le> n \<and> n \<le> 13 \<or> 28 \<le> n \<and> n \<le> 32 \<or> n = 133 \<or> n = 160)"

definition blank :: "string \<Rightarrow> bool" where
  "blank s \<longleftrightarrow> list_all is_space s"

fun validate_key :: "pyval \<Rightarrow> string res" where
  "validate_key (VStr key) =
     (if blank key then Raise (config_error ''retry budget key must be a non-empty string'')
      else Ok key)"
| "validate_key _ = Raise (config_error ''retry budget key must be a non-empty string'')"

text \<open>\<open>_prune\<close>\<close>

definition prune :: "flt \<Rightarrow> reservation list \<Rightarrow> flt \<Rightarrow> reservation list" where
  "prune per reservations candidate =
     (let boundary = fl_sub candidate per
      in filter (\<lambda>r. boundary < rs_scheduled_at r) reservations)"

text \<open>\<open>_cleanup_expired_keys\<close>\<close>

definition cleanup_expired_keys :: "retry_budget \<Rightarrow> flt \<Rightarrow> retry_budget" where
  "cleanup_expired_keys b current =
     (let boundary = fl_sub current (bg_per b)
      in b\<lparr>bg_reservations := (\<lambda>key.
           case bg_reservations b key of
             None \<Rightarrow> None
           | Some reservations \<Rightarrow>
               if reservations = [] \<or> list_all (\<lambda>r. rs_scheduled_at r \<le> boundary) reservations
               then None else Some reservations)\<rparr>)"

text \<open>\<open>_maybe_cleanup\<close>\<close>

definition maybe_cleanup :: "retry_budget \<Rightarrow> flt \<Rightarrow> retry_budget" where
  "maybe_cleanup b current =
     (let b1 = b\<lparr>bg_op_count := bg_op_count b + 1\<rparr>
      in if CLEANUP_INTERVAL \<le> bg_op_count b1
         then cleanup_expired_keys (b1\<lparr>bg_op_count := 0\<rparr>) current
         else b1)"

definition scheduled_times :: "reservation list \<Rightarrow> flt list" where
  "scheduled_times reservations = sort (map rs_scheduled_at reservations)"

text \<open>\<open>_reserve\<close>\<close>

definition reserve :: "retry_budget \<Rightarrow> pyval \<Rightarrow> flt \<Rightarrow> flt \<Rightarrow> reservation res \<times> retry_budget" where
  "reserve b key_value current not_before =
     (case validate_key key_value of
        Raise e \<Rightarrow> (Raise e, b)
      | Ok key \<Rightarrow>
          let candidate = max current not_before;
              b1 = maybe_cleanup b current;
              reservations = (case bg_reservations b1 key of None \<Rightarrow> [] | Some rs \<Rightarrow> rs);
              pruned = prune (bg_per b1) reservations current;
              slot = first_legal_slot (bg_per b1) (bg_max_retries b1) candidate
                       (scheduled_times pruned);
              r = \<lparr>rs_token = bg_next_token b1, rs_key = key, rs_scheduled_at = slot\<rparr>
          in (Ok r, b1\<lparr>bg_next_token := bg_next_token b1 + 1,
                       bg_reservations := (bg_reservations b1)(key \<mapsto> pruned @ [r])\<rparr>))"

text \<open>The \<open>for\<close> loop of \<open>_release\<close>: delete the first reservation with the token.\<close>

fun remove_token :: "nat \<Rightarrow> reservation list \<Rightarrow> reservation list" where
  "remove_token tok [] = []"
| "remove_token tok (r # rs) = (if rs_token r = tok then rs else r # remove_token tok rs)"

text \<open>\<open>_release\<close>\<close>

definition release :: "retry_budget \<Rightarrow> reservation \<Rightarrow> flt \<Rightarrow> retry_budget" where
  "release b reservation current =
     (let b1 = maybe_cleanup b current
      in case bg_reservations b1 (rs_key reservation) of
           None \<Rightarrow> b1
         | Some [] \<Rightarrow> b1
         | Some (r # rs) \<Rightarrow>
             let rest = remove_token (rs_token reservation) (r # rs)
             in if rest = []
                then b1\<lparr>bg_reservations := (bg_reservations b1)(rs_key reservation := None)\<rparr>
                else b1\<lparr>bg_reservations := (bg_reservations b1)(rs_key reservation \<mapsto> rest)\<rparr>)"

text \<open>\<open>cleanup\<close>\<close>

definition cleanup :: "retry_budget \<Rightarrow> flt \<Rightarrow> retry_budget" where
  "cleanup b current = cleanup_expired_keys b current"

text \<open>\<open>snapshot\<close>; the outer \<open>None\<close> says that the call does not return.\<close>

definition snapshot ::
    "retry_budget \<Rightarrow> pyval \<Rightarrow> flt \<Rightarrow> (budget_snapshot res \<times> retry_budget) option" where
  "snapshot b key_value current =
     (case validate_key key_value of
        Raise e \<Rightarrow> Some (Raise e, b)
      | Ok key \<Rightarrow>
          let b1 = maybe_cleanup b current
          in case bg_reservations b1 key of
               None \<Rightarrow>
                 Some (Ok \<lparr>sn_key = key, sn_capacity = bg_max_retries b1, sn_per = bg_per b1,
                           sn_active = 0, sn_available = bg_max_retries b1, sn_queued = 0,
                           sn_next_available_in = 0\<rparr>, b1)
             | Some reservations \<Rightarrow>
                 let pruned = prune (bg_per b1) reservations current;
                     b2 = b1\<lparr>bg_reservations := (bg_reservations b1)(key \<mapsto> pruned)\<rparr>;
                     sched = scheduled_times pruned;
                     active = length (filter (\<lambda>s. fl_sub current (bg_per b1) < s \<and> s \<le> current) sched);
                     queued = length (filter (\<lambda>s. current < s) sched);
                     next_available = first_legal_slot (bg_per b1) (bg_max_retries b1) current sched
                 in case available_at (bg_per b1) (bg_max_retries b1) current sched of
                      None \<Rightarrow> None
                    | Some available \<Rightarrow>
                        Some (Ok \<lparr>sn_key = key, sn_capacity = bg_max_retries b1, sn_per = bg_per b1,
                                  sn_active = active, sn_available = available, sn_queued = queued,
                                  sn_next_available_in = max 0 (fl_sub next_available current)\<rparr>, b2))"

section \<open>Reading the schedule\<close>

text \<open>The live reservations of a key, and those a reservation at \<open>current\<close> would see.\<close>

definition live :: "retry_budget \<Rightarrow> string \<Rightarrow> reservation list" where
  "live b key = (case bg_reservations b key of None \<Rightarrow> [] | Some rs \<Rightarrow> rs)"

definition visible :: "retry_budget \<Rightarrow> string \<Rightarrow> flt \<Rightarrow> flt list" where
  "visible b key current = scheduled_times (prune (bg_per b) (live b key) current)"

lemma maybe_cleanup_config [simp]:
  "bg_max_retries (maybe_cleanup b t) = bg_max_retries b"
  "bg_per (maybe_cleanup b t) = bg_per b"
  "bg_next_token (maybe_cleanup b t) = bg_next_token b"
  by (simp_all add: maybe_cleanup_def cleanup_expired_keys_def Let_def)

lemma cleanup_expired_keys_config [simp]:
  "bg_max_retries (cleanup_expired_keys b t) = bg_max_retries b"
  "bg_per (cleanup_expired_keys b t) = bg_per b"
  "bg_next_token (cleanup_expired_keys b t) = bg_next_token b"
  by (simp_all add: cleanup_expired_keys_def Let_def)

text \<open>Cleaning a key away loses only what pruning would drop.\<close>

lemma live_cleanup_expired:
  "live (cleanup_expired_keys b t) key = live b key
   \<or> live (cleanup_expired_keys b t) key = [] \<and> prune (bg_per b) (live b key) t = []"
  by (auto simp: live_def cleanup_expired_keys_def prune_def Let_def list_all_iff not_less
      split: option.splits)

lemma live_maybe_cleanup:
  "live (maybe_cleanup b t) key = live b key
   \<or> live (maybe_cleanup b t) key = [] \<and> prune (bg_per b) (live b key) t = []"
  using live_cleanup_expired [of "b\<lparr>bg_op_count := 0\<rparr>" t key]
  by (auto simp: maybe_cleanup_def Let_def live_def)

lemma prune_maybe_cleanup [simp]:
  "prune (bg_per b) (live (maybe_cleanup b t) key) t = prune (bg_per b) (live b key) t"
  using live_maybe_cleanup [of b t key] by (auto simp: prune_def)

lemma prune_cleanup_expired [simp]:
  "prune (bg_per b) (live (cleanup_expired_keys b t) key) t = prune (bg_per b) (live b key) t"
  using live_cleanup_expired [of b t key] by (auto simp: prune_def)

lemma set_live_maybe_cleanup: "set (live (maybe_cleanup b t) key) \<subseteq> set (live b key)"
  using live_maybe_cleanup [of b t key] by auto

lemma sorted_scheduled_times [simp]: "sorted (scheduled_times rs)"
  by (simp add: scheduled_times_def)

lemma count_in_scheduled_times:
  "count_in lo hi (scheduled_times rs) = count_in lo hi (map rs_scheduled_at rs)"
  by (simp add: scheduled_times_def count_in_sort)

text \<open>The reservation \<open>reserve\<close> makes, and the state it leaves.\<close>

lemma reserve_eq:
  fixes b :: retry_budget and cur nb :: flt
  assumes "validate_key kv = Ok key"
  defines "slot \<equiv> first_legal_slot (bg_per b) (bg_max_retries b) (max cur nb) (visible b key cur)"
  shows "reserve b kv cur nb =
    (Ok \<lparr>rs_token = bg_next_token b, rs_key = key, rs_scheduled_at = slot\<rparr>,
     (maybe_cleanup b cur)\<lparr>bg_next_token := bg_next_token b + 1,
       bg_reservations := (bg_reservations (maybe_cleanup b cur))(key \<mapsto>
         prune (bg_per b) (live b key) cur
           @ [\<lparr>rs_token = bg_next_token b, rs_key = key, rs_scheduled_at = slot\<rparr>])\<rparr>)"
  using assms prune_maybe_cleanup [of b cur key]
  by (auto simp: reserve_def slot_def visible_def live_def Let_def)

lemma live_reserve:
  assumes "reserve b kv cur nb = (Ok r, b')"
  shows "live b' (rs_key r) = prune (bg_per b) (live b (rs_key r)) cur @ [r]"
    and "key \<noteq> rs_key r \<Longrightarrow> live b' key = live (maybe_cleanup b cur) key"
    and "bg_next_token b' = bg_next_token b + 1"
    and "bg_per b' = bg_per b" and "bg_max_retries b' = bg_max_retries b"
    and "rs_token r = bg_next_token b"
    and "rs_scheduled_at r = first_legal_slot (bg_per b) (bg_max_retries b) (max cur nb)
           (visible b (rs_key r) cur)"
proof -
  obtain k where "validate_key kv = Ok k"
    using assms by (cases "validate_key kv") (auto simp: reserve_def)
  from reserve_eq [OF this, of b cur nb] assms
  show "live b' (rs_key r) = prune (bg_per b) (live b (rs_key r)) cur @ [r]"
    and "key \<noteq> rs_key r \<Longrightarrow> live b' key = live (maybe_cleanup b cur) key"
    and "bg_next_token b' = bg_next_token b + 1"
    and "bg_per b' = bg_per b" and "bg_max_retries b' = bg_max_retries b"
    and "rs_token r = bg_next_token b"
    and "rs_scheduled_at r = first_legal_slot (bg_per b) (bg_max_retries b) (max cur nb)
           (visible b (rs_key r) cur)"
    by (auto simp: live_def)
qed

lemma remove_token_filter:
  "distinct (map rs_token rs) \<Longrightarrow> remove_token tok rs = filter (\<lambda>r. rs_token r \<noteq> tok) rs"
proof (induction rs)
  case (Cons r rs)
  then have "filter (\<lambda>x. rs_token x \<noteq> rs_token r) rs = rs" by (auto simp: filter_id_conv) (metis image_eqI)
  with Cons show ?case by auto
qed simp

lemma live_release:
  "live (release b r cur) key =
     (if key = rs_key r then remove_token (rs_token r) (live (maybe_cleanup b cur) key)
      else live (maybe_cleanup b cur) key)"
  by (auto simp: release_def live_def Let_def split: option.splits list.splits)

lemma release_config [simp]:
  "bg_max_retries (release b r t) = bg_max_retries b"
  "bg_per (release b r t) = bg_per b"
  "bg_next_token (release b r t) = bg_next_token b"
  by (auto simp: release_def Let_def split: option.splits list.splits)

lemma snapshot_state:
  assumes "snapshot b kv cur = Some (res, b')"
  shows "b' = b \<or> b' = maybe_cleanup b cur
    \<or> (\<exists>k. b' = (maybe_cleanup b cur)\<lparr>bg_reservations := (bg_reservations (maybe_cleanup b cur))
          (k \<mapsto> prune (bg_per b) (live (maybe_cleanup b cur) k) cur)\<rparr>)"
proof (cases "validate_key kv")
  case (Raise e)
  with assms show ?thesis by (simp add: snapshot_def)
next
  case (Ok k)
  show ?thesis
  proof (cases "bg_reservations (maybe_cleanup b cur) k")
    case None
    with assms Ok show ?thesis by (simp add: snapshot_def Let_def)
  next
    case (Some rs)
    with assms Ok have "b' = (maybe_cleanup b cur)\<lparr>bg_reservations :=
        (bg_reservations (maybe_cleanup b cur))(k \<mapsto> prune (bg_per b) rs cur)\<rparr>"
      by (simp add: snapshot_def Let_def split: option.splits)
    moreover have "live (maybe_cleanup b cur) k = rs" using Some by (simp add: live_def)
    ultimately show ?thesis by blast
  qed
qed

lemma snapshot_config:
  assumes "snapshot b kv cur = Some (res, b')"
  shows "bg_next_token b' = bg_next_token b" "bg_per b' = bg_per b"
    "bg_max_retries b' = bg_max_retries b"
  using snapshot_state [OF assms] by auto

lemma live_snapshot:
  assumes "snapshot b kv cur = Some (res, b')"
  shows "live b' key = live b key \<or> live b' key = live (maybe_cleanup b cur) key
      \<or> live b' key = prune (bg_per b) (live b key) cur"
proof -
  from snapshot_state [OF assms] consider "b' = b" | "b' = maybe_cleanup b cur"
    | k where "b' = (maybe_cleanup b cur)\<lparr>bg_reservations := (bg_reservations (maybe_cleanup b cur))
          (k \<mapsto> prune (bg_per b) (live (maybe_cleanup b cur) k) cur)\<rparr>" by blast
  then show ?thesis
  proof cases
    case 3
    then have "live b' key = (if key = k then prune (bg_per b) (live (maybe_cleanup b cur) key) cur
        else live (maybe_cleanup b cur) key)" by (auto simp: live_def)
    then show ?thesis by simp
  qed simp_all
qed

section \<open>Runs and their invariant\<close>

text \<open>
  \<open>budget_run b log t\<close>: some sequence of operations, at non-decreasing clock readings up to \<open>t\<close>,
  takes a new budget to \<open>b\<close>; \<open>log\<close> holds every reservation granted and not released, whether the
  budget still stores it or has pruned it.
\<close>

inductive budget_run :: "retry_budget \<Rightarrow> reservation list \<Rightarrow> flt \<Rightarrow> bool" where
  run_init: "budget_init m p = Ok b \<Longrightarrow> flt_ok (bg_per b) \<Longrightarrow> flt_ok t \<Longrightarrow> 0 \<le> t \<Longrightarrow> budget_run b [] t"
| run_reserve: "budget_run b log t \<Longrightarrow> t \<le> cur \<Longrightarrow> flt_ok cur \<Longrightarrow> flt_ok nb \<Longrightarrow>
     reserve b kv cur nb = (Ok r, b') \<Longrightarrow> budget_run b' (r # log) cur"
| run_reserve_error: "budget_run b log t \<Longrightarrow> t \<le> cur \<Longrightarrow> flt_ok cur \<Longrightarrow>
     reserve b kv cur nb = (Raise e, b') \<Longrightarrow> budget_run b' log cur"
| run_release: "budget_run b log t \<Longrightarrow> t \<le> cur \<Longrightarrow> flt_ok cur \<Longrightarrow>
     budget_run (release b r cur)
       (filter (\<lambda>x. \<not> (rs_key x = rs_key r \<and> rs_token x = rs_token r)) log) cur"
| run_cleanup: "budget_run b log t \<Longrightarrow> t \<le> cur \<Longrightarrow> flt_ok cur \<Longrightarrow> budget_run (cleanup b cur) log cur"
| run_snapshot: "budget_run b log t \<Longrightarrow> t \<le> cur \<Longrightarrow> flt_ok cur \<Longrightarrow>
     snapshot b kv cur = Some (res, b') \<Longrightarrow> budget_run b' log cur"

definition key_log :: "string \<Rightarrow> reservation list \<Rightarrow> reservation list" where
  "key_log key log = filter (\<lambda>r. rs_key r = key) log"

text \<open>
  The invariant: a valid configuration; tokens issued so far are distinct and below the next one;
  the whole log of a key keeps the rolling capacity; the stored reservations of a key are among
  its log and include every one that a window ending at \<open>t\<close> or later can still see.
\<close>

definition budget_inv :: "retry_budget \<Rightarrow> reservation list \<Rightarrow> flt \<Rightarrow> bool" where
  "budget_inv b log t \<longleftrightarrow>
     0 < bg_max_retries b \<and> valid_per (bg_per b) \<and> flt_ok t \<and> 0 \<le> t
     \<and> distinct (map rs_token log) \<and> (\<forall>r\<in>set log. rs_token r < bg_next_token b)
     \<and> (\<forall>r\<in>set log. slot_dom (bg_per b) (rs_scheduled_at r))
     \<and> (\<forall>key. rolling_ok (bg_per b) (bg_max_retries b) (map rs_scheduled_at (key_log key log)))
     \<and> (\<forall>key. distinct (map rs_token (live b key)) \<and> set (live b key) \<subseteq> set (key_log key log)
          \<and> (\<forall>r\<in>set (key_log key log).
               fl_sub t (bg_per b) < rs_scheduled_at r \<longrightarrow> r \<in> set (live b key)))"

lemma budget_invD:
  assumes "budget_inv b log t"
  shows "0 < bg_max_retries b" and "valid_per (bg_per b)" and "flt_ok t" and "0 \<le> t"
    and "distinct (map rs_token log)"
    and "\<And>r. r \<in> set log \<Longrightarrow> rs_token r < bg_next_token b"
    and "\<And>r. r \<in> set log \<Longrightarrow> slot_dom (bg_per b) (rs_scheduled_at r)"
    and "\<And>key. rolling_ok (bg_per b) (bg_max_retries b) (map rs_scheduled_at (key_log key log))"
    and "\<And>key. distinct (map rs_token (live b key))"
    and "\<And>key. set (live b key) \<subseteq> set (key_log key log)"
    and "\<And>key r. r \<in> set (key_log key log) \<Longrightarrow> fl_sub t (bg_per b) < rs_scheduled_at r \<Longrightarrow>
      r \<in> set (live b key)"
  using assms unfolding budget_inv_def by blast+

lemma key_log_subset: "set (key_log key log) \<subseteq> set log"
  by (auto simp: key_log_def)

lemma count_in_map_card:
  assumes "distinct xs"
  shows "count_in lo hi (map f xs) = card {x \<in> set xs. lo < f x \<and> f x \<le> hi}"
proof -
  have "count_in lo hi (map f xs) = length (filter (\<lambda>x. lo < f x \<and> f x \<le> hi) xs)"
    by (induction xs) (auto simp: count_in_Cons)
  also have "\<dots> = card (set (filter (\<lambda>x. lo < f x \<and> f x \<le> hi) xs))"
    using assms by (simp only: distinct_card distinct_filter)
  finally show ?thesis by simp
qed

lemma count_in_map_mono:
  assumes "distinct xs" "distinct ys"
    and "\<And>x. x \<in> set xs \<Longrightarrow> lo < f x \<Longrightarrow> f x \<le> hi \<Longrightarrow> x \<in> set ys"
  shows "count_in lo hi (map f xs) \<le> count_in lo hi (map f ys)"
  unfolding count_in_map_card [OF assms(1)] count_in_map_card [OF assms(2)]
  by (rule card_mono) (use assms(3) in auto)

lemma rolling_ok_subset:
  assumes "rolling_ok per n (map f ys)" "distinct xs" "distinct ys" "set xs \<subseteq> set ys"
  shows "rolling_ok per n (map f xs)"
  using assms count_in_map_mono [of xs ys] unfolding rolling_ok_def by (meson order_trans subsetD)

lemma distinct_of_tokens: "distinct (map rs_token rs) \<Longrightarrow> distinct rs"
  by (simp add: distinct_map)

lemma distinct_key_log: "distinct (map rs_token log) \<Longrightarrow> distinct (map rs_token (key_log key log))"
  by (simp add: key_log_def distinct_map_filter)

text \<open>What the slot search sees is a well-formed schedule within capacity.\<close>

lemma visible_ok:
  assumes inv: "budget_inv b log t"
  shows "slots_ok (bg_per b) (visible b key cur)"
    and "rolling_ok (bg_per b) (bg_max_retries b) (visible b key cur)"
proof -
  note D = budget_invD [OF inv]
  define pr where "pr = prune (bg_per b) (live b key) cur"
  have sub: "set pr \<subseteq> set (key_log key log)"
    using D(10) [of key] by (auto simp: pr_def prune_def)
  then show "slots_ok (bg_per b) (visible b key cur)"
    using D(7) key_log_subset [of key log]
    by (auto simp: slots_ok_def visible_def scheduled_times_def pr_def [symmetric])
  have "distinct pr"
    using distinct_of_tokens [OF D(9) [of key]] by (simp add: pr_def prune_def Let_def)
  then have "rolling_ok (bg_per b) (bg_max_retries b) (map rs_scheduled_at pr)"
    by (rule rolling_ok_subset [OF D(8) [of key] _ distinct_of_tokens [OF distinct_key_log [OF D(5)]] sub])
  then show "rolling_ok (bg_per b) (bg_max_retries b) (visible b key cur)"
    by (simp add: rolling_ok_def visible_def count_in_scheduled_times pr_def)
qed

lemma reserve_slot:
  fixes b :: retry_budget
  assumes inv: "budget_inv b log t" and cur: "flt_ok cur" "0 \<le> cur" and nb: "flt_ok nb"
    and r: "reserve b kv cur nb = (Ok r, b')"
  defines "n \<equiv> bg_max_retries b" and "sched \<equiv> visible b (rs_key r) cur"
  shows "slot_dom (bg_per b) (rs_scheduled_at r)" and "max cur nb \<le> rs_scheduled_at r"
    and "rolling_ok (bg_per b) n (insort (rs_scheduled_at r) sched)"
    and "\<And>x. flt_ok x \<Longrightarrow> max cur nb \<le> x \<Longrightarrow> x < rs_scheduled_at r \<Longrightarrow>
      \<not> rolling_ok (bg_per b) n (insort x sched)"
proof -
  have dom: "slot_dom (bg_per b) (max cur nb)"
    using budget_invD(2) [OF inv] cur nb by (auto simp: slot_dom_def max_def)
  have n: "0 < n" using budget_invD(1) [OF inv] by (simp add: n_def)
  have slot: "rs_scheduled_at r = first_legal_slot (bg_per b) n (max cur nb) sched"
    using live_reserve(7) [OF r] by (simp add: n_def sched_def)
  have "sorted sched" by (simp add: sched_def visible_def)
  from first_legal_slot_spec [OF this _ n _ dom] visible_ok [OF inv, of "rs_key r" cur] slot
  have spec: "slot_dom (bg_per b) (rs_scheduled_at r)" "max cur nb \<le> rs_scheduled_at r"
    "rolling_ok (bg_per b) n (insort (rs_scheduled_at r) sched)"
    "\<And>x. slot_dom (bg_per b) x \<Longrightarrow> max cur nb \<le> x \<Longrightarrow> x < rs_scheduled_at r \<Longrightarrow>
      \<not> rolling_ok (bg_per b) n (insort x sched)"
    by (auto simp: n_def sched_def)
  show "slot_dom (bg_per b) (rs_scheduled_at r)" "max cur nb \<le> rs_scheduled_at r"
    "rolling_ok (bg_per b) n (insort (rs_scheduled_at r) sched)"
    using spec by auto
  fix x assume "flt_ok x" "max cur nb \<le> x" "x < rs_scheduled_at r"
  then show "\<not> rolling_ok (bg_per b) n (insort x sched)"
    using spec(4) [of x] dom cur by (auto simp: slot_dom_def)
qed

text \<open>
  Changes that only forget stored reservations no later window can see keep the invariant.
\<close>

lemma budget_inv_forget:
  assumes inv: "budget_inv b log t" and "t \<le> cur" "flt_ok cur"
    and cfg: "bg_max_retries b' = bg_max_retries b" "bg_per b' = bg_per b"
      "bg_next_token b' = bg_next_token b"
    and keep: "\<And>key. live b' key = live b key
      \<or> live b' key = [] \<and> prune (bg_per b) (live b key) cur = []
      \<or> live b' key = prune (bg_per b) (live b key) cur"
  shows "budget_inv b' log cur"
proof -
  note D = budget_invD [OF inv]
  have left: "fl_sub t (bg_per b) \<le> fl_sub cur (bg_per b)"
    using D(2,3) assms(2,3) by (intro fl_sub_mono) (auto simp: valid_per_def)
  have "distinct (map rs_token (live b' key)) \<and> set (live b' key) \<subseteq> set (key_log key log)
      \<and> (\<forall>r\<in>set (key_log key log). fl_sub cur (bg_per b) < rs_scheduled_at r \<longrightarrow> r \<in> set (live b' key))"
    for key
  proof -
    have seen: "r \<in> set (live b key)"
      if "r \<in> set (key_log key log)" "fl_sub cur (bg_per b) < rs_scheduled_at r" for r
      using D(11) [OF that(1)] that(2) left by simp
    have dist: "distinct (map rs_token (prune (bg_per b) (live b key) cur))"
      using D(9) [of key] by (simp add: prune_def Let_def distinct_map_filter)
    have mem: "r \<in> set (prune (bg_per b) (live b key) cur) \<longleftrightarrow>
        r \<in> set (live b key) \<and> fl_sub cur (bg_per b) < rs_scheduled_at r" for r
      by (auto simp: prune_def)
    from keep [of key] show ?thesis
    proof (elim disjE conjE)
      assume "live b' key = live b key"
      then show ?thesis using D(9) [of key] D(10) [of key] seen by simp
    next
      assume "live b' key = []" "prune (bg_per b) (live b key) cur = []"
      then show ?thesis using seen mem by fastforce
    next
      assume "live b' key = prune (bg_per b) (live b key) cur"
      then show ?thesis using D(10) [of key] dist seen mem by auto
    qed
  qed
  then show ?thesis
    unfolding budget_inv_def cfg using D(1-8) assms(2,3) by (auto intro: order_trans)
qed

lemma budget_inv_later: "budget_inv b log t \<Longrightarrow> t \<le> cur \<Longrightarrow> flt_ok cur \<Longrightarrow> budget_inv b log cur"
  by (rule budget_inv_forget) auto

lemma budget_inv_maybe_cleanup:
  "budget_inv b log t \<Longrightarrow> t \<le> cur \<Longrightarrow> flt_ok cur \<Longrightarrow> budget_inv (maybe_cleanup b cur) log cur"
  by (rule budget_inv_forget) (use live_maybe_cleanup in auto)

lemma budget_inv_cleanup:
  "budget_inv b log t \<Longrightarrow> t \<le> cur \<Longrightarrow> flt_ok cur \<Longrightarrow> budget_inv (cleanup b cur) log cur"
  unfolding cleanup_def by (rule budget_inv_forget) (use live_cleanup_expired in auto)

lemma budget_inv_snapshot:
  assumes "budget_inv b log t" "t \<le> cur" "flt_ok cur" "snapshot b kv cur = Some (res, b')"
  shows "budget_inv b' log cur"
proof (rule budget_inv_forget [OF assms(1-3)])
  show "live b' key = live b key \<or> live b' key = [] \<and> prune (bg_per b) (live b key) cur = []
      \<or> live b' key = prune (bg_per b) (live b key) cur" for key
    using live_snapshot [OF assms(4), of key] live_maybe_cleanup [of b cur key] by auto
qed (use snapshot_config [OF assms(4)] in auto)

text \<open>
  A new reservation: a window that holds it ends at \<open>cur\<close> or later, so all it can see of the log
  was visible to the slot search.
\<close>

lemma reserve_log_within:
  assumes inv: "budget_inv b log t" and cur: "t \<le> cur" "flt_ok cur" and nb: "flt_ok nb"
    and r: "reserve b kv cur nb = (Ok r, b')"
  shows "rolling_ok (bg_per b) (bg_max_retries b)
    (map rs_scheduled_at (r # key_log (rs_key r) log))"
  unfolding rolling_ok_def
proof (intro allI impI)
  fix w assume w: "flt_ok w"
  define per n s L where "per = bg_per b" and "n = bg_max_retries b" and "s = rs_scheduled_at r"
    and "L = key_log (rs_key r) log"
  note D = budget_invD [OF inv]
  have c0: "0 \<le> cur" using D(4) cur by simp
  note slot = reserve_slot [OF inv cur(2) c0 nb r]
  have old: "count_in (fl_sub w per) w (map rs_scheduled_at L) \<le> n"
    using D(8) [of "rs_key r"] w by (simp add: rolling_ok_def per_def n_def L_def)
  show "count_in (fl_sub w per) w (map rs_scheduled_at (r # L)) \<le> n"
  proof (cases "fl_sub w per < s \<and> s \<le> w")
    case False
    then show ?thesis using old by (auto simp: count_in_Cons s_def)
  next
    case True
    have "cur \<le> w" using True slot(2) by (simp add: s_def)
    then have left: "fl_sub cur per \<le> fl_sub w per"
      using D(2) w cur(2) by (intro fl_sub_mono) (auto simp: valid_per_def per_def)
    have left_t: "fl_sub t per \<le> fl_sub cur per"
      using D(2,3) cur by (intro fl_sub_mono) (auto simp: valid_per_def per_def)
    define pr where "pr = prune per (live b (rs_key r)) cur"
    have "count_in (fl_sub w per) w (map rs_scheduled_at L)
        \<le> count_in (fl_sub w per) w (map rs_scheduled_at pr)"
    proof (rule count_in_map_mono)
      show "distinct L" unfolding L_def by (rule distinct_of_tokens [OF distinct_key_log [OF D(5)]])
      show "distinct pr"
        using distinct_of_tokens [OF D(9) [of "rs_key r"]] by (simp add: pr_def prune_def Let_def)
      fix x assume x: "x \<in> set L" "fl_sub w per < rs_scheduled_at x"
      then have "x \<in> set (live b (rs_key r))"
        using D(11) [of x "rs_key r"] left left_t by (simp add: L_def per_def)
      then show "x \<in> set pr" using x(2) left by (simp add: pr_def prune_def Let_def)
    qed
    also have "\<dots> + 1 = count_in (fl_sub w per) w (insort s (visible b (rs_key r) cur))"
      using True by (simp add: count_in_insort visible_def count_in_scheduled_times pr_def per_def)
    also have "\<dots> \<le> n" using slot(3) w by (simp add: rolling_ok_def s_def n_def per_def)
    finally show ?thesis using True by (simp add: count_in_Cons s_def)
  qed
qed

lemma budget_inv_reserve:
  assumes inv: "budget_inv b log t" and cur: "t \<le> cur" "flt_ok cur" and nb: "flt_ok nb"
    and r: "reserve b kv cur nb = (Ok r, b')"
  shows "budget_inv b' (r # log) cur"
proof -
  note C = budget_invD [OF budget_inv_maybe_cleanup [OF inv cur]]
  note D = budget_invD [OF inv]
  note R = live_reserve [OF r]
  have c0: "0 \<le> cur" using D(4) cur by simp
  note slot = reserve_slot [OF inv cur(2) c0 nb r]
  have fresh: "rs_token r \<notin> rs_token ` set log" using D(6) R(6) by fastforce
  have pr_log: "set (prune (bg_per b) (live b (rs_key r)) cur) \<subseteq> set (key_log (rs_key r) log)"
    using D(10) [of "rs_key r"] by (auto simp: prune_def)
  have keylog: "key_log key (r # log) = (if key = rs_key r then r # key_log key log else key_log key log)"
    for key by (auto simp: key_log_def)
  have store: "distinct (map rs_token (live b' key)) \<and> set (live b' key) \<subseteq> set (key_log key (r # log))
      \<and> (\<forall>x\<in>set (key_log key (r # log)). fl_sub cur (bg_per b) < rs_scheduled_at x \<longrightarrow> x \<in> set (live b' key))"
    for key
  proof (cases "key = rs_key r")
    case False
    then show ?thesis using C(9) [of key] C(10) [of key] C(11) [of _ key] R(2) [OF False] keylog
      by simp
  next
    case True
    have "x \<in> set (live b (rs_key r))"
      if "x \<in> set (key_log (rs_key r) log)" "fl_sub cur (bg_per b) < rs_scheduled_at x" for x
    proof (rule D(11) [OF that(1)])
      have "fl_sub t (bg_per b) \<le> fl_sub cur (bg_per b)"
        using D(2,3) cur by (intro fl_sub_mono) (auto simp: valid_per_def)
      with that(2) show "fl_sub t (bg_per b) < rs_scheduled_at x" by simp
    qed
    moreover have "distinct (map rs_token (prune (bg_per b) (live b (rs_key r)) cur))"
      using D(9) [of "rs_key r"] by (simp add: prune_def Let_def distinct_map_filter)
    moreover have "rs_token r \<notin> rs_token ` set (prune (bg_per b) (live b (rs_key r)) cur)"
      using fresh pr_log key_log_subset [of "rs_key r" log] by blast
    ultimately show ?thesis using True R(1) pr_log by (auto simp: keylog prune_def Let_def)
  qed
  have rolling: "rolling_ok (bg_per b) (bg_max_retries b) (map rs_scheduled_at (key_log key (r # log)))"
    for key
    using reserve_log_within [OF inv cur nb r] D(8) [of key] by (cases "key = rs_key r") (simp_all add: keylog)
  have tokens: "distinct (map rs_token (r # log))" "\<forall>x\<in>set (r # log). rs_token x < bg_next_token b'"
    using fresh D(5) less_SucI [OF D(6)] R(3,6) by auto
  have slots: "\<forall>x\<in>set (r # log). slot_dom (bg_per b) (rs_scheduled_at x)"
    using D(7) slot(1) by simp
  show ?thesis
    unfolding budget_inv_def R(4,5)
    by (intro conjI D(1,2) cur(2) c0 tokens slots allI rolling)
      (use store in blast)+
qed

lemma budget_inv_release:
  fixes r :: reservation
  assumes inv: "budget_inv b log t" and cur: "t \<le> cur" "flt_ok cur"
  defines "P \<equiv> \<lambda>x. \<not> (rs_key x = rs_key r \<and> rs_token x = rs_token r)"
  shows "budget_inv (release b r cur) (filter P log) cur"
proof -
  note C = budget_invD [OF budget_inv_maybe_cleanup [OF inv cur]]
  have keylog: "key_log key (filter P log) = filter P (key_log key log)" for key
    by (simp add: key_log_def conj_commute)
  have live_eq: "live (release b r cur) key = filter P (live (maybe_cleanup b cur) key)" for key
  proof (cases "key = rs_key r")
    case True
    have "filter P (live (maybe_cleanup b cur) key)
        = filter (\<lambda>x. rs_token x \<noteq> rs_token r) (live (maybe_cleanup b cur) key)"
      using C(10) [of key] True by (intro filter_cong) (auto simp: P_def key_log_def)
    then show ?thesis using True remove_token_filter [OF C(9) [of key]] by (simp add: live_release)
  next
    case False
    then have "filter P (live (maybe_cleanup b cur) key) = live (maybe_cleanup b cur) key"
      using C(10) [of key] by (intro filter_True) (auto simp: P_def key_log_def)
    with False show ?thesis by (simp add: live_release)
  qed
  have store: "distinct (map rs_token (live (release b r cur) key))
      \<and> set (live (release b r cur) key) \<subseteq> set (key_log key (filter P log))
      \<and> (\<forall>x\<in>set (key_log key (filter P log)). fl_sub cur (bg_per b) < rs_scheduled_at x \<longrightarrow>
          x \<in> set (live (release b r cur) key))" for key
    using C(9) [of key] C(10) [of key] C(11) [of _ key]
    by (auto simp: live_eq keylog distinct_map_filter)
  have rolling: "rolling_ok (bg_per b) (bg_max_retries b)
      (map rs_scheduled_at (key_log key (filter P log)))" for key
    by (rule rolling_ok_subset [OF C(8) [of key, simplified]])
      (use distinct_of_tokens [OF distinct_key_log [OF C(5)], of key] in \<open>auto simp: keylog\<close>)
  show ?thesis
    unfolding budget_inv_def using C(1-7) store rolling by (auto simp: distinct_map_filter)
qed

lemma budget_init_fields:
  assumes "budget_init m p = Ok b"
  shows "0 < bg_max_retries b" "flt_finite (bg_per b)" "0 < bg_per b"
    "bg_reservations b = Map.empty" "bg_next_token b = 1"
proof -
  obtain x n where x: "ensure_finite_float ''per'' p = Ok x" "0 < x" "m = VInt n" "0 < n"
    and b: "b = \<lparr>bg_max_retries = nat n, bg_per = x, bg_reservations = Map.empty,
      bg_next_token = 1, bg_op_count = 0\<rparr>"
    using assms by (auto simp: budget_init_def res_bind_Ok_iff ensure_positive_def
        split: if_splits pyval.splits)
  show "0 < bg_max_retries b" "flt_finite (bg_per b)" "0 < bg_per b"
    "bg_reservations b = Map.empty" "bg_next_token b = 1"
    using x ensure_finite_float_finite [OF x(1)] by (simp_all add: b)
qed

lemma budget_init_inv:
  assumes "budget_init m p = Ok b" "flt_ok (bg_per b)" "flt_ok t" "0 \<le> t"
  shows "budget_inv b [] t"
  using budget_init_fields [OF assms(1)] assms(2-4)
  by (simp add: budget_inv_def valid_per_def rolling_ok_def live_def key_log_def)

lemma reserve_error_state: "reserve b kv cur nb = (Raise e, b') \<Longrightarrow> b' = b"
  by (auto simp: reserve_def Let_def split: res.splits)

lemma budget_run_inv: "budget_run b log t \<Longrightarrow> budget_inv b log t"
proof (induction rule: budget_run.induct)
  case (run_init m p b t)
  then show ?case by (rule budget_init_inv)
next
  case (run_reserve b log t cur nb kv r b')
  show ?case by (rule budget_inv_reserve [OF run_reserve.IH run_reserve.hyps(2-5)])
next
  case (run_reserve_error b log t cur kv nb e b')
  show ?case
    using budget_inv_later [OF run_reserve_error.IH run_reserve_error.hyps(2,3)]
      reserve_error_state [OF run_reserve_error.hyps(4)] by simp
next
  case (run_release b log t cur r)
  show ?case by (rule budget_inv_release [OF run_release.IH run_release.hyps(2,3)])
next
  case (run_cleanup b log t cur)
  show ?case by (rule budget_inv_cleanup [OF run_cleanup.IH run_cleanup.hyps(2,3)])
next
  case (run_snapshot b log t cur kv res b')
  show ?case by (rule budget_inv_snapshot [OF run_snapshot.IH run_snapshot.hyps(2-4)])
qed


section \<open>Properties\<close>

text \<open>
  C1 (invariant B1): over any sequence of operations, the reservations granted for a key and not
  released, including those the budget has pruned or cleaned away, never put more than
  \<open>max_retries\<close> of them in one window \<open>(w - per, w]\<close>.
\<close>

theorem rolling_capacity:
  assumes "budget_run b log t"
  shows "rolling_ok (bg_per b) (bg_max_retries b) (map rs_scheduled_at (key_log key log))"
  by (rule budget_invD(8) [OF budget_run_inv [OF assms]])

text \<open>
  C2 (invariant B2): a reservation is granted at the smallest float, no earlier than the clock and
  \<open>not_before\<close>, that keeps the rolling capacity of the schedule the operation sees; every earlier
  float from there on would overfill a window.
\<close>

theorem reserve_earliest:
  assumes "budget_run b log t" "t \<le> cur" "flt_ok cur" "flt_ok nb"
    and "reserve b kv cur nb = (Ok r, b')"
  shows "max cur nb \<le> rs_scheduled_at r
    \<and> rolling_ok (bg_per b) (bg_max_retries b) (insort (rs_scheduled_at r) (visible b (rs_key r) cur))
    \<and> (\<forall>x. flt_ok x \<and> max cur nb \<le> x \<and> x < rs_scheduled_at r \<longrightarrow>
        \<not> rolling_ok (bg_per b) (bg_max_retries b) (insort x (visible b (rs_key r) cur)))"
proof -
  note inv = budget_run_inv [OF assms(1)]
  have "0 \<le> cur" using budget_invD(4) [OF inv] assms(2) by simp
  from reserve_slot [OF inv assms(3) this assms(4,5)] show ?thesis by blast
qed

text \<open>What operations at \<open>cur\<close> see of a key.\<close>

definition seen :: "retry_budget \<Rightarrow> string \<Rightarrow> flt \<Rightarrow> reservation list" where
  "seen b key cur = prune (bg_per b) (live b key) cur"

lemma seen_release:
  assumes inv: "budget_inv b log t" and cur: "t \<le> cur" "flt_ok cur"
  shows "seen (release b r cur) key cur =
    filter (\<lambda>x. \<not> (key = rs_key r \<and> rs_token x = rs_token r)) (seen b key cur)"
proof -
  note C = budget_invD [OF budget_inv_maybe_cleanup [OF inv cur]]
  have "live (release b r cur) key =
      filter (\<lambda>x. \<not> (key = rs_key r \<and> rs_token x = rs_token r)) (live (maybe_cleanup b cur) key)"
    by (cases "key = rs_key r") (simp_all add: live_release remove_token_filter [OF C(9)])
  then have "seen (release b r cur) key cur =
      filter (\<lambda>x. \<not> (key = rs_key r \<and> rs_token x = rs_token r))
        (prune (bg_per b) (live (maybe_cleanup b cur) key) cur)"
    by (auto simp: seen_def prune_def Let_def conj_commute)
  then show ?thesis by (simp add: seen_def)
qed

text \<open>
  C3 (invariant B4): releasing removes exactly that reservation from what later operations see,
  and releasing it again changes nothing.
\<close>

theorem release_idempotent:
  assumes "budget_run b log t" "t \<le> cur" "flt_ok cur"
  shows "seen (release b r cur) key cur
      = filter (\<lambda>x. \<not> (key = rs_key r \<and> rs_token x = rs_token r)) (seen b key cur)
    \<and> seen (release (release b r cur) r cur) key cur = seen (release b r cur) key cur"
proof -
  note inv = budget_run_inv [OF assms(1)]
  show ?thesis
    using seen_release [OF inv assms(2,3)]
      seen_release [OF budget_inv_release [OF inv assms(2,3)] order_refl assms(3)]
    by simp
qed

text \<open>
  C4 (invariant B5): a reservation on one key leaves the schedule that any later operation on
  another key sees exactly as it was, clean-up included.
\<close>

theorem reserve_other_keys:
  assumes "budget_run b log t" "t \<le> cur" "flt_ok cur"
    and r: "reserve b kv cur nb = (Ok r, b')" and "key \<noteq> rs_key r"
    and later: "cur \<le> later" "flt_ok later"
  shows "visible b' key later = visible b key later"
proof -
  note D = budget_invD [OF budget_run_inv [OF assms(1)]]
  have left: "fl_sub cur (bg_per b) \<le> fl_sub later (bg_per b)"
    using D(2) assms(3) later by (intro fl_sub_mono) (auto simp: valid_per_def)
  have "live b' key = live (maybe_cleanup b cur) key" using live_reserve(2) [OF r assms(5)] .
  then have "live b' key = live b key
      \<or> live b' key = [] \<and> prune (bg_per b) (live b key) cur = []"
    using live_maybe_cleanup [of b cur key] by simp
  moreover have "prune (bg_per b) (live b key) later = []"
    if "prune (bg_per b) (live b key) cur = []"
    using that left by (fastforce simp: prune_def filter_empty_conv)
  ultimately show ?thesis
    using live_reserve(4) [OF r] by (auto simp: visible_def prune_def)
qed

text \<open>
  Calls of one budget, with the readings they use, and the reservations they are granted; the outer \<open>None\<close> says
  that a snapshot does not return.
\<close>

datatype budget_call =
    CallReserve pyval flt flt
  | CallRelease reservation flt
  | CallCleanup flt
  | CallSnapshot pyval flt

fun call_reading :: "budget_call \<Rightarrow> flt" where
  "call_reading (CallReserve kv c nb) = c"
| "call_reading (CallRelease r c) = c"
| "call_reading (CallCleanup c) = c"
| "call_reading (CallSnapshot kv c) = c"

fun is_cleanup_call :: "budget_call \<Rightarrow> bool" where
  "is_cleanup_call (CallCleanup c) = True"
| "is_cleanup_call _ = False"

fun grants :: "retry_budget \<Rightarrow> budget_call list \<Rightarrow> reservation res list option" where
  "grants b [] = Some []"
| "grants b (CallReserve kv c nb # calls) =
     (case reserve b kv c nb of (r, b') \<Rightarrow> map_option (\<lambda>rs. r # rs) (grants b' calls))"
| "grants b (CallRelease r c # calls) = grants (release b r c) calls"
| "grants b (CallCleanup c # calls) = grants (cleanup b c) calls"
| "grants b (CallSnapshot kv c # calls) =
     (case snapshot b kv c of None \<Rightarrow> None | Some (sn, b') \<Rightarrow> grants b' calls)"

text \<open>\<open>b'\<close> is \<open>b\<close> without some of the keys that only have reservations which have expired at \<open>c\<close>.\<close>

definition swept_key :: "flt \<Rightarrow> flt \<Rightarrow> reservation list option \<Rightarrow> reservation list option \<Rightarrow> bool" where
  "swept_key per c m' m \<longleftrightarrow> m' = m \<or> m' = None \<and> (\<forall>rs. m = Some rs \<longrightarrow> prune per rs c = [])"

definition swept :: "flt \<Rightarrow> retry_budget \<Rightarrow> retry_budget \<Rightarrow> bool" where
  "swept c b' b \<longleftrightarrow> bg_max_retries b' = bg_max_retries b \<and> bg_per b' = bg_per b
     \<and> bg_next_token b' = bg_next_token b \<and> bg_op_count b' = bg_op_count b
     \<and> (\<forall>key. swept_key (bg_per b) c (bg_reservations b' key) (bg_reservations b key))"

lemma swept_keyI [simp, intro]: "swept_key per c m m" "swept_key per c None None"
  by (simp_all add: swept_key_def)

lemma sweptD:
  assumes "swept c b' b"
  shows "bg_max_retries b' = bg_max_retries b" "bg_per b' = bg_per b"
    "bg_next_token b' = bg_next_token b" "bg_op_count b' = bg_op_count b"
    "swept_key (bg_per b) c (bg_reservations b' key) (bg_reservations b key)"
  using assms by (simp_all add: swept_def)

lemma swept_refl: "swept c b b"
  by (simp add: swept_def)

lemma prune_empty_iff: "prune per rs c = [] \<longleftrightarrow> (\<forall>r\<in>set rs. rs_scheduled_at r \<le> fl_sub c per)"
  by (auto simp: prune_def filter_empty_conv not_less)

lemma swept_later:
  assumes "swept c b' b" "c \<le> d" "flt_ok c" "flt_ok d" "valid_per (bg_per b)"
  shows "swept d b' b"
proof -
  have "fl_sub c (bg_per b) \<le> fl_sub d (bg_per b)"
    using assms(2-5) by (intro fl_sub_mono) (auto simp: valid_per_def)
  then have "swept_key (bg_per b) c m' m \<Longrightarrow> swept_key (bg_per b) d m' m" for m' m
    by (auto simp: swept_key_def prune_empty_iff intro: order_trans)
  with assms(1) show ?thesis by (simp add: swept_def)
qed

text \<open>What clean-up does to one key.\<close>

lemma reservations_cleanup_expired:
  "bg_reservations (cleanup_expired_keys b c) key
     = (case bg_reservations b key of None \<Rightarrow> None
        | Some rs \<Rightarrow> if prune (bg_per b) rs c = [] then None else Some rs)"
  by (auto simp: cleanup_expired_keys_def Let_def prune_empty_iff list_all_iff split: option.splits)

lemma op_count_cleanup_expired [simp]: "bg_op_count (cleanup_expired_keys b c) = bg_op_count b"
  by (simp add: cleanup_expired_keys_def Let_def)

lemma swept_expired:
  assumes "swept c b' b"
  shows "swept c (cleanup_expired_keys b' c) b"
proof -
  have "swept_key (bg_per b) c (bg_reservations (cleanup_expired_keys b' c) key) (bg_reservations b key)" for key
    using sweptD(5) [OF assms, of key] sweptD(2) [OF assms]
    by (auto simp: reservations_cleanup_expired swept_key_def split: option.splits)
  with sweptD(1-4) [OF assms] show ?thesis by (simp add: swept_def)
qed

lemma swept_both:
  assumes "swept c b' b"
  shows "swept c (cleanup_expired_keys b' c) (cleanup_expired_keys b c)"
proof -
  have "bg_reservations (cleanup_expired_keys b' c) key = bg_reservations (cleanup_expired_keys b c) key" for key
    using sweptD(5) [OF assms, of key] sweptD(2) [OF assms]
    by (cases "bg_reservations b key") (auto simp: reservations_cleanup_expired swept_key_def)
  with sweptD(1-4) [OF assms] show ?thesis by (simp add: swept_def)
qed

lemma swept_maybe_cleanup:
  assumes "swept c b' b"
  shows "swept c (maybe_cleanup b' c) (maybe_cleanup b c)"
proof -
  have n: "swept c (b'\<lparr>bg_op_count := k\<rparr>) (b\<lparr>bg_op_count := k\<rparr>)" for k
    using assms by (simp add: swept_def)
  have "bg_op_count b' = bg_op_count b" using assms by (simp add: swept_def)
  then show ?thesis using n swept_both [OF n, of 0] by (simp add: maybe_cleanup_def Let_def)
qed

lemma swept_live:
  assumes "swept c b' b"
  shows "prune (bg_per b) (live b' key) c = prune (bg_per b) (live b key) c"
  using sweptD(5) [OF assms, of key]
  by (auto simp: swept_key_def live_def prune_def split: option.splits)

lemma swept_reserve:
  assumes s: "swept c b' b" and r: "reserve b kv c nb = (x, b1)"
  obtains b1' where "reserve b' kv c nb = (x, b1')" "swept c b1' b1"
proof (cases "validate_key kv")
  case (Raise e)
  with s r that show ?thesis by (simp add: reserve_def)
next
  case (Ok key)
  define m' where "m' = maybe_cleanup b' c"
  define m where "m = maybe_cleanup b c"
  have sm: "swept c m' m" unfolding m'_def m_def by (rule swept_maybe_cleanup [OF s])
  note D = sweptD [OF sm]
  have pr: "prune (bg_per m) (live m' key) c = prune (bg_per m) (live m key) c" by (rule swept_live [OF sm])
  have x: "(x, b1) = (let pruned = prune (bg_per m) (live m key) c;
      r = \<lparr>rs_token = bg_next_token m, rs_key = key,
           rs_scheduled_at = first_legal_slot (bg_per m) (bg_max_retries m) (max c nb) (scheduled_times pruned)\<rparr>
    in (Ok r, m\<lparr>bg_next_token := bg_next_token m + 1, bg_reservations := (bg_reservations m)(key \<mapsto> pruned @ [r])\<rparr>))"
    using r by (simp add: reserve_def Ok Let_def m_def live_def)
  have x': "reserve b' kv c nb = (let pruned = prune (bg_per m) (live m key) c;
      r = \<lparr>rs_token = bg_next_token m, rs_key = key,
           rs_scheduled_at = first_legal_slot (bg_per m) (bg_max_retries m) (max c nb) (scheduled_times pruned)\<rparr>
    in (Ok r, m'\<lparr>bg_next_token := bg_next_token m + 1, bg_reservations := (bg_reservations m')(key \<mapsto> pruned @ [r])\<rparr>))"
    using pr D(1-4) by (simp add: reserve_def Ok Let_def live_def flip: m'_def)
  show ?thesis
    by (rule that [of "snd (reserve b' kv c nb)"])
      (use x x' D in \<open>simp_all add: Let_def swept_def\<close>)
qed

lemma remove_token_subset: "set (remove_token tok rs) \<subseteq> set rs"
  by (induction rs) auto

lemma swept_release:
  assumes "swept c b' b"
  shows "swept c (release b' r c) (release b r c)"
proof -
  define m' where "m' = maybe_cleanup b' c"
  define m where "m = maybe_cleanup b c"
  have sm: "swept c m' m" unfolding m'_def m_def by (rule swept_maybe_cleanup [OF assms])
  note D = sweptD [OF sm]
  define cut where "cut m = (case m of None \<Rightarrow> None | Some [] \<Rightarrow> Some []
      | Some (q # qs) \<Rightarrow> if remove_token (rs_token r) (q # qs) = [] then None
                          else Some (remove_token (rs_token r) (q # qs)))" for m
  have at: "bg_reservations (release b r c) key
      = (if key = rs_key r then cut (bg_reservations (maybe_cleanup b c) key)
         else bg_reservations (maybe_cleanup b c) key)" for b key
    by (auto simp: release_def Let_def cut_def split: option.splits list.splits)
  have ops: "bg_op_count (release b r c) = bg_op_count (maybe_cleanup b c)" for b
    by (auto simp: release_def Let_def split: option.splits list.splits)
  have cut: "swept_key per c (cut m') (cut m)" if "swept_key per c m' m" for per m' m
    using that remove_token_subset [of "rs_token r"]
    by (fastforce simp: swept_key_def cut_def prune_empty_iff split: option.splits list.splits)
  have "swept_key (bg_per b) c (bg_reservations (release b' r c) key) (bg_reservations (release b r c) key)" for key
    using D(5) [of key] cut unfolding at by (auto simp: m_def m'_def)
  with D(1-4) show ?thesis by (simp add: swept_def ops m_def m'_def)
qed

lemma swept_snapshot:
  assumes s: "swept c b' b" and r: "snapshot b kv c = Some (x, b1)"
  obtains x' b1' where "snapshot b' kv c = Some (x', b1')" "swept c b1' b1"
proof (cases "validate_key kv")
  case (Raise e)
  with s r that show ?thesis by (simp add: snapshot_def)
next
  case (Ok key)
  define m' where "m' = maybe_cleanup b' c"
  define m where "m = maybe_cleanup b c"
  have sm: "swept c m' m" unfolding m'_def m_def by (rule swept_maybe_cleanup [OF s])
  note D = sweptD [OF sm]
  show ?thesis
  proof (cases "bg_reservations m' key = bg_reservations m key")
    case True
    show ?thesis
    proof (cases "bg_reservations m key")
      case None
      with True Ok r sm that show ?thesis by (auto simp: snapshot_def Let_def simp flip: m_def m'_def)
    next
      case (Some rs)
      with Ok r have b1: "b1 = m\<lparr>bg_reservations := (bg_reservations m)(key \<mapsto> prune (bg_per m) rs c)\<rparr>"
        by (auto simp: snapshot_def Let_def simp flip: m_def split: option.splits)
      from Some Ok r obtain a where a: "available_at (bg_per m) (bg_max_retries m) c
          (scheduled_times (prune (bg_per m) rs c)) = Some a"
        by (auto simp: snapshot_def Let_def simp flip: m_def split: option.splits)
      show ?thesis
        by (rule that [of "fst (the (snapshot b' kv c))"
              "m'\<lparr>bg_reservations := (bg_reservations m')(key \<mapsto> prune (bg_per m) rs c)\<rparr>"])
          (use True Some Ok a b1 D in \<open>simp_all add: snapshot_def Let_def swept_def flip: m'_def\<close>)
    qed
  next
    case False
    with D(5) [of key] have n: "bg_reservations m' key = None"
      "\<forall>rs. bg_reservations m key = Some rs \<longrightarrow> prune (bg_per m) rs c = []"
      by (auto simp: swept_key_def)
    with False obtain rs where rs: "bg_reservations m key = Some rs" by (metis not_None_eq)
    have b1: "b1 = m\<lparr>bg_reservations := (bg_reservations m)(key \<mapsto> [])\<rparr>"
      using r Ok rs n(2) by (auto simp: snapshot_def Let_def simp flip: m_def split: option.splits)
    have "swept c m' b1"
      using D n(1) by (auto simp: swept_def b1 swept_key_def prune_def)
    with n(1) Ok show ?thesis by (intro that) (auto simp: snapshot_def Let_def simp flip: m'_def)
  qed
qed

lemma swept_grants:
  assumes "swept c b' b" "valid_per (bg_per b)" "flt_ok c" "sorted (c # map call_reading calls)"
    and "\<forall>call\<in>set calls. flt_ok (call_reading call)"
    and "grants b (filter (\<lambda>call. \<not> is_cleanup_call call) calls) = Some rs"
  shows "grants b' calls = Some rs"
  using assms
proof (induction calls arbitrary: b' b c rs)
  case (Cons call calls)
  let ?d = "call_reading call"
  have d: "swept ?d b' b" "flt_ok ?d" "sorted (?d # map call_reading calls)"
    using swept_later [OF Cons.prems(1) _ Cons.prems(3) _ Cons.prems(2)] Cons.prems(4,5) by auto
  note IH = Cons.IH [OF _ _ d(2,3)]
  show ?case
  proof (cases call)
    case (CallReserve kv e nb)
    obtain x b1 where x: "reserve b kv e nb = (x, b1)" by (metis prod.exhaust)
    from d(1) CallReserve x obtain b1' where b1': "reserve b' kv e nb = (x, b1')" "swept e b1' b1"
      by (auto elim: swept_reserve)
    have "bg_per b1 = bg_per b" using x live_reserve(4) [of b kv e nb _ b1] reserve_error_state [of b kv e nb _ b1] by (cases x) auto
    with Cons.prems CallReserve x b1' IH [of b1' b1] show ?thesis by auto
  next
    case (CallRelease r e)
    with Cons.prems IH [of "release b' r e" "release b r e"] swept_release [of e b' b r] d(1)
    show ?thesis by simp
  next
    case (CallCleanup e)
    with Cons.prems IH [of "cleanup b' e" b] swept_expired [of e b' b] d(1)
    show ?thesis by (simp add: cleanup_def)
  next
    case (CallSnapshot kv e)
    with Cons.prems(6) obtain x b1 where x: "snapshot b kv e = Some (x, b1)"
      "grants b1 (filter (\<lambda>call. \<not> is_cleanup_call call) calls) = Some rs" by (auto split: option.splits)
    from d(1) CallSnapshot x obtain x' b1' where b1': "snapshot b' kv e = Some (x', b1')" "swept e b1' b1"
      by (auto elim: swept_snapshot)
    have "bg_per b1 = bg_per b" using snapshot_config [OF x(1)] by simp
    with Cons.prems CallSnapshot x b1' IH [of b1' b1] show ?thesis by auto
  qed
qed simp

text \<open>
  C8: explicit clean-ups are not observable. In any sequence of calls of a reachable budget whose readings do not
  go back, whatever they are, leaving out every \<open>cleanup()\<close> changes no reservation that is granted and no
  error that is raised. (With readings that go back they are, see \<open>Threads\<close>.) A snapshot
  of the sequence may not return; the statement is for sequences that end without the clean-ups, and then they end with them.
\<close>

theorem cleanup_unobservable:
  assumes "budget_run b log t" "sorted (t # map call_reading calls)" "\<forall>call\<in>set calls. flt_ok (call_reading call)"
    and "grants b (filter (\<lambda>call. \<not> is_cleanup_call call) calls) = Some rs"
  shows "grants b calls = Some rs"
  by (rule swept_grants [OF swept_refl _ _ assms(2-4)])
    (use budget_invD(2,3) [OF budget_run_inv [OF assms(1)]] in simp_all)

text \<open>
  C9 (invariant B9): where the window arithmetic is exact, \<open>snapshot\<close> returns, and its fields agree
  with one schedule, the one that a reservation at that reading would see: \<open>active\<close> and \<open>queued\<close> split it into
  the reservations of the current window and those after it, \<open>available\<close> more fit now and one more does not,
  and \<open>next_available_in\<close> is the wait until the earliest slot.
\<close>

theorem snapshot_consistent:
  assumes "budget_run b log t" "t \<le> cur" "flt_ok cur" "exact_at (bg_per b) cur"
    and "validate_key kv = Ok key"
  defines "n \<equiv> bg_max_retries b" and "sched \<equiv> visible b key cur"
  shows "\<exists>sn b'. snapshot b kv cur = Some (Ok sn, b')
    \<and> sn_key sn = key \<and> sn_capacity sn = n \<and> sn_per sn = bg_per b
    \<and> sn_active sn = count_in (fl_sub cur (bg_per b)) cur sched
    \<and> sn_queued sn = length (filter (\<lambda>s. cur < s) sched) \<and> sn_active sn + sn_queued sn = length sched
    \<and> rolling_ok (bg_per b) n (with_copies (sn_available sn) cur sched)
    \<and> \<not> rolling_ok (bg_per b) n (with_copies (Suc (sn_available sn)) cur sched)
    \<and> sn_next_available_in sn = max 0 (fl_sub (first_legal_slot (bg_per b) n cur sched) cur)"
proof -
  note inv = budget_run_inv [OF assms(1)]
  note D = budget_invD [OF inv]
  have dom: "slot_dom (bg_per b) cur" using D(2,4) assms(2,3) by (simp add: slot_dom_def)
  have srt: "sorted sched" by (simp add: sched_def visible_def)
  note ok = visible_ok [OF inv, of key cur]
  have n: "0 < n" using D(1) by (simp add: n_def)
  have split: "count_in (fl_sub cur (bg_per b)) cur sched + length (filter (\<lambda>s. cur < s) sched) = length sched"
  proof -
    have "\<forall>s\<in>set sched. fl_sub cur (bg_per b) < s"
      by (auto simp: sched_def visible_def scheduled_times_def prune_def)
    then have "filter (\<lambda>s. fl_sub cur (bg_per b) < s \<and> s \<le> cur) sched = filter (\<lambda>s. \<not> cur < s) sched"
      by (intro filter_cong) auto
    then show ?thesis
      using sum_length_filter_compl [of "\<lambda>s. cur < s" sched] by (simp add: count_in_def)
  qed
  obtain m where m: "available_at (bg_per b) n cur sched = Some m"
    "rolling_ok (bg_per b) n (with_copies m cur sched)"
    "\<not> rolling_ok (bg_per b) n (with_copies (Suc m) cur sched)"
    using available_loop_spec [OF dom n assms(4) srt, of 0] ok
    by (auto simp: available_at_def n_def sched_def)
  show ?thesis
  proof (cases "bg_reservations (maybe_cleanup b cur) key")
    case None
    then have empty: "sched = []"
      using prune_maybe_cleanup [of b cur key]
      by (simp add: sched_def visible_def live_def scheduled_times_def prune_def)
    have copies: "count_in lo hi (with_copies k cur []) = (if lo < cur \<and> cur \<le> hi then k else 0)" for lo hi k
      by (induction k) (simp_all add: with_copies_def count_in_insort)
    have "rolling_ok (bg_per b) n (with_copies n cur [])" by (simp add: rolling_ok_def copies)
    moreover have "\<not> rolling_ok (bg_per b) n (with_copies (Suc n) cur [])"
      using assms(3,4) by (auto simp: rolling_ok_def copies exact_at_def)
    moreover have "first_legal_slot (bg_per b) n cur [] = cur"
      using n by (subst first_legal_slot.simps) (simp add: block_indices_def)
    moreover have "fl_sub cur cur = 0"
    proof -
      have "cur \<noteq> fl_inf" using assms(4) dom D(2)
        by (auto simp: exact_at_def fl_sub_def fl_add_def)
      then show ?thesis using dom by (auto simp: fl_sub_def fl_add_def slot_dom_def rnd_def
            rnd_pos_def ulp_exp_small rne_def saturate_def)
    qed
    ultimately show ?thesis
      using None assms(5) split by (simp add: snapshot_def empty n_def)
  next
    case (Some rs)
    then have "rs = live (maybe_cleanup b cur) key" by (simp add: live_def)
    then have pr: "prune (bg_per b) rs cur = prune (bg_per b) (live b key) cur" by simp
    have sc: "scheduled_times (prune (bg_per b) rs cur) = sched"
      by (simp add: pr sched_def visible_def)
    show ?thesis
      using Some assms(5) m sc split by (simp add: snapshot_def Let_def n_def count_in_def)
  qed
qed

text \<open>
  C10: a period that vanishes against the clock (below half a unit in the last place of the
  reading) makes \<open>snapshot\<close> of a stored key run for ever, under the lock: every candidate stays
  legal, so the counting loop of \<open>_available_at\<close> never stops.
\<close>

theorem snapshot_diverges:
  assumes "validate_key kv = Ok key" "0 < bg_max_retries b"
    and "bg_reservations (maybe_cleanup b cur) key = Some rs"
    and "fl_sub cur (bg_per b) = cur" "fl_add cur (bg_per b) = cur"
  shows "snapshot b kv cur = None"
  using assms available_loop_diverges [OF assms(2,4,5)]
  by (simp add: snapshot_def available_at_def Let_def)

section \<open>A concrete run\<close>

text \<open>One retry every ten seconds; two reservations of one key, one second apart.\<close>

definition ex_b0 :: retry_budget where
  "ex_b0 = \<lparr>bg_max_retries = 1, bg_per = sec 10, bg_reservations = Map.empty,
     bg_next_token = 1, bg_op_count = 0\<rparr>"

definition ex_r1 :: reservation where
  "ex_r1 = \<lparr>rs_token = 1, rs_key = ''api'', rs_scheduled_at = sec 100\<rparr>"

definition ex_b1 :: retry_budget where
  "ex_b1 = \<lparr>bg_max_retries = 1, bg_per = sec 10, bg_reservations = [''api'' \<mapsto> [ex_r1]],
     bg_next_token = 2, bg_op_count = 1\<rparr>"

definition ex_r2 :: reservation where
  "ex_r2 = \<lparr>rs_token = 2, rs_key = ''api'', rs_scheduled_at = sec 110\<rparr>"

definition ex_b2 :: retry_budget where
  "ex_b2 = \<lparr>bg_max_retries = 1, bg_per = sec 10, bg_reservations = [''api'' \<mapsto> [ex_r1, ex_r2]],
     bg_next_token = 3, bg_op_count = 2\<rparr>"

lemma ex_init: "budget_init (VInt 1) (VInt 10) = Ok ex_b0"
  by (simp add: budget_init_def ensure_positive_def py_float_def ex_b0_def not_le sec_pos)

lemma ex_key: "validate_key (VStr ''api'') = Ok ''api''"
  by (simp add: blank_def is_space_def)

lemma slot_free: "first_legal_slot per n c [] = c"
  by (cases n) (simp_all add: first_legal_slot.simps block_indices_def)

lemma slot_after_one:
  assumes "0 \<le> s" "s \<le> c" "c < s + p" "0 < p" "p < 2 ^ 40" "s < 2 ^ 39" "c < 2 ^ 40"
  shows "first_legal_slot (sec p) 1 (sec c) [sec s] = sec (s + p)"
  using assms by (subst first_legal_slot.simps, subst first_legal_slot.simps)
    (simp add: block_indices_def first_slot_after_window_sec)

lemma ex_reserve1: "reserve ex_b0 (VStr ''api'') (sec 100) (sec 100) = (Ok ex_r1, ex_b1)"
  by (simp add: reserve_def ex_key ex_b0_def ex_b1_def ex_r1_def maybe_cleanup_def
      CLEANUP_INTERVAL_def prune_def scheduled_times_def slot_free Let_def numeral_2_eq_2 del: validate_key.simps)

lemma ex_reserve2: "reserve ex_b1 (VStr ''api'') (sec 101) (sec 101) = (Ok ex_r2, ex_b2)"
  by (simp add: reserve_def ex_key ex_b1_def ex_b2_def ex_r1_def ex_r2_def maybe_cleanup_def
      CLEANUP_INTERVAL_def prune_def scheduled_times_def slot_after_one [simplified] Let_def numeral_2_eq_2
      del: validate_key.simps)

lemma ex_run1: "budget_run ex_b1 [ex_r1] (sec 100)"
proof -
  have "budget_run ex_b0 [] (sec 100)"
    by (rule run_init [OF ex_init]) (simp_all add: ex_b0_def)
  from run_reserve [OF this order_refl _ _ ex_reserve1] show ?thesis by simp
qed

lemma ex_run2: "budget_run ex_b2 [ex_r2, ex_r1] (sec 101)"
  by (rule run_reserve [OF ex_run1 _ _ _ ex_reserve2]) simp_all

theorem rolling_capacity_witness:
  "rolling_ok (sec 10) 1 [sec 110, sec 100]"
  using rolling_capacity [OF ex_run2, of "''api''"]
  by (simp add: ex_b2_def key_log_def ex_r1_def ex_r2_def)

theorem reserve_earliest_witness:
  "rs_scheduled_at ex_r2 = sec 110
    \<and> \<not> rolling_ok (sec 10) 1 (insort (sec 109) (visible ex_b1 ''api'' (sec 101)))"
proof -
  have "max (sec 101) (sec 101) \<le> rs_scheduled_at ex_r2
    \<and> rolling_ok (bg_per ex_b1) (bg_max_retries ex_b1)
        (insort (rs_scheduled_at ex_r2) (visible ex_b1 (rs_key ex_r2) (sec 101)))
    \<and> (\<forall>x. flt_ok x \<and> max (sec 101) (sec 101) \<le> x \<and> x < rs_scheduled_at ex_r2 \<longrightarrow>
        \<not> rolling_ok (bg_per ex_b1) (bg_max_retries ex_b1)
          (insort x (visible ex_b1 (rs_key ex_r2) (sec 101))))"
    by (rule reserve_earliest [OF ex_run1 _ _ _ ex_reserve2]) simp_all
  then show ?thesis by (auto simp: ex_r2_def ex_b1_def)
qed

text \<open>The first reservation has expired at second 110, and the clean-up then forgets its key.\<close>

theorem cleanup_unobservable_witness:
  "\<exists>x b. reserve ex_b1 (VStr ''api'') (sec 111) (sec 111) = (x, b)
    \<and> grants ex_b1 [CallCleanup (sec 110), CallReserve (VStr ''api'') (sec 111) (sec 111)] = Some [x]
    \<and> bg_reservations (cleanup ex_b1 (sec 110)) = Map.empty"
proof -
  obtain x b where x: "reserve ex_b1 (VStr ''api'') (sec 111) (sec 111) = (x, b)" by (metis prod.exhaust)
  have "grants ex_b1 [CallCleanup (sec 110), CallReserve (VStr ''api'') (sec 111) (sec 111)] = Some [x]"
    by (rule cleanup_unobservable [OF ex_run1]) (simp_all add: x)
  moreover have "bg_reservations (cleanup ex_b1 (sec 110)) = Map.empty"
    by (auto simp: cleanup_def cleanup_expired_keys_def ex_b1_def ex_r1_def)
  ultimately show ?thesis using x by blast
qed

theorem release_idempotent_witness:
  "seen (release ex_b2 ex_r1 (sec 102)) ''api'' (sec 102) = [ex_r2]
    \<and> seen (release (release ex_b2 ex_r1 (sec 102)) ex_r1 (sec 102)) ''api'' (sec 102) = [ex_r2]"
  using release_idempotent [OF ex_run2, of "sec 102" ex_r1 "''api''"]
  by (simp add: seen_def ex_b2_def ex_r1_def ex_r2_def live_def prune_def)

theorem reserve_other_keys_witness:
  "visible ex_b2 ''other'' (sec 101) = []"
  using reserve_other_keys [OF ex_run1 _ _ ex_reserve2, of "''other''" "sec 101"]
  by (simp add: ex_r2_def ex_b1_def visible_def live_def prune_def scheduled_times_def)

theorem snapshot_consistent_witness:
  "\<exists>sn b'. snapshot ex_b2 (VStr ''api'') (sec 105) = Some (Ok sn, b') \<and> sn_active sn = 1"
proof -
  have ex: "exact_at (bg_per ex_b2) (sec 105)" by (simp add: ex_b2_def exact_at_sec)
  have run: "sec 101 \<le> sec 105" "flt_ok (sec 105)" by simp_all
  have "count_in (fl_sub (sec 105) (bg_per ex_b2)) (sec 105) (visible ex_b2 ''api'' (sec 105)) = 1"
    by (simp add: ex_b2_def visible_def live_def prune_def scheduled_times_def ex_r1_def ex_r2_def
        count_in_Cons)
  with snapshot_consistent [OF ex_run2 run ex ex_key] show ?thesis by auto
qed

text \<open>One second on the clock against a period of \<open>2 ^ -60\<close> seconds.\<close>

lemma tiny_period: "fl_sub (sec 1) (2 ^ 1014) = sec 1" "fl_add (sec 1) (2 ^ 1014) = sec 1"
proof -
  have s: "sec 1 = 2 ^ 60 * 2 ^ 1014" by (simp add: sec_def)
  have "rnd (2 ^ 60 - 1) 0 = 2 ^ 60" "rnd (2 ^ 60 + 1) 0 = 2 ^ 60"
    by (simp_all add: rnd_def rnd_pos_def rne_def ulp_exp.simps)
  then show "fl_sub (sec 1) (2 ^ 1014) = sec 1" "fl_add (sec 1) (2 ^ 1014) = sec 1"
    using fl_add_scale [of "2 ^ 60" "- 1" 1014] fl_add_scale [of "2 ^ 60" 1 1014]
    unfolding s fl_sub_def by simp_all
qed

theorem snapshot_diverges_witness:
  "snapshot \<lparr>bg_max_retries = 1, bg_per = 2 ^ 1014, bg_reservations = [''api'' \<mapsto> []],
     bg_next_token = 1, bg_op_count = 0\<rparr> (VStr ''api'') (sec 1) = None"
  by (rule snapshot_diverges [OF ex_key, where rs = "[]"])
    (simp_all only: maybe_cleanup_def CLEANUP_INTERVAL_def Let_def, simp_all add: tiny_period [simplified])

section \<open>Where the two window ends disagree\<close>

text \<open>The doubles nearest to 0.1 and 0.7 seconds, and their double sum.\<close>

definition tenth :: flt where "tenth = 3602879701896397 * 2 ^ 1019"

definition seven_tenths :: flt where "seven_tenths = 25220157913274776 * 2 ^ 1019"

definition their_sum :: flt where "their_sum = 28823037615171172 * 2 ^ 1019"

lemma tenth_arith:
  "fl_add tenth seven_tenths = their_sum"
  "fl_sub their_sum seven_tenths = 3602879701896396 * 2 ^ 1019"
  "fl_sub tenth seven_tenths < tenth"
  "flt_ok tenth" "flt_ok seven_tenths" "flt_ok their_sum"
proof -
  have ev: "rnd 28823037615171173 0 = 28823037615171172" "rnd 3602879701896396 0 = 3602879701896396"
    "rnd (- 21617278211378379) 0 < 3602879701896397"
    "rnd 3602879701896397 0 = 3602879701896397" "rnd 25220157913274776 0 = 25220157913274776"
    by (simp_all add: rnd_def rnd_pos_def rne_def ulp_exp.simps)
  have sub: "fl_sub (a * 2 ^ 1019) (b * 2 ^ 1019) = rnd (a - b) 0 * 2 ^ 1019"
    if "\<bar>a\<bar> < 2 ^ 90" "\<bar>b\<bar> < 2 ^ 90" for a b :: int
    using fl_add_scale [of a "- b" 1019] that by (simp add: fl_sub_def)
  show sum: "fl_add tenth seven_tenths = their_sum"
    unfolding tenth_def seven_tenths_def their_sum_def by (subst fl_add_scale) (simp_all add: ev)
  show "fl_sub their_sum seven_tenths = 3602879701896396 * 2 ^ 1019"
    unfolding seven_tenths_def their_sum_def by (subst sub) (simp_all add: ev)
  show "fl_sub tenth seven_tenths < tenth"
    unfolding tenth_def seven_tenths_def by (subst sub) (use ev(3) in simp_all)
  have ok: "flt_ok (a * 2 ^ 1019)" if "rnd a 0 = a" "\<bar>a * 2 ^ 1019\<bar> \<le> fl_inf" for a :: int
    using rnd_grid [of "a * 2 ^ 1019" 0] that by (simp only: flt_ok_def rnd_scale)
  show "flt_ok tenth" unfolding tenth_def by (rule ok [OF ev(4)]) (simp add: fl_inf_def)
  show "flt_ok seven_tenths" unfolding seven_tenths_def by (rule ok [OF ev(5)]) (simp add: fl_inf_def)
  with \<open>flt_ok tenth\<close> show "flt_ok their_sum" unfolding sum [symmetric] by simp
qed

lemma tenth_order:
  "0 < tenth" "tenth < their_sum" "0 < seven_tenths" "flt_finite seven_tenths"
  "fl_sub their_sum seven_tenths < tenth"
proof -
  show "fl_sub their_sum seven_tenths < tenth" unfolding tenth_arith(2) by (simp add: tenth_def)
qed (simp_all add: tenth_def their_sum_def seven_tenths_def flt_finite_def fl_inf_def)

lemma fl_sub_pos:
  assumes "flt_ok x" "flt_ok y" "y < x"
  shows "0 < fl_sub x y"
proof -
  have "rnd 1 0 \<le> rnd (x - y) 0" using assms(3) by (intro rnd_mono) simp
  moreover have "rnd 1 0 = 1" by (simp add: rnd_small_int)
  ultimately show ?thesis
    using assms flt_ok_le_inf [OF assms(1)] flt_ok_ge_inf [OF assms(2)]
    by (auto simp: fl_sub_def fl_add_def saturate_def fl_inf_def split: if_splits)
qed

definition edge_reservation :: reservation where
  "edge_reservation = \<lparr>rs_token = 1, rs_key = ''api'', rs_scheduled_at = their_sum\<rparr>"

lemma edge_slot:
  "tenth < first_legal_slot seven_tenths 1 tenth [their_sum]
    \<and> flt_ok (first_legal_slot seven_tenths 1 tenth [their_sum])"
proof -
  have dom: "slot_dom seven_tenths tenth" "slots_ok seven_tenths [their_sum]"
    using tenth_order tenth_arith(4-6) by (simp_all add: slot_dom_def slots_ok_def valid_per_def)
  have one: "rolling_ok seven_tenths 1 [their_sum]" by (simp add: rolling_ok_def count_in_Cons)
  define x where "x = first_legal_slot seven_tenths 1 tenth [their_sum]"
  have x: "tenth \<le> x" "flt_ok x" "rolling_ok seven_tenths 1 (insort x [their_sum])"
    using first_legal_slot_spec [OF _ dom(2) _ one dom(1)] by (simp_all add: x_def slot_dom_def)
  have "x \<noteq> tenth"
  proof
    assume "x = tenth"
    with x(3) have "count_in (fl_sub their_sum seven_tenths) their_sum [tenth, their_sum] \<le> 1"
      using tenth_order(2) tenth_arith(6) by (auto simp: rolling_ok_def)
    with tenth_order tenth_arith(3) show False
      by (simp add: count_in_Cons)
  qed
  with x(1,2) show ?thesis by (simp add: x_def)
qed

lemma edge_available: "available_at seven_tenths 1 tenth [their_sum] = Some 1"
proof -
  have legal: "is_legal_slot seven_tenths 1 tenth [their_sum]"
    using tenth_order tenth_arith(3)
    by (simp add: is_legal_slot_def tenth_arith(1) bisect_right_def bisect_left_def)
  moreover have "\<not> is_legal_slot seven_tenths 1 tenth [tenth, their_sum]"
    using tenth_order tenth_arith(3)
    by (simp add: is_legal_slot_def tenth_arith(1) bisect_right_def bisect_left_def)
  ultimately show ?thesis
    using tenth_order by (simp add: available_at_def available_loop.simps)
qed

text \<open>
  C11: \<open>_is_legal_slot\<close> ends its scan at \<open>candidate + per\<close>, \<open>_first_legal_slot\<close> starts its forbidden
  interval at \<open>last - per\<close>, and in floats the two cut-offs differ. With one retry per 0.7 s, a
  reservation not before 0.8 s and a snapshot at 0.1 s, the snapshot reports one retry available and,
  at the same time, that the next one has to wait.
\<close>

theorem snapshot_boundary:
  "\<exists>b0 r b1 sn b2. budget_init (VInt 1) (VFloat seven_tenths) = Ok b0
    \<and> reserve b0 (VStr ''api'') tenth (fl_add tenth seven_tenths) = (Ok r, b1)
    \<and> snapshot b1 (VStr ''api'') tenth = Some (Ok sn, b2)
    \<and> sn_available sn = 1 \<and> 0 < sn_next_available_in sn"
proof -
  define b0 where "b0 = \<lparr>bg_max_retries = 1, bg_per = seven_tenths, bg_reservations = Map.empty,
     bg_next_token = 1, bg_op_count = 0\<rparr>"
  define b1 where "b1 = \<lparr>bg_max_retries = 1, bg_per = seven_tenths,
     bg_reservations = [''api'' \<mapsto> [edge_reservation]], bg_next_token = 2, bg_op_count = 1\<rparr>"
  have "budget_init (VInt 1) (VFloat seven_tenths) = Ok b0"
    using tenth_order by (simp add: budget_init_def ensure_positive_def py_float_def b0_def not_le)
  moreover have "reserve b0 (VStr ''api'') tenth (fl_add tenth seven_tenths) = (Ok edge_reservation, b1)"
    using tenth_order
    by (simp add: reserve_def ex_key b0_def b1_def edge_reservation_def maybe_cleanup_def tenth_arith(1)
        CLEANUP_INTERVAL_def prune_def scheduled_times_def slot_free Let_def numeral_2_eq_2
        del: validate_key.simps)
  moreover have "0 < fl_sub (first_legal_slot seven_tenths 1 tenth [their_sum]) tenth"
    using edge_slot tenth_arith(4) by (simp add: fl_sub_pos)
  moreover have "fl_sub tenth seven_tenths < their_sum" using tenth_arith(3) tenth_order by simp
  ultimately show ?thesis
    using edge_available
    by (auto simp: snapshot_def ex_key b1_def maybe_cleanup_def CLEANUP_INTERVAL_def Let_def prune_def
        edge_reservation_def scheduled_times_def simp del: validate_key.simps)
qed

end
