(* ===== verification/World.thy ===== *)
theory World
  imports Main Budget
begin

text \<open>
  What the execution code reads and writes outside itself. \<open>pyenv\<close> holds the standard library
  functions whose values the source does not fix: the clock readings, the random generators, the
  float power and the float summation. \<open>world\<close> is the mutable part: how many readings and draws
  were taken, and the heap of shared \<open>RetryBudget\<close> objects. User callbacks act on an extension
  \<open>'u world_scheme\<close> of it. Python numbers that a configuration keeps as given, integer or float,
  are \<open>num\<close>.
\<close>

section \<open>Numbers\<close>

datatype pynum = PInt int | PFlt flt

text \<open>The number in a validated value, and back.\<close>

fun num_of :: "pyval \<Rightarrow> pynum" where
  "num_of (VInt n) = PInt n"
| "num_of (VFloat x) = PFlt x"
| "num_of _ = PInt 0"

fun int_of :: "pyval \<Rightarrow> int" where
  "int_of (VInt n) = n"
| "int_of _ = 0"

fun val_of_num :: "pynum \<Rightarrow> pyval" where
  "val_of_num (PInt n) = VInt n"
| "val_of_num (PFlt x) = VFloat x"

text \<open>\<open>a < b\<close>: Python compares an integer with a float exactly.\<close>

fun num_less :: "pynum \<Rightarrow> pynum \<Rightarrow> bool" where
  "num_less (PInt a) (PInt b) = (a < b)"
| "num_less (PFlt x) (PFlt y) = (x < y)"
| "num_less (PInt a) (PFlt y) = (if \<bar>y\<bar> = fl_inf then 0 < y else sec a < y)"
| "num_less (PFlt x) (PInt b) = (if \<bar>x\<bar> = fl_inf then x < 0 else x < sec b)"

definition num_le :: "pynum \<Rightarrow> pynum \<Rightarrow> bool" where
  "num_le a b \<longleftrightarrow> \<not> num_less b a"

definition num_eq :: "pynum \<Rightarrow> pynum \<Rightarrow> bool" where
  "num_eq a b \<longleftrightarrow> \<not> num_less a b \<and> \<not> num_less b a"

text \<open>\<open>min(a, b)\<close> and \<open>max(a, b)\<close> keep the first argument on a tie.\<close>

definition num_min :: "pynum \<Rightarrow> pynum \<Rightarrow> pynum" where
  "num_min a b = (if num_less b a then b else a)"

definition num_max :: "pynum \<Rightarrow> pynum \<Rightarrow> pynum" where
  "num_max a b = (if num_less a b then b else a)"

text \<open>
  \<open>a + b\<close> and \<open>a * b\<close>: exact on integers; an integer meeting a float is converted, which raises
  \<open>OverflowError\<close> when it is too large.
\<close>

fun num_float :: "pynum \<Rightarrow> flt res" where
  "num_float (PInt n) = py_float n"
| "num_float (PFlt x) = Ok x"

fun num_add :: "pynum \<Rightarrow> pynum \<Rightarrow> pynum res" where
  "num_add (PInt a) (PInt b) = Ok (PInt (a + b))"
| "num_add a b = res_bind (num_float a) (\<lambda>x. res_bind (num_float b) (\<lambda>y. Ok (PFlt (fl_add x y))))"

fun num_mul :: "pynum \<Rightarrow> pynum \<Rightarrow> pynum res" where
  "num_mul (PInt a) (PInt b) = Ok (PInt (a * b))"
| "num_mul a b = res_bind (num_float a) (\<lambda>x. res_bind (num_float b) (\<lambda>y. Ok (PFlt (fl_mul x y))))"

lemma num_less_irrefl [simp]: "\<not> num_less a a"
  by (cases a) auto

lemma num_le_refl [simp]: "num_le a a" "num_eq a a"
  by (simp_all add: num_le_def num_eq_def)

text \<open>A number a safe delay can be: between 0 and the ceiling.\<close>

definition safe_num :: "pynum \<Rightarrow> bool" where
  "safe_num a \<longleftrightarrow> num_le (PInt 0) a \<and> num_le a (PFlt MAX_SLEEP_SECONDS)"

section \<open>The environment\<close>

text \<open>
  \<open>env_clock k\<close> is the \<open>k\<close>-th reading of \<open>clock.now()\<close>; \<open>env_uniform s a b\<close> the value of
  \<open>Random(s).uniform(a, b)\<close> for an integer seed, \<open>env_entropy k a b\<close> that of the \<open>k\<close>-th unseeded
  generator; \<open>env_pow x n\<close> the float power \<open>x ** n\<close>, \<open>None\<close> when it raises \<open>OverflowError\<close>;
  \<open>env_sum\<close> the builtin \<open>sum\<close> on floats, whose algorithm differs between Python versions;
  \<open>env_log\<close> a record sent to a named logger, and \<open>env_sleep\<close> and \<open>env_async_sleep\<close> the default sleeps. \<open>world\<close> is what a
  run reads and writes: how many readings and draws were taken, and the heap of shared budgets.
\<close>

record world =
  w_reads :: nat
  w_draws :: nat
  w_budgets :: "nat \<Rightarrow> retry_budget"

type_synonym ('u, 'a) io = "('u world_scheme, 'a) py"

record 'u pyenv =
  env_clock :: "nat \<Rightarrow> flt"
  env_uniform :: "int \<Rightarrow> flt \<Rightarrow> flt \<Rightarrow> flt"
  env_entropy :: "nat \<Rightarrow> flt \<Rightarrow> flt \<Rightarrow> flt"
  env_pow :: "flt \<Rightarrow> nat \<Rightarrow> flt option"
  env_sum :: "flt list \<Rightarrow> flt"
  env_log :: "string \<Rightarrow> pyval list \<Rightarrow> ('u, unit) io"
  env_sleep :: "flt \<Rightarrow> ('u, unit) io"
  env_async_sleep :: "flt \<Rightarrow> ('u, unit) io"

text \<open>
  The documented behaviour the delays rely on: a draw lies between its bounds, a power of a
  positive float is not negative, and a sum of non-negative floats is not negative and is zero
  only if its terms are.
\<close>

definition env_ok :: "'u pyenv \<Rightarrow> bool" where
  "env_ok E \<longleftrightarrow>
     (\<forall>s a b. a \<le> b \<longrightarrow> a \<le> env_uniform E s a b \<and> env_uniform E s a b \<le> b) \<and>
     (\<forall>k a b. a \<le> b \<longrightarrow> a \<le> env_entropy E k a b \<and> env_entropy E k a b \<le> b) \<and>
     (\<forall>x n y. 0 < x \<longrightarrow> env_pow E x n = Some y \<longrightarrow> 0 \<le> y \<and> flt_finite y) \<and>
     (\<forall>xs. (\<forall>x\<in>set xs. 0 \<le> x) \<longrightarrow> 0 \<le> env_sum E xs) \<and>
     (\<forall>xs. (\<forall>x\<in>set xs. x = 0) \<longrightarrow> env_sum E xs = 0)"

text \<open>\<open>clock.now()\<close>\<close>

definition clock_now :: "'u pyenv \<Rightarrow> ('u, flt) io" where
  "clock_now E w = (Ok (env_clock E (w_reads w)), w\<lparr>w_reads := w_reads w + 1\<rparr>)"

text \<open>\<open>Random(None if seed is None else seed + attempt_number).uniform(a, b)\<close>\<close>

definition draw_uniform ::
    "'u pyenv \<Rightarrow> int option \<Rightarrow> int \<Rightarrow> flt \<Rightarrow> flt \<Rightarrow> ('u, flt) io" where
  "draw_uniform E seed attempt_number a b w =
     (case seed of
        Some s \<Rightarrow> (Ok (env_uniform E (s + attempt_number) a b), w)
      | None \<Rightarrow> (Ok (env_entropy E (w_draws w) a b), w\<lparr>w_draws := w_draws w + 1\<rparr>))"

section \<open>\<open>any\<close> and \<open>all\<close> over effectful elements\<close>

fun py_any :: "('s, bool) py list \<Rightarrow> ('s, bool) py" where
  "py_any [] = py_return False"
| "py_any (m # ms) = py_bind m (\<lambda>b. if b then py_return True else py_any ms)"

fun py_all :: "('s, bool) py list \<Rightarrow> ('s, bool) py" where
  "py_all [] = py_return True"
| "py_all (m # ms) = py_bind m (\<lambda>b. if b then py_all ms else py_return False)"

lemma py_bind_assoc: "py_bind (py_bind m f) g = py_bind m (\<lambda>x. py_bind (f x) g)"
  by (auto simp: py_bind_def fun_eq_iff split: prod.splits res.splits)

lemma py_bind_return [simp]: "py_bind m py_return = m" "py_bind (py_return x) f = f x"
  by (auto simp: py_bind_def py_return_def fun_eq_iff split: prod.splits res.splits)

lemma py_any_append:
  "py_any (ms @ ns) = py_bind (py_any ms) (\<lambda>b. if b then py_return True else py_any ns)"
  by (induction ms) (auto simp: py_bind_assoc intro!: arg_cong2 [where f = py_bind])

lemma py_all_append:
  "py_all (ms @ ns) = py_bind (py_all ms) (\<lambda>b. if b then py_all ns else py_return False)"
  by (induction ms) (auto simp: py_bind_assoc intro!: arg_cong2 [where f = py_bind])

text \<open>
  What combining the parts of a strategy or a condition promises, and what flattening a combination may
  rely on: nesting a prefix of the parts changes nothing, and \<open>flatten\<close> opens exactly the parts that are
  combinations of the same kind.
\<close>

locale combination =
  fixes combine :: "('s, bool) py list \<Rightarrow> ('s, bool) py"
    and eval :: "'c \<Rightarrow> ('s, bool) py"
    and parts :: "'c \<Rightarrow> 'c list option"
    and flatten :: "'c list \<Rightarrow> 'c list"
  assumes combine_nested: "combine (ms @ ns) = combine (combine ms # ns)"
    and combine_cong: "combine ns = combine ns' \<Longrightarrow> combine (m # ns) = combine (m # ns')"
    and eval_parts: "parts c = Some inner \<Longrightarrow> eval c = combine (map eval inner)"
    and flatten_Nil: "flatten [] = []"
    and flatten_Cons: "flatten (c # cs) = (case parts c of None \<Rightarrow> [c] | Some inner \<Rightarrow> inner) @ flatten cs"
begin

lemma combine_suffix: "combine ns = combine ns' \<Longrightarrow> combine (ms @ ns) = combine (ms @ ns')"
  by (induction ms) (auto intro: combine_cong)

lemma flatten_eval: "combine (map eval (flatten cs)) = combine (map eval cs)"
proof (induction cs)
  case (Cons c cs)
  show ?case
  proof (cases "parts c")
    case (Some inner)
    then have "combine (map eval (flatten (c # cs))) = combine (map eval inner @ map eval (flatten cs))"
      by (simp add: flatten_Cons)
    also have "\<dots> = combine (eval c # map eval cs)"
      using combine_suffix [OF Cons.IH] by (metis Some combine_nested eval_parts)
    finally show ?thesis by simp
  qed (simp add: flatten_Cons combine_cong [OF Cons.IH])
qed (simp add: flatten_Nil)

lemma flatten_list_all:
  assumes "\<And>c inner. parts c = Some inner \<Longrightarrow> P c \<Longrightarrow> list_all P inner"
  shows "list_all P cs \<Longrightarrow> list_all P (flatten cs)"
  by (induction cs) (auto simp: flatten_Nil flatten_Cons dest: assms split: option.splits)

end

lemma py_any_nested: "py_any (ms @ ns) = py_any (py_any ms # ns)"
  by (simp add: py_any_append)

lemma py_all_nested: "py_all (ms @ ns) = py_all (py_all ms # ns)"
  by (simp add: py_all_append)

text \<open>A computation never gives a value when it raises first; these say which value it may give.\<close>

definition never :: "'a \<Rightarrow> ('s, 'a) py \<Rightarrow> bool" where
  "never x m \<longleftrightarrow> (\<forall>s. fst (m s) \<noteq> Ok x)"

lemma never_return [simp]: "never x (py_return y) \<longleftrightarrow> x \<noteq> y"
  by (auto simp: never_def py_return_def)

lemma never_bind:
  assumes "\<And>y. never y m \<or> never x (f y)"
  shows "never x (py_bind m f)"
  unfolding never_def
proof
  fix s
  obtain r s' where m: "m s = (r, s')" by force
  show "fst (py_bind m f s) \<noteq> Ok x"
  proof (cases r)
    case (Ok y)
    with m have "\<not> never y m" unfolding never_def by (metis fst_conv)
    with assms [of y] have "never x (f y)" by simp
    with m Ok show ?thesis by (simp add: py_bind_def never_def)
  qed (simp add: py_bind_def m)
qed

lemma never_any_False: "m \<in> set ms \<Longrightarrow> never False m \<Longrightarrow> never False (py_any ms)"
proof (induction ms)
  case (Cons a ms)
  have "never y a \<or> never False (if y then py_return True else py_any ms)" for y
    using Cons by (cases y) auto
  then show ?case by (simp add: never_bind)
qed simp

lemma never_any_True: "(\<And>m. m \<in> set ms \<Longrightarrow> never True m) \<Longrightarrow> never True (py_any ms)"
proof (induction ms)
  case (Cons a ms)
  have "never y a \<or> never True (if y then py_return True else py_any ms)" for y
    using Cons by (cases y) auto
  then show ?case by (simp add: never_bind)
qed simp

lemma never_all_True: "m \<in> set ms \<Longrightarrow> never True m \<Longrightarrow> never True (py_all ms)"
proof (induction ms)
  case (Cons a ms)
  have "never y a \<or> never True (if y then py_all ms else py_return False)" for y
    using Cons by (cases y) auto
  then show ?case by (simp add: never_bind)
qed simp

lemma never_all_False: "(\<And>m. m \<in> set ms \<Longrightarrow> never False m) \<Longrightarrow> never False (py_all ms)"
proof (induction ms)
  case (Cons a ms)
  have "never y a \<or> never False (if y then py_all ms else py_return False)" for y
    using Cons by (cases y) auto
  then show ?case by (simp add: never_bind)
qed simp

text \<open>The same over a list of parts that are mapped to computations.\<close>

lemma never_map:
  "x \<in> set xs \<Longrightarrow> never False (f x) \<Longrightarrow> never False (py_any (map f xs))"
  "x \<in> set xs \<Longrightarrow> never True (f x) \<Longrightarrow> never True (py_all (map f xs))"
  "(\<And>x. x \<in> set xs \<Longrightarrow> never True (f x)) \<Longrightarrow> never True (py_any (map f xs))"
  "(\<And>x. x \<in> set xs \<Longrightarrow> never False (f x)) \<Longrightarrow> never False (py_all (map f xs))"
proof -
  show "x \<in> set xs \<Longrightarrow> never False (f x) \<Longrightarrow> never False (py_any (map f xs))"
    by (rule never_any_False [where m = "f x"]) simp_all
  show "x \<in> set xs \<Longrightarrow> never True (f x) \<Longrightarrow> never True (py_all (map f xs))"
    by (rule never_all_True [where m = "f x"]) simp_all
  show "(\<And>x. x \<in> set xs \<Longrightarrow> never True (f x)) \<Longrightarrow> never True (py_any (map f xs))"
    by (rule never_any_True) auto
  show "(\<And>x. x \<in> set xs \<Longrightarrow> never False (f x)) \<Longrightarrow> never False (py_all (map f xs))"
    by (rule never_all_False) auto
qed

section \<open>A computation for each element of a list\<close>

fun py_map :: "('a \<Rightarrow> ('s, 'b) py) \<Rightarrow> 'a list \<Rightarrow> ('s, 'b list) py" where
  "py_map f [] = py_return []"
| "py_map f (x # xs) = py_bind (f x) (\<lambda>y. py_bind (py_map f xs) (\<lambda>ys. py_return (y # ys)))"

lemma py_map_cong [fundef_cong]:
  "xs = ys \<Longrightarrow> (\<And>x. x \<in> set ys \<Longrightarrow> f x = g x) \<Longrightarrow> py_map f xs = py_map g ys"
  by (induction ys arbitrary: xs) auto

lemma py_bind_OkD:
  assumes "py_bind m f s = (Ok y, t)"
  obtains x s' where "m s = (Ok x, s')" "f x s' = (Ok y, t)"
  using assms by (auto simp: py_bind_def split: prod.splits res.splits)

lemma py_return_Ok [simp]: "py_return x s = (Ok y, t) \<longleftrightarrow> x = y \<and> s = t"
  by (auto simp: py_return_def)

lemma py_lift_Ok [simp]: "py_lift r s = (Ok y, t) \<longleftrightarrow> r = Ok y \<and> s = t"
  by (auto simp: py_lift_def)

lemma py_map_all:
  assumes "\<And>x s y t. x \<in> set xs \<Longrightarrow> f x s = (Ok y, t) \<Longrightarrow> P y"
    and "py_map f xs s = (Ok ys, t)"
  shows "\<forall>y\<in>set ys. P y"
  using assms
proof (induction xs arbitrary: s ys)
  case (Cons x xs)
  from Cons.prems(2) obtain y s' ys' where "f x s = (Ok y, s')" "py_map f xs s' = (Ok ys', t)"
    and ys: "ys = y # ys'"
    by (auto elim!: py_bind_OkD)
  with Cons.IH [of s' ys'] Cons.prems(1) show ?case unfolding ys by fastforce
qed simp

end
