(* ===== verification/Stop.thy ===== *)
theory Stop
  imports Main World
begin

text \<open>
  \<open>stop/\<close>: the stop strategies, their constructors with the checks of \<open>__post_init__\<close>, the
  composition operators, \<open>should_stop\<close>, the flattening \<open>policy.py\<close> does when it combines strategies,
  and the analyses of \<open>internal/policy_diagnostics.py\<close> over a strategy tree. \<open>UserStop\<close> is any
  other object that implements the protocol; its method may raise or have effects.
\<close>

section \<open>Strategies\<close>

datatype 's stop =
    StopAfterAttempt int
  | StopAfterDelay pynum
  | StopForever
  | AnyStop "'s stop list"
  | AllStop "'s stop list"
  | UserStop "int \<Rightarrow> flt \<Rightarrow> ('s, bool) py"

definition mk_StopAfterAttempt :: "pyval \<Rightarrow> 's stop res" where
  "mk_StopAfterAttempt maximum =
     res_bind (ensure_positive_int ''maximum'' maximum) (\<lambda>_. Ok (StopAfterAttempt (int_of maximum)))"

definition mk_StopAfterDelay :: "pyval \<Rightarrow> 's stop res" where
  "mk_StopAfterDelay seconds =
     res_bind (ensure_non_negative ''seconds'' seconds) (\<lambda>_. Ok (StopAfterDelay (num_of seconds)))"

definition mk_AnyStop :: "'s stop list \<Rightarrow> 's stop res" where
  "mk_AnyStop strategies =
     (if strategies = [] then Raise (config_error ''AnyStopStrategy requires at least one strategy'')
      else Ok (AnyStop strategies))"

definition mk_AllStop :: "'s stop list \<Rightarrow> 's stop res" where
  "mk_AllStop strategies =
     (if strategies = [] then Raise (config_error ''AllStopStrategy requires at least one strategy'')
      else Ok (AllStop strategies))"

text \<open>\<open>StopMixin.__or__\<close> and \<open>StopMixin.__and__\<close>\<close>

definition stop_or :: "'s stop \<Rightarrow> 's stop \<Rightarrow> 's stop res" where
  "stop_or self other = mk_AnyStop [self, other]"

definition stop_and :: "'s stop \<Rightarrow> 's stop \<Rightarrow> 's stop res" where
  "stop_and self other = mk_AllStop [self, other]"

fun should_stop :: "'s stop \<Rightarrow> int \<Rightarrow> flt \<Rightarrow> ('s, bool) py" where
  "should_stop (StopAfterAttempt maximum) attempt_number elapsed =
     py_return (maximum \<le> attempt_number)"
| "should_stop (StopAfterDelay seconds) attempt_number elapsed =
     py_return (num_le seconds (PFlt elapsed))"
| "should_stop StopForever attempt_number elapsed = py_return False"
| "should_stop (AnyStop strategies) attempt_number elapsed =
     py_any (map (\<lambda>strategy. should_stop strategy attempt_number elapsed) strategies)"
| "should_stop (AllStop strategies) attempt_number elapsed =
     py_all (map (\<lambda>strategy. should_stop strategy attempt_number elapsed) strategies)"
| "should_stop (UserStop f) attempt_number elapsed = f attempt_number elapsed"

section \<open>Flattening\<close>

text \<open>\<open>_flatten_any_stop_strategies\<close> and \<open>_flatten_all_stop_strategies\<close> of \<open>policy.py\<close>\<close>

fun flatten_any_stop_strategies :: "'s stop list \<Rightarrow> 's stop list" where
  "flatten_any_stop_strategies [] = []"
| "flatten_any_stop_strategies (AnyStop inner # rest) = inner @ flatten_any_stop_strategies rest"
| "flatten_any_stop_strategies (strategy # rest) = strategy # flatten_any_stop_strategies rest"

fun flatten_all_stop_strategies :: "'s stop list \<Rightarrow> 's stop list" where
  "flatten_all_stop_strategies [] = []"
| "flatten_all_stop_strategies (AllStop inner # rest) = inner @ flatten_all_stop_strategies rest"
| "flatten_all_stop_strategies (strategy # rest) = strategy # flatten_all_stop_strategies rest"

definition any_stop_parts :: "'s stop \<Rightarrow> 's stop list option" where
  "any_stop_parts s = (case s of AnyStop ss \<Rightarrow> Some ss | _ \<Rightarrow> None)"

definition all_stop_parts :: "'s stop \<Rightarrow> 's stop list option" where
  "all_stop_parts s = (case s of AllStop ss \<Rightarrow> Some ss | _ \<Rightarrow> None)"

interpretation any_stops: combination py_any "\<lambda>s. should_stop s k e" any_stop_parts flatten_any_stop_strategies
  for k e
proof
  show "flatten_any_stop_strategies (c # cs)
    = (case any_stop_parts c of None \<Rightarrow> [c] | Some inner \<Rightarrow> inner) @ flatten_any_stop_strategies cs"
    for c :: "'s stop" and cs by (cases c) (simp_all add: any_stop_parts_def)
qed (auto simp: py_any_nested any_stop_parts_def split: stop.splits cong: if_cong)

interpretation all_stops: combination py_all "\<lambda>s. should_stop s k e" all_stop_parts flatten_all_stop_strategies
  for k e
proof
  show "flatten_all_stop_strategies (c # cs)
    = (case all_stop_parts c of None \<Rightarrow> [c] | Some inner \<Rightarrow> inner) @ flatten_all_stop_strategies cs"
    for c :: "'s stop" and cs by (cases c) (simp_all add: all_stop_parts_def)
qed (auto simp: py_all_nested all_stop_parts_def split: stop.splits cong: if_cong)

section \<open>Analyses of a strategy tree\<close>

fun stop_is_infinite :: "'s stop \<Rightarrow> bool" where
  "stop_is_infinite StopForever = True"
| "stop_is_infinite (StopAfterAttempt _) = False"
| "stop_is_infinite (StopAfterDelay _) = False"
| "stop_is_infinite (AllStop strategies) = list_ex stop_is_infinite strategies"
| "stop_is_infinite (AnyStop strategies) = list_all stop_is_infinite strategies"
| "stop_is_infinite (UserStop _) = False"

fun stops_after_first_attempt :: "'s stop \<Rightarrow> bool" where
  "stops_after_first_attempt (StopAfterAttempt maximum) = (maximum \<le> 1)"
| "stops_after_first_attempt (StopAfterDelay seconds) = num_le seconds (PInt 0)"
| "stops_after_first_attempt StopForever = False"
| "stops_after_first_attempt (AnyStop strategies) = list_ex stops_after_first_attempt strategies"
| "stops_after_first_attempt (AllStop strategies) = list_all stops_after_first_attempt strategies"
| "stops_after_first_attempt (UserStop _) = False"

text \<open>The values of \<open>[limit for limit in limits if limit is not None]\<close>.\<close>

definition known_limits :: "int option list \<Rightarrow> int list" where
  "known_limits limits = map the (filter (\<lambda>l. l \<noteq> None) limits)"

text \<open>
  \<open>max()\<close> and \<open>min()\<close> of a non-empty list. The constructors reject empty strategy tuples, so the
  \<open>max\<close> of \<open>known_attempt_limit\<close> is never taken of an empty one.
\<close>

fun known_attempt_limit :: "'s stop \<Rightarrow> int option" where
  "known_attempt_limit (StopAfterAttempt maximum) = Some maximum"
| "known_attempt_limit StopForever = None"
| "known_attempt_limit (StopAfterDelay _) = None"
| "known_attempt_limit (AnyStop strategies) =
     (let known = known_limits (map known_attempt_limit strategies)
      in if known \<noteq> [] then Some (fold min (tl known) (hd known)) else None)"
| "known_attempt_limit (AllStop strategies) =
     (if list_ex stop_is_infinite strategies then None
      else let limits = map known_attempt_limit strategies
           in if list_all (\<lambda>l. l \<noteq> None) limits
              then Some (fold max (tl (known_limits limits)) (hd (known_limits limits)))
              else None)"
| "known_attempt_limit (UserStop _) = None"

fun has_max_time :: "'s stop \<Rightarrow> bool" where
  "has_max_time (StopAfterDelay _) = True"
| "has_max_time (AnyStop strategies) = list_ex has_max_time strategies"
| "has_max_time (AllStop strategies) = list_ex has_max_time strategies"
| "has_max_time _ = False"

text \<open>A strategy the constructors can build: no empty composition, no user object inside.\<close>

fun stop_wf :: "'s stop \<Rightarrow> bool" where
  "stop_wf (AnyStop ss) \<longleftrightarrow> ss \<noteq> [] \<and> list_all stop_wf ss"
| "stop_wf (AllStop ss) \<longleftrightarrow> ss \<noteq> [] \<and> list_all stop_wf ss"
| "stop_wf (StopAfterAttempt n) \<longleftrightarrow> 0 < n"
| "stop_wf (StopAfterDelay d) \<longleftrightarrow> num_le (PInt 0) d"
| "stop_wf _ \<longleftrightarrow> True"

fun builtin_stop :: "'s stop \<Rightarrow> bool" where
  "builtin_stop (AnyStop ss) \<longleftrightarrow> list_all builtin_stop ss"
| "builtin_stop (AllStop ss) \<longleftrightarrow> list_all builtin_stop ss"
| "builtin_stop (UserStop _) \<longleftrightarrow> False"
| "builtin_stop _ \<longleftrightarrow> True"

section \<open>What the analyses guarantee\<close>

text \<open>The decision of a strategy without user objects, as a plain boolean.\<close>

fun stops :: "'s stop \<Rightarrow> int \<Rightarrow> flt \<Rightarrow> bool" where
  "stops (StopAfterAttempt n) k e \<longleftrightarrow> n \<le> k"
| "stops (StopAfterDelay d) k e \<longleftrightarrow> num_le d (PFlt e)"
| "stops StopForever k e \<longleftrightarrow> False"
| "stops (AnyStop ss) k e \<longleftrightarrow> list_ex (\<lambda>s. stops s k e) ss"
| "stops (AllStop ss) k e \<longleftrightarrow> list_all (\<lambda>s. stops s k e) ss"
| "stops (UserStop _) k e \<longleftrightarrow> False"

lemma py_any_return: "py_any (map (\<lambda>x. py_return (f x)) xs) = py_return (list_ex f xs)"
  by (induction xs) auto

lemma py_all_return: "py_all (map (\<lambda>x. py_return (f x)) xs) = py_return (list_all f xs)"
  by (induction xs) auto

lemma should_stop_builtin: "builtin_stop s \<Longrightarrow> should_stop s k e = py_return (stops s k e)"
proof (induction s k e rule: should_stop.induct)
  case (4 ss k e)
  then have "map (\<lambda>s. should_stop s k e) ss = map (\<lambda>s. py_return (stops s k e)) ss"
    by (auto simp: list_all_iff)
  then show ?case by (simp only: should_stop.simps stops.simps py_any_return)
next
  case (5 ss k e)
  then have "map (\<lambda>s. should_stop s k e) ss = map (\<lambda>s. py_return (stops s k e)) ss"
    by (auto simp: list_all_iff)
  then show ?case by (simp only: should_stop.simps stops.simps py_all_return)
qed auto

lemma stop_infinite_never: "stop_is_infinite s \<Longrightarrow> never True (should_stop s k e)"
  by (induction s k e rule: should_stop.induct)
    (auto simp: list_ex_iff list_all_iff intro: never_map)

lemma num_le_zero_trans:
  assumes "num_le d (PInt 0)" "0 \<le> e"
  shows "num_le d (PFlt e)"
  using assms by (cases d) (auto simp: num_le_def sec_def fl_inf_def mult_less_0_iff split: if_splits)

lemma stops_first_never:
  "stops_after_first_attempt s \<Longrightarrow> 1 \<le> k \<Longrightarrow> 0 \<le> e \<Longrightarrow> never False (should_stop s k e)"
  by (induction s k e rule: should_stop.induct)
    (auto simp: list_ex_iff list_all_iff num_le_zero_trans intro: never_map)

lemma known_limits_mem:
  assumes "known_limits ls \<noteq> []"
  shows "fold min (tl (known_limits ls)) (hd (known_limits ls)) \<in> set (known_limits ls)"
proof (cases "known_limits ls")
  case (Cons x xs)
  have "Min (set (x # xs)) \<in> set (x # xs)" by (rule Min_in) simp_all
  then show ?thesis by (simp only: Cons list.sel Min.set_eq_fold)
qed (use assms in simp)

lemma set_known_limits: "n \<in> set (known_limits ls) \<longleftrightarrow> Some n \<in> set ls"
  by (force simp: known_limits_def)

lemma fold_max_ge: "(x::int) \<in> set (y # ys) \<Longrightarrow> x \<le> fold max ys y"
  using Max_ge [of "set (y # ys)" x] by (simp only: Max.set_eq_fold finite_set)

lemma known_limit_never:
  "known_attempt_limit s = Some n \<Longrightarrow> n \<le> k \<Longrightarrow> never False (should_stop s k e)"
proof (induction s k e arbitrary: n rule: should_stop.induct)
  case (4 ss k e)
  let ?ls = "map known_attempt_limit ss"
  from 4(2) have ne: "known_limits ?ls \<noteq> []"
    and n: "n = fold min (tl (known_limits ?ls)) (hd (known_limits ?ls))"
    by (auto simp: Let_def split: if_splits)
  from known_limits_mem [OF ne] obtain s where s: "s \<in> set ss" "known_attempt_limit s = Some n"
    by (auto simp: n set_known_limits)
  have "never False (should_stop s k e)" by (rule 4(1) [OF s(1,2) 4(3)])
  then show ?case using s(1) by (auto intro: never_map)
next
  case (5 ss k e)
  let ?ls = "map known_attempt_limit ss"
  from 5(2) have all: "\<forall>s\<in>set ss. \<exists>m. known_attempt_limit s = Some m"
    and n: "n = fold max (tl (known_limits ?ls)) (hd (known_limits ?ls))"
    by (auto simp: Let_def list_all_iff split: if_splits)
  have "never False (should_stop s k e)" if s: "s \<in> set ss" for s
  proof -
    obtain m where m: "known_attempt_limit s = Some m" using all s by blast
    then have mem: "m \<in> set (known_limits ?ls)" using s by (force simp: set_known_limits)
    then have "m \<le> n" unfolding n by (cases "known_limits ?ls") (use fold_max_ge in auto)
    with 5(1) [OF s m] 5(3) show ?thesis by simp
  qed
  then show ?case by (auto intro: never_map)
qed auto

lemma stops_mono:
  "stops s k e \<Longrightarrow> k \<le> k' \<Longrightarrow> e \<le> e' \<Longrightarrow> flt_ok e \<Longrightarrow> flt_ok e' \<Longrightarrow> stops s k' e'"
proof (induction s k e rule: stops.induct)
  case (2 d k e)
  then have "\<bar>e\<bar> \<le> fl_inf" "\<bar>e'\<bar> \<le> fl_inf" by (simp_all add: flt_ok_def)
  with 2 show ?case by (cases d) (auto simp: num_le_def fl_inf_def split: if_splits)
qed (auto simp: list_ex_iff list_all_iff)

lemma no_max_time_stops: "\<not> has_max_time s \<Longrightarrow> stops s k e = stops s k e'"
  by (induction s k e rule: stops.induct) (auto simp: list_ex_iff list_all_iff)

lemma known_limits_None: "list_all (\<lambda>l. l = None) ls \<Longrightarrow> known_limits ls = []"
  by (induction ls) (auto simp: known_limits_def)

lemma infinite_no_limit: "stop_is_infinite s \<Longrightarrow> known_attempt_limit s = None"
proof (induction s rule: known_attempt_limit.induct)
  case (4 ss)
  then have "list_all (\<lambda>l. l = None) (map known_attempt_limit ss)" by (auto simp: list_all_iff)
  from known_limits_None [OF this] show ?case by simp
qed auto

section \<open>Properties\<close>

text \<open>
  C12: the limit the diagnostics report for a strategy tree is a real one. From that attempt on no
  evaluation of \<open>should_stop\<close> lets the execution continue, whatever user strategies the tree also
  contains: it stops, or one of those raises.
\<close>

theorem known_attempt_limit_sound:
  "known_attempt_limit s = Some n \<Longrightarrow> n \<le> k \<Longrightarrow> fst (should_stop s k e w) \<noteq> Ok False"
  using known_limit_never [of s n k e] by (auto simp: never_def)

theorem known_attempt_limit_sound_witness:
  "fst (should_stop (AnyStop [StopForever, AllStop [StopAfterAttempt 3, StopAfterAttempt 5]])
     5 (sec 1) ()) \<noteq> Ok False"
  by (rule known_attempt_limit_sound [where n = 5]) (simp_all add: known_limits_def)

text \<open>
  C13: a strategy the diagnostics call infinite never stops an execution, and has no attempt limit.
\<close>

theorem stop_is_infinite_sound:
  "stop_is_infinite s \<Longrightarrow> fst (should_stop s k e w) \<noteq> Ok True \<and> known_attempt_limit s = None"
  using stop_infinite_never [of s k e] infinite_no_limit by (auto simp: never_def)

theorem stop_is_infinite_sound_witness:
  "fst (should_stop (AllStop [StopAfterAttempt 3, StopForever]) 7 (sec 1) ()) \<noteq> Ok True"
  using stop_is_infinite_sound [of "AllStop [StopAfterAttempt 3, StopForever]" 7 "sec 1" "()"] by simp

text \<open>
  The flattening the builder methods do when they combine strategies changes neither the
  decision nor the effects nor the exception of any evaluation.
\<close>

lemma flatten_stop_equivalent:
  "should_stop (AnyStop (flatten_any_stop_strategies ss)) k e = should_stop (AnyStop ss) k e
    \<and> should_stop (AllStop (flatten_all_stop_strategies ss)) k e = should_stop (AllStop ss) k e"
  by (simp add: any_stops.flatten_eval all_stops.flatten_eval)

text \<open>
  A built-in strategy that has stopped stays stopped at every later attempt and time, and
  deciding has no effect. This is what makes the look-ahead of \<open>should_stop_before_sleep\<close> sound.
\<close>

lemma builtin_stop_monotone:
  assumes "builtin_stop s" "should_stop s k e w = (Ok True, v)"
    and "k \<le> k'" "e \<le> e'" "flt_ok e" "flt_ok e'"
  shows "v = w \<and> should_stop s k' e' w' = (Ok True, w')"
  using assms stops_mono [OF _ assms(3-6), of s]
  by (simp add: should_stop_builtin py_return_def)

end
