(* ===== verification/Callables.thy ===== *)
theory Callables
  imports Main World
begin

text \<open>
  \<open>internal/callables.py\<close>: which kinds of callable the library accepts where. A callable is
  described by what \<open>inspect\<close> sees of it: a function of some kind, a \<open>functools.wraps\<close> wrapper
  (followed by \<open>inspect.unwrap\<close>), a \<open>functools.partial\<close>, a class, an instance whose class defines
  \<open>__call__\<close>, or an object that cannot be called.
\<close>

section \<open>Kinds of callable\<close>

datatype function_kind = PlainFunction | CoroutineFunction | GeneratorFunction | AsyncGenFunction

datatype shape =
    Function function_kind
  | Wrapped shape
  | Partial shape
  | ClassObject string
  | Instance shape
  | NotCallable string

text \<open>A Python object passed where a callable is expected: its shape and what calling it does.\<close>

datatype 'f pyfun = PyFun (pf_shape: shape) (pf_run: 'f)

fun inspect_unwrap :: "shape \<Rightarrow> shape" where
  "inspect_unwrap (Wrapped s) = inspect_unwrap s"
| "inspect_unwrap s = s"

lemma size_inspect_unwrap: "size (inspect_unwrap s) \<le> size s"
  by (induction s) auto

text \<open>\<open>_unwrap_partial\<close>\<close>

function unwrap_partial :: "shape \<Rightarrow> shape" where
  "unwrap_partial s =
     (case inspect_unwrap s of Partial f \<Rightarrow> unwrap_partial f | target \<Rightarrow> target)"
  by pat_completeness auto
termination
proof (relation "measure size")
  fix s f
  assume "inspect_unwrap s = Partial f"
  then show "(f, s) \<in> measure size" using size_inspect_unwrap [of s] by simp
qed simp

declare unwrap_partial.simps [simp del]

definition is_class :: "shape \<Rightarrow> bool" where
  "is_class s = (case s of ClassObject _ \<Rightarrow> True | _ \<Rightarrow> False)"

definition is_callable :: "shape \<Rightarrow> bool" where
  "is_callable s = (case s of NotCallable _ \<Rightarrow> False | _ \<Rightarrow> True)"

definition has_kind :: "function_kind \<Rightarrow> shape \<Rightarrow> bool" where
  "has_kind k s \<longleftrightarrow> s = Function k"

text \<open>\<open>type(value).__name__\<close>\<close>

fun shape_type :: "shape \<Rightarrow> string" where
  "shape_type (NotCallable t) = t"
| "shape_type (ClassObject _) = ''type''"
| "shape_type (Partial _) = ''partial''"
| "shape_type (Instance _) = ''object''"
| "shape_type _ = ''function''"

text \<open>
  \<open>type(target).__call__\<close>: the method of an instance's class; for functions and the rest a slot of
  the interpreter, which is a plain callable.
\<close>

definition type_call :: "shape \<Rightarrow> shape" where
  "type_call s = (case s of Instance c \<Rightarrow> c | _ \<Rightarrow> Function PlainFunction)"

definition is_async_callable :: "shape \<Rightarrow> bool" where
  "is_async_callable function =
     (let target = unwrap_partial function
      in if is_class target then False
         else if has_kind CoroutineFunction target then True
         else if \<not> is_callable target then False
         else has_kind CoroutineFunction (unwrap_partial (type_call target)))"

definition ensure_callable :: "string \<Rightarrow> shape \<Rightarrow> unit res" where
  "ensure_callable name value =
     (if \<not> is_callable value
      then Raise (config_error (name @ '' must be callable, got '' @ shape_type value))
      else Ok ())"

definition generator_error :: exn where
  "generator_error = config_error ''Generator functions are not supported''"

definition async_generator_error :: exn where
  "async_generator_error = config_error ''Async generator functions are not supported''"

definition ensure_retryable_callable :: "shape \<Rightarrow> unit res" where
  "ensure_retryable_callable function =
     (let target = unwrap_partial function
      in if has_kind GeneratorFunction target then Raise generator_error
         else if has_kind AsyncGenFunction target then Raise async_generator_error
         else if is_class target then Ok ()
         else if \<not> is_callable target
         then Raise (config_error (''function must be callable, got '' @ shape_type target))
         else let call_target = unwrap_partial (type_call target)
              in if has_kind GeneratorFunction call_target then Raise generator_error
                 else if has_kind AsyncGenFunction call_target then Raise async_generator_error
                 else Ok ())"

definition ensure_sync_retryable_callable :: "shape \<Rightarrow> unit res" where
  "ensure_sync_retryable_callable function =
     res_bind (ensure_retryable_callable function) (\<lambda>_.
       if is_async_callable function
       then Raise (config_error ''run() does not accept async callables'')
       else Ok ())"

definition ensure_sync_sleeper :: "shape \<Rightarrow> unit res" where
  "ensure_sync_sleeper sleep =
     (if \<not> is_callable sleep
      then Raise (config_error (''sleep must be callable, got '' @ shape_type sleep))
      else if is_async_callable sleep
      then Raise (config_error ''sync sleep must not be an async callable'')
      else Ok ())"

section \<open>Results of async calls\<close>

text \<open>What calling an async function gives: an awaitable, or a value that is not one.\<close>

datatype 's called = NotAwaitable pyval | Awaitable "('s, pyval) py"

fun ensure_awaitable_result :: "'s called \<Rightarrow> ('s, pyval) py res" where
  "ensure_awaitable_result (Awaitable m) = Ok m"
| "ensure_awaitable_result (NotAwaitable v) =
     Raise (config_error ''run_async() requires the callable to return an awaitable'')"

fun ensure_awaitable_sleep_result :: "'s called \<Rightarrow> ('s, pyval) py res" where
  "ensure_awaitable_sleep_result (Awaitable m) = Ok m"
| "ensure_awaitable_sleep_result (NotAwaitable v) =
     Raise (config_error (''async_sleep must return an awaitable, got '' @ type_name v))"

section \<open>Exception classes given as exhaustion behaviour\<close>

text \<open>
  A class: its name and bases, the argument lists its inspectable signature binds (\<open>None\<close> when
  \<open>inspect.signature\<close> fails), and its constructor, from the message argument or none to an
  instance; \<open>None\<close> is an instance that is not a \<open>BaseException\<close>.
\<close>

record 's exc_class =
  ec_type :: exc_type
  ec_signature :: "(bool \<times> bool) option"
  ec_new :: "string option \<Rightarrow> ('s, exn option) py"

datatype call_mode = MessageMode | NoArgMode | UnknownMode

definition cannot_instantiate :: "exc_type \<Rightarrow> exn" where
  "cannot_instantiate c =
     config_error (et_name c @ '' cannot be instantiated with a message or no arguments'')"

definition exception_class_call_mode :: "'s exc_class \<Rightarrow> call_mode res" where
  "exception_class_call_mode c =
     (case ec_signature c of
        None \<Rightarrow> Ok UnknownMode
      | Some (binds_message, binds_nothing) \<Rightarrow>
          if binds_message then Ok MessageMode
          else if binds_nothing then Ok NoArgMode
          else Raise (cannot_instantiate (ec_type c)))"

definition validate_exception_class :: "'s exc_class \<Rightarrow> unit res" where
  "validate_exception_class c = res_bind (exception_class_call_mode c) (\<lambda>_. Ok ())"

text \<open>\<open>except TypeError: h\<close>\<close>

definition catch_type_error :: "('s, 'a) py \<Rightarrow> ('s, 'a) py \<Rightarrow> ('s, 'a) py" where
  "catch_type_error m h =
     py_catch m (\<lambda>e. if isinstance_exn e TypeError_t then h else py_raise e)"

definition instantiate_exception_class :: "'s exc_class \<Rightarrow> string \<Rightarrow> ('s, exn) py" where
  "instantiate_exception_class c message =
     py_bind (py_lift (exception_class_call_mode c)) (\<lambda>mode.
     py_bind
       (case mode of
          MessageMode \<Rightarrow> ec_new c (Some message)
        | NoArgMode \<Rightarrow> ec_new c None
        | UnknownMode \<Rightarrow>
            catch_type_error (ec_new c (Some message))
              (catch_type_error (ec_new c None) (py_raise (cannot_instantiate (ec_type c)))))
       (\<lambda>instance. case instance of
          None \<Rightarrow> py_raise (config_error (et_name (ec_type c) @ '' did not return a BaseException''))
        | Some e \<Rightarrow> py_return e))"

section \<open>Which callables are accepted\<close>

text \<open>Wrappers and partials are transparent, in any nesting.\<close>

lemma unwrap_partial_step [simp]:
  "unwrap_partial (Wrapped s) = unwrap_partial s"
  "unwrap_partial (Partial s) = unwrap_partial s"
  "unwrap_partial (Function k) = Function k"
  "unwrap_partial (ClassObject n) = ClassObject n"
  "unwrap_partial (Instance c) = Instance c"
  "unwrap_partial (NotCallable t) = NotCallable t"
  by (simp_all add: unwrap_partial.simps [of "Wrapped s"] unwrap_partial.simps [of s]
      unwrap_partial.simps [of "Partial s"] unwrap_partial.simps [of "Function k"]
      unwrap_partial.simps [of "ClassObject n"] unwrap_partial.simps [of "Instance c"]
      unwrap_partial.simps [of "NotCallable t"])

lemma unwrap_partial_target:
  "(\<exists>k. unwrap_partial s = Function k) \<or> (\<exists>n. unwrap_partial s = ClassObject n)
    \<or> (\<exists>c. unwrap_partial s = Instance c) \<or> (\<exists>t. unwrap_partial s = NotCallable t)"
  by (induction s) auto

text \<open>The callables \<open>run()\<close> accepts.\<close>

definition sync_ok :: "shape \<Rightarrow> bool" where
  "sync_ok target \<longleftrightarrow> is_class target \<or> target = Function PlainFunction
     \<or> (\<exists>c. target = Instance c \<and>
          (unwrap_partial c = Function PlainFunction \<or> is_class (unwrap_partial c)
           \<or> (\<exists>d. unwrap_partial c = Instance d) \<or> (\<exists>t. unwrap_partial c = NotCallable t)))"

lemmas callable_defs = ensure_sync_retryable_callable_def ensure_retryable_callable_def
  is_async_callable_def is_class_def is_callable_def has_kind_def type_call_def

lemma plain_function_callable [simp]:
  "ensure_callable name (Function PlainFunction) = Ok ()" "\<not> is_async_callable (Function PlainFunction)"
  by (simp_all add: ensure_callable_def callable_defs unwrap_partial.simps Let_def)

lemma ensure_sync_retryable_iff:
  "ensure_sync_retryable_callable s = Ok () \<longleftrightarrow> sync_ok (unwrap_partial s)"
proof -
  have inst: "ensure_sync_retryable_callable s = Ok () \<longleftrightarrow> sync_ok (unwrap_partial s)"
    if "unwrap_partial s = Instance c" for c
    using that unwrap_partial_target [of c]
    by (auto simp: callable_defs sync_ok_def Let_def, metis function_kind.exhaust)
  show ?thesis
    using unwrap_partial_target [of s]
  proof (elim disjE exE)
    fix k assume "unwrap_partial s = Function k"
    then show ?thesis by (cases k) (simp_all add: callable_defs sync_ok_def Let_def)
  qed (auto simp: inst, auto simp: callable_defs sync_ok_def Let_def)
qed

end
