(* ===== verification/Conditions.thy ===== *)
theory Conditions
  imports Main Callables
begin

text \<open>
  \<open>conditions/\<close>: the retry conditions with the checks of their constructors, the composition
  operators, the two decisions \<open>should_retry_exception\<close> and \<open>should_retry_result\<close>, the flattening of
  \<open>policy.py\<close> and the analyses of \<open>internal/policy_diagnostics.py\<close> over a condition tree. A callback
  returns the truth value of its result; \<open>UserCondition\<close> is any other object with the protocol.
\<close>

section \<open>Conditions\<close>

datatype 's condition =
    ExceptionCondition "exc_type list"
  | ResultCondition "pyval \<Rightarrow> ('s, bool) py"
  | CustomCondition "exn option \<Rightarrow> pyval \<Rightarrow> ('s, bool) py"
  | AnyCondition "'s condition list"
  | AllCondition "'s condition list"
  | UserCondition "exn \<Rightarrow> ('s, bool) py" "pyval \<Rightarrow> ('s, bool) py"

text \<open>The class in a validated argument.\<close>

fun exc_type_of :: "pyval \<Rightarrow> exc_type" where
  "exc_type_of (VExcType c) = c"
| "exc_type_of _ = Exception_t"

definition mk_ExceptionCondition :: "pyval list \<Rightarrow> 's condition res" where
  "mk_ExceptionCondition exception_types =
     res_bind (ensure_exception_types exception_types) (\<lambda>_.
       Ok (ExceptionCondition (map exc_type_of exception_types)))"

definition mk_ResultCondition :: "(pyval \<Rightarrow> ('s, bool) py) pyfun \<Rightarrow> 's condition res" where
  "mk_ResultCondition predicate =
     res_bind (ensure_callable ''predicate'' (pf_shape predicate)) (\<lambda>_.
       Ok (ResultCondition (pf_run predicate)))"

definition mk_CustomCondition ::
    "(exn option \<Rightarrow> pyval \<Rightarrow> ('s, bool) py) pyfun \<Rightarrow> 's condition res" where
  "mk_CustomCondition callback =
     res_bind (ensure_callable ''callback'' (pf_shape callback)) (\<lambda>_.
       Ok (CustomCondition (pf_run callback)))"

definition mk_AnyCondition :: "'s condition list \<Rightarrow> 's condition res" where
  "mk_AnyCondition conditions =
     (if conditions = [] then Raise (config_error ''AnyCondition requires at least one condition'')
      else Ok (AnyCondition conditions))"

definition mk_AllCondition :: "'s condition list \<Rightarrow> 's condition res" where
  "mk_AllCondition conditions =
     (if conditions = [] then Raise (config_error ''AllCondition requires at least one condition'')
      else Ok (AllCondition conditions))"

text \<open>\<open>ConditionMixin.__or__\<close> and \<open>ConditionMixin.__and__\<close>\<close>

definition condition_or :: "'s condition \<Rightarrow> 's condition \<Rightarrow> 's condition res" where
  "condition_or self other = mk_AnyCondition [self, other]"

definition condition_and :: "'s condition \<Rightarrow> 's condition \<Rightarrow> 's condition res" where
  "condition_and self other = mk_AllCondition [self, other]"

fun should_retry_exception :: "'s condition \<Rightarrow> exn \<Rightarrow> ('s, bool) py" where
  "should_retry_exception (ExceptionCondition types) error =
     py_return (list_ex (isinstance_exn error) types)"
| "should_retry_exception (ResultCondition predicate) error = py_return False"
| "should_retry_exception (CustomCondition callback) error = callback (Some error) VNone"
| "should_retry_exception (AnyCondition conditions) error =
     py_any (map (\<lambda>condition. should_retry_exception condition error) conditions)"
| "should_retry_exception (AllCondition conditions) error =
     py_all (map (\<lambda>condition. should_retry_exception condition error) conditions)"
| "should_retry_exception (UserCondition on_exception on_result) error = on_exception error"

fun should_retry_result :: "'s condition \<Rightarrow> pyval \<Rightarrow> ('s, bool) py" where
  "should_retry_result (ExceptionCondition types) v = py_return False"
| "should_retry_result (ResultCondition predicate) v = predicate v"
| "should_retry_result (CustomCondition callback) v = callback None v"
| "should_retry_result (AnyCondition conditions) v =
     py_any (map (\<lambda>condition. should_retry_result condition v) conditions)"
| "should_retry_result (AllCondition conditions) v =
     py_all (map (\<lambda>condition. should_retry_result condition v) conditions)"
| "should_retry_result (UserCondition on_exception on_result) v = on_result v"

section \<open>Flattening\<close>

text \<open>\<open>_flatten_any_conditions\<close> and \<open>_flatten_all_conditions\<close> of \<open>policy.py\<close>\<close>

fun flatten_any_conditions :: "'s condition list \<Rightarrow> 's condition list" where
  "flatten_any_conditions [] = []"
| "flatten_any_conditions (AnyCondition inner # rest) = inner @ flatten_any_conditions rest"
| "flatten_any_conditions (condition # rest) = condition # flatten_any_conditions rest"

fun flatten_all_conditions :: "'s condition list \<Rightarrow> 's condition list" where
  "flatten_all_conditions [] = []"
| "flatten_all_conditions (AllCondition inner # rest) = inner @ flatten_all_conditions rest"
| "flatten_all_conditions (condition # rest) = condition # flatten_all_conditions rest"

definition any_condition_parts :: "'s condition \<Rightarrow> 's condition list option" where
  "any_condition_parts c = (case c of AnyCondition cs \<Rightarrow> Some cs | _ \<Rightarrow> None)"

definition all_condition_parts :: "'s condition \<Rightarrow> 's condition list option" where
  "all_condition_parts c = (case c of AllCondition cs \<Rightarrow> Some cs | _ \<Rightarrow> None)"

lemma flatten_any_conditions_Cons:
  "flatten_any_conditions (c # cs)
    = (case any_condition_parts c of None \<Rightarrow> [c] | Some inner \<Rightarrow> inner) @ flatten_any_conditions cs"
  by (cases c) (simp_all add: any_condition_parts_def)

lemma flatten_all_conditions_Cons:
  "flatten_all_conditions (c # cs)
    = (case all_condition_parts c of None \<Rightarrow> [c] | Some inner \<Rightarrow> inner) @ flatten_all_conditions cs"
  by (cases c) (simp_all add: all_condition_parts_def)

interpretation any_errors: combination py_any "\<lambda>c. should_retry_exception c e" any_condition_parts
    flatten_any_conditions for e
  by unfold_locales
    (auto simp: py_any_nested any_condition_parts_def flatten_any_conditions_Cons split: condition.splits cong: if_cong)

interpretation any_results: combination py_any "\<lambda>c. should_retry_result c v" any_condition_parts
    flatten_any_conditions for v
  by unfold_locales
    (auto simp: py_any_nested any_condition_parts_def flatten_any_conditions_Cons split: condition.splits cong: if_cong)

interpretation all_errors: combination py_all "\<lambda>c. should_retry_exception c e" all_condition_parts
    flatten_all_conditions for e
  by unfold_locales
    (auto simp: py_all_nested all_condition_parts_def flatten_all_conditions_Cons split: condition.splits cong: if_cong)

interpretation all_results: combination py_all "\<lambda>c. should_retry_result c v" all_condition_parts
    flatten_all_conditions for v
  by unfold_locales
    (auto simp: py_all_nested all_condition_parts_def flatten_all_conditions_Cons split: condition.splits cong: if_cong)

section \<open>Analyses of a condition tree\<close>

fun has_result_condition :: "'s condition \<Rightarrow> bool" where
  "has_result_condition (ResultCondition _) = True"
| "has_result_condition (AnyCondition cs) = list_ex has_result_condition cs"
| "has_result_condition (AllCondition cs) = list_ex has_result_condition cs"
| "has_result_condition _ = False"

fun has_broad_exception :: "'s condition \<Rightarrow> bool" where
  "has_broad_exception (ExceptionCondition types) = list_ex (\<lambda>t. t = Exception_t) types"
| "has_broad_exception (AnyCondition cs) = list_ex has_broad_exception cs"
| "has_broad_exception (AllCondition cs) = list_all has_broad_exception cs"
| "has_broad_exception _ = False"

fun has_broad_os_error :: "'s condition \<Rightarrow> bool" where
  "has_broad_os_error (ExceptionCondition types) =
     list_ex (\<lambda>t. t = OSError_t \<or> t = Exception_t) types"
| "has_broad_os_error (AnyCondition cs) = list_ex has_broad_os_error cs"
| "has_broad_os_error (AllCondition cs) = list_all has_broad_os_error cs"
| "has_broad_os_error _ = False"

lemma broad_exception_never:
  "has_broad_exception c \<Longrightarrow> is_exception e \<Longrightarrow> never False (should_retry_exception c e)"
  by (induction c e rule: should_retry_exception.induct)
    (auto simp: list_ex_iff list_all_iff intro: never_map)

lemma os_error_is_exception: "isinstance_exn e OSError_t \<Longrightarrow> is_exception e"
  by (erule isinstance_mono) (rule class_order)

lemma broad_os_error_never:
  "has_broad_os_error c \<Longrightarrow> isinstance_exn e OSError_t \<Longrightarrow> never False (should_retry_exception c e)"
  by (induction c e rule: should_retry_exception.induct)
    (auto simp: list_ex_iff list_all_iff intro: never_map dest: os_error_is_exception)

text \<open>Conditions made of exception classes only, the kind \<open>on()\<close> and \<open>or_on()\<close> build.\<close>

fun exception_only :: "'s condition \<Rightarrow> bool" where
  "exception_only (ExceptionCondition types) \<longleftrightarrow> list_all (\<lambda>t. issubclass t Exception_t) types"
| "exception_only (AnyCondition cs) \<longleftrightarrow> list_all exception_only cs"
| "exception_only (AllCondition cs) \<longleftrightarrow> cs \<noteq> [] \<and> list_all exception_only cs"
| "exception_only _ \<longleftrightarrow> False"

lemma mk_ExceptionCondition_only: "mk_ExceptionCondition vs = Ok c \<Longrightarrow> exception_only c"
  using ensure_exception_type_list_iff [of vs]
  by (fastforce simp: mk_ExceptionCondition_def res_bind_Ok_iff ensure_exception_types_def
      list_all_iff split: if_splits)

lemma exception_only_exn:
  "exception_only c \<Longrightarrow> \<not> is_exception e \<Longrightarrow> never True (should_retry_exception c e)"
proof (induction c e rule: should_retry_exception.induct)
  case (1 types e)
  then show ?case by (auto simp: list_all_iff list_ex_iff simp flip: less_eq_exc_type_def dest: isinstance_mono)
next
  case (5 cs e)
  then obtain c where "c \<in> set cs" by (cases cs) auto
  with 5 show ?case by (auto simp: list_all_iff intro: never_map)
qed (auto simp: list_all_iff intro: never_map)

lemma exception_only_result: "exception_only c \<Longrightarrow> never True (should_retry_result c v)"
proof (induction c v rule: should_retry_result.induct)
  case (5 cs v)
  then obtain c where "c \<in> set cs" by (cases cs) auto
  with 5 show ?case by (auto simp: list_all_iff intro: never_map)
qed (auto simp: list_all_iff intro: never_map)

section \<open>Properties\<close>

text \<open>
  Flattening combined conditions changes no decision, effect or exception, on exceptions and
  on values.
\<close>

lemma flatten_conditions_equivalent:
  "should_retry_exception (AnyCondition (flatten_any_conditions cs)) e
      = should_retry_exception (AnyCondition cs) e
    \<and> should_retry_result (AnyCondition (flatten_any_conditions cs)) v
      = should_retry_result (AnyCondition cs) v
    \<and> should_retry_exception (AllCondition (flatten_all_conditions cs)) e
      = should_retry_exception (AllCondition cs) e
    \<and> should_retry_result (AllCondition (flatten_all_conditions cs)) v
      = should_retry_result (AllCondition cs) v"
  by (simp add: any_errors.flatten_eval any_results.flatten_eval all_errors.flatten_eval all_results.flatten_eval)

text \<open>
  C15: what the diagnostics report as a broad condition is one: every \<open>Exception\<close>, or every
  \<open>OSError\<close>, is retried, or a user callback of the tree raises.
\<close>

theorem broad_conditions_sound:
  "(has_broad_exception c \<and> is_exception e) \<or> (has_broad_os_error c \<and> isinstance_exn e OSError_t)
    \<Longrightarrow> fst (should_retry_exception c e w) \<noteq> Ok False"
  using broad_exception_never [of c e] broad_os_error_never [of c e] by (auto simp: never_def)

theorem broad_conditions_sound_witness:
  "fst (should_retry_exception (AllCondition [ExceptionCondition [Exception_t],
      AnyCondition [ExceptionCondition [OSError_t], ExceptionCondition [ValueError_t]]])
    (new_exn TimeoutError_t ''slow'') ()) \<noteq> Ok False"
  by (rule broad_conditions_sound)
    (simp add: isinstance_exn_def new_exn_def exc_type_defs)

end
