(* ===== verification/PyText.thy ===== *)
theory PyText
  imports Main World
begin

text \<open>
  Numbers as text and quotients: the decimal digits of an integer, \<open>f"{x:.4f}"\<close>, \<open>round(x, 3)\<close>,
  the true division of integers, and \<open>str.join\<close>. Python rounds all of them half to even on the
  exact value.
\<close>

section \<open>Rounded quotients\<close>

text \<open>\<open>a / d\<close> rounded to an integer, ties to even, for positive \<open>d\<close>.\<close>

definition rdiv :: "int \<Rightarrow> int \<Rightarrow> int" where
  "rdiv a d =
     (let q = a div d; r = a mod d
      in if 2 * r < d then q else if d < 2 * r then q + 1 else if even q then q else q + 1)"

lemma rdiv_bounds: "a div d \<le> rdiv a d \<and> rdiv a d \<le> a div d + 1"
  by (auto simp: rdiv_def Let_def)

lemma rdiv_exact [simp]: "0 < d \<Longrightarrow> rdiv (q * d) d = q"
  by (simp add: rdiv_def Let_def)

lemma rdiv_nonneg: "0 \<le> a \<Longrightarrow> 0 < d \<Longrightarrow> 0 \<le> rdiv a d"
  using rdiv_bounds [of a d] pos_imp_zdiv_nonneg_iff [of d a] by simp

lemma div_less_of_less_mult:
  fixes a q d :: int
  assumes "a < q * d" "0 < d"
  shows "a div d < q"
proof (rule ccontr)
  assume "\<not> a div d < q"
  then have "q * d \<le> a div d * d" using assms(2) by (intro mult_right_mono) auto
  also have "\<dots> = a - a mod d" by (simp add: minus_mod_eq_div_mult)
  also have "\<dots> \<le> a" using pos_mod_sign [OF assms(2)] by simp
  finally show False using assms(1) by simp
qed

lemma rdiv_le:
  assumes "a \<le> q * d" "0 < d"
  shows "rdiv a d \<le> q"
proof (cases "a = q * d")
  case False
  then have "a < q * d" using assms by simp
  then have "a div d < q" using assms(2) by (rule div_less_of_less_mult)
  then show ?thesis using rdiv_bounds [of a d] by simp
qed (use assms in simp)

text \<open>\<open>a / d\<close> on non-negative integers, correctly rounded to a double.\<close>

definition fl_ratio :: "int \<Rightarrow> int \<Rightarrow> flt" where
  "fl_ratio a d =
     (let n = a * 2 ^ 1074; k = ulp_exp (n div d) in rdiv n (d * 2 ^ k) * 2 ^ k)"

lemma fl_ratio_unit:
  assumes "0 \<le> a" "a \<le> d" "0 < d"
  shows "0 \<le> fl_ratio a d \<and> fl_ratio a d \<le> sec 1"
proof -
  define u :: nat where "u = 1074"
  define n k where "n = a * 2 ^ u" and "k = ulp_exp (n div d)"
  have n: "0 \<le> n" "n \<le> d * 2 ^ u" using assms by (simp_all add: n_def)
  have "n div d \<le> d * 2 ^ u div d" using n(2) assms(3) by (intro zdiv_mono1)
  then have "n div d \<le> 2 ^ u" using assms(3) by simp
  then have "k \<le> ulp_exp (2 ^ u)" unfolding k_def by (rule ulp_exp_mono)
  also have "\<dots> \<le> u"
  proof (cases "0 < ulp_exp (2 ^ u)")
    case True
    then have "(2::int) ^ (52 + ulp_exp (2 ^ u)) \<le> 2 ^ u" by (rule ulp_exp_lower)
    then show ?thesis by simp
  qed simp
  finally have split: "(2::int) ^ u = 2 ^ (u - k) * 2 ^ k" by (simp flip: power_add)
  have "n \<le> 2 ^ (u - k) * (d * 2 ^ k)" using n(2) unfolding split by (simp add: mult_ac)
  then have "rdiv n (d * 2 ^ k) \<le> 2 ^ (u - k)" using assms(3) by (intro rdiv_le) auto
  then have "rdiv n (d * 2 ^ k) * 2 ^ k \<le> 2 ^ (u - k) * 2 ^ k" by (rule mult_right_mono) simp
  also have "\<dots> = sec 1" unfolding split [symmetric] by (simp add: sec_def u_def)
  moreover have "fl_ratio a d = rdiv n (d * 2 ^ k) * 2 ^ k"
    unfolding fl_ratio_def Let_def n_def k_def u_def by (rule refl)
  ultimately show ?thesis using n(1) assms(3) by (simp add: rdiv_nonneg)
qed

text \<open>\<open>round(x, k)\<close>\<close>

definition py_round :: "nat \<Rightarrow> flt \<Rightarrow> flt" where
  "py_round k x =
     (if \<bar>x\<bar> = fl_inf then x
      else if x < 0 then - fl_ratio (rdiv (- x * 10 ^ k) (2 ^ 1074)) (10 ^ k)
      else fl_ratio (rdiv (x * 10 ^ k) (2 ^ 1074)) (10 ^ k))"

section \<open>Text\<close>

definition digit_char :: "nat \<Rightarrow> char" where
  "digit_char d = char_of (48 + d)"

fun nat_str :: "nat \<Rightarrow> string" where
  "nat_str n = (if n < 10 then [digit_char n] else nat_str (n div 10) @ [digit_char (n mod 10)])"

declare nat_str.simps [simp del]

definition int_str :: "int \<Rightarrow> string" where
  "int_str n = (if n < 0 then ''-'' @ nat_str (nat (- n)) else nat_str (nat n))"

text \<open>Exactly \<open>k\<close> digits, with leading zeros.\<close>

fun padded :: "nat \<Rightarrow> nat \<Rightarrow> string" where
  "padded 0 n = []"
| "padded (Suc k) n = padded k (n div 10) @ [digit_char (n mod 10)]"

text \<open>\<open>f"{x:.kf}"\<close>\<close>

definition fmt_fixed :: "nat \<Rightarrow> flt \<Rightarrow> string" where
  "fmt_fixed k x =
     (if x = fl_inf then ''inf'' else if x = - fl_inf then ''-inf''
      else let n = nat (rdiv (\<bar>x\<bar> * 10 ^ k) (2 ^ 1074))
           in (if x < 0 then ''-'' else []) @ nat_str (n div 10 ^ k) @ ''.'' @ padded k (n mod 10 ^ k))"

text \<open>\<open>separator.join(lines)\<close>\<close>

fun py_join :: "string \<Rightarrow> string list \<Rightarrow> string" where
  "py_join separator [] = []"
| "py_join separator [x] = x"
| "py_join separator (x # xs) = x @ separator @ py_join separator xs"

definition newline :: string where
  "newline = [char_of (10 :: nat)]"

text \<open>
  \<open>f"{x:g}"\<close>: six significant digits, without trailing zeros, with an exponent when it is below
  \<open>-4\<close> or above \<open>5\<close>. \<open>decimal_exponent n\<close> is the exponent of the first digit of \<open>n / 2 ^ 1074\<close>.
\<close>

definition decimal_exponent :: "nat \<Rightarrow> int" where
  "decimal_exponent n =
     (if 2 ^ 1074 \<le> n then int (length (nat_str (n div 2 ^ 1074))) - 1
      else - int (length (nat_str ((2 ^ 1074 + n - 1) div n - 1))))"

definition strip_zeros :: "string \<Rightarrow> string" where
  "strip_zeros s = rev (dropWhile (\<lambda>c. c = digit_char 0) (rev s))"

definition with_fraction :: "string \<Rightarrow> string \<Rightarrow> string" where
  "with_fraction whole fraction =
     (let digits = strip_zeros fraction
      in if digits = [] then whole else whole @ ''.'' @ digits)"

definition fmt_g :: "flt \<Rightarrow> string" where
  "fmt_g x =
     (if x = fl_inf then ''inf'' else if x = - fl_inf then ''-inf'' else if x = 0 then ''0''
      else let n = \<bar>x\<bar>;
               e0 = decimal_exponent (nat n);
               d0 = (if e0 \<le> 5 then rdiv (n * 10 ^ nat (5 - e0)) (2 ^ 1074)
                     else rdiv n (2 ^ 1074 * 10 ^ nat (e0 - 5)));
               (d, e) = (if d0 = 10 ^ 6 then (10 ^ 5, e0 + 1) else (d0, e0));
               s = nat_str (nat d)
           in (if x < 0 then ''-'' else []) @
              (if 0 \<le> e \<and> e < 6 then with_fraction (take (nat e + 1) s) (drop (nat e + 1) s)
               else if - 4 \<le> e \<and> e < 0
               then with_fraction ''0'' (replicate (nat (- e - 1)) (digit_char 0) @ s)
               else with_fraction (take 1 s) (drop 1 s) @ (if e < 0 then ''e-'' else ''e+'')
                 @ (if \<bar>e\<bar> < 10 then padded 2 (nat \<bar>e\<bar>) else nat_str (nat \<bar>e\<bar>))))"

lemma length_padded [simp]: "length (padded k n) = k"
  by (induction k arbitrary: n) auto

section \<open>Stripping\<close>

text \<open>\<open>s.strip()\<close>\<close>

definition strip :: "string \<Rightarrow> string" where
  "strip s = rev (dropWhile is_space (rev (dropWhile is_space s)))"

lemma strip_padded:
  assumes "blank a" "blank b" "s \<noteq> []" "\<not> is_space (hd s)" "\<not> is_space (last s)"
  shows "strip (a @ s @ b) = s"
proof -
  have drop: "dropWhile is_space (x @ y) = y" if "blank x" "y \<noteq> []" "\<not> is_space (hd y)" for x y
    using that by (cases y) (auto simp: blank_def list_all_iff dropWhile_append)
  have "dropWhile is_space (a @ s @ b) = s @ b" using assms by (intro drop) simp_all
  moreover have "dropWhile is_space (rev b @ rev s) = rev s"
    using assms by (intro drop) (simp_all add: blank_def hd_rev)
  ultimately show ?thesis by (simp add: strip_def)
qed

end
