(* ===== verification/Records.thy ===== *)
theory Records
  imports Main PyText
begin

text \<open>
  \<open>attempt.py\<close>, \<open>state.py\<close>, \<open>result.py\<close> and \<open>stats.py\<close>: the properties and reports of an attempt
  record, of the state snapshot a callback sees, of a final result, and the counters of a decorated
  function. The record types of attempts and results are those of the values theory.
\<close>

section \<open>\<open>AttemptRecord\<close>\<close>

definition attempt_duration :: "attempt \<Rightarrow> flt" where
  "attempt_duration a = fl_sub (ar_ended_at a) (ar_started_at a)"

definition attempt_succeeded :: "attempt \<Rightarrow> bool" where
  "attempt_succeeded a \<longleftrightarrow> ar_error a = None"

definition attempt_failed :: "attempt \<Rightarrow> bool" where
  "attempt_failed a \<longleftrightarrow> ar_error a \<noteq> None"

text \<open>\<open>sum(1 for attempt in attempts if ...)\<close>\<close>

definition count_attempts :: "(attempt \<Rightarrow> bool) \<Rightarrow> attempt list \<Rightarrow> nat" where
  "count_attempts p attempts = length (filter p attempts)"

lemma count_attempts_split:
  "count_attempts attempt_failed as + count_attempts attempt_succeeded as = length as"
  by (induction as) (auto simp: count_attempts_def attempt_failed_def attempt_succeeded_def)

definition last_of :: "'a list \<Rightarrow> 'a option" where
  "last_of xs = (if xs = [] then None else Some (last xs))"

section \<open>\<open>RetryState\<close>\<close>

record retry_state =
  st_function_name :: string
  st_attempt_number :: nat
  st_started_at :: flt
  st_elapsed :: flt
  st_attempts :: "attempt list"
  st_last_value :: pyval
  st_last_error :: "exn option"
  st_has_value :: bool
  st_next_delay :: "flt option"
  st_retry_cause :: "retry_cause option"
  st_will_retry :: bool
  st_will_stop :: bool
  st_policy_delay :: "flt option"
  st_budget_delay :: "flt option"
  st_policy_name :: "string option"
  st_total_attempts :: nat
  st_total_failed :: "nat option"
  st_total_successful :: "nat option"

definition state_attempt_count :: "retry_state \<Rightarrow> nat" where
  "state_attempt_count s =
     (if st_total_attempts s \<noteq> 0 then st_total_attempts s else length (st_attempts s))"

definition state_retained_attempt_count :: "retry_state \<Rightarrow> nat" where
  "state_retained_attempt_count s = length (st_attempts s)"

definition state_failed_attempts :: "retry_state \<Rightarrow> nat" where
  "state_failed_attempts s =
     (case st_total_failed s of Some n \<Rightarrow> n | None \<Rightarrow> count_attempts attempt_failed (st_attempts s))"

definition state_successful_attempts :: "retry_state \<Rightarrow> nat" where
  "state_successful_attempts s =
     (case st_total_successful s of
        Some n \<Rightarrow> n | None \<Rightarrow> count_attempts attempt_succeeded (st_attempts s))"

definition state_last_attempt :: "retry_state \<Rightarrow> attempt option" where
  "state_last_attempt s = last_of (st_attempts s)"

definition state_has_error :: "retry_state \<Rightarrow> bool" where
  "state_has_error s \<longleftrightarrow> st_last_error s \<noteq> None"

section \<open>\<open>RetryResult\<close>\<close>

definition result_succeeded :: "result \<Rightarrow> bool" where
  "result_succeeded r \<longleftrightarrow> rr_error r = None \<and> \<not> rr_exhausted r"

definition result_failed :: "result \<Rightarrow> bool" where
  "result_failed r \<longleftrightarrow> rr_error r \<noteq> None \<or> rr_exhausted r"

definition result_attempt_count :: "result \<Rightarrow> nat" where
  "result_attempt_count r =
     (if rr_total_attempts r \<noteq> 0 then rr_total_attempts r else length (rr_attempts r))"

definition result_retained_attempt_count :: "result \<Rightarrow> nat" where
  "result_retained_attempt_count r = length (rr_attempts r)"

definition result_history_truncated :: "result \<Rightarrow> bool" where
  "result_history_truncated r \<longleftrightarrow> result_retained_attempt_count r < result_attempt_count r"

definition result_total_time :: "result \<Rightarrow> flt" where
  "result_total_time r = fl_sub (rr_ended_at r) (rr_started_at r)"

definition exhausted_by_exception :: "result \<Rightarrow> bool" where
  "exhausted_by_exception r \<longleftrightarrow> rr_exhausted r \<and> rr_retry_cause r = Some CauseException"

definition exhausted_by_result :: "result \<Rightarrow> bool" where
  "exhausted_by_result r \<longleftrightarrow> rr_exhausted r \<and> rr_retry_cause r = Some CauseResult"

text \<open>The loops over \<open>reversed(self.attempts)\<close>.\<close>

fun first_error :: "attempt list \<Rightarrow> exn option" where
  "first_error [] = None"
| "first_error (a # as) = (case ar_error a of Some e \<Rightarrow> Some e | None \<Rightarrow> first_error as)"

definition result_last_error :: "result \<Rightarrow> exn option" where
  "result_last_error r = first_error (rev (rr_attempts r))"

definition result_has_last_value :: "result \<Rightarrow> bool" where
  "result_has_last_value r \<longleftrightarrow> list_ex ar_has_value (rr_attempts r)"

fun first_value :: "attempt list \<Rightarrow> pyval" where
  "first_value [] = VNone"
| "first_value (a # as) = (if ar_has_value a then ar_value a else first_value as)"

definition result_last_value :: "result \<Rightarrow> pyval" where
  "result_last_value r = first_value (rev (rr_attempts r))"

definition result_failed_attempts :: "result \<Rightarrow> nat" where
  "result_failed_attempts r =
     (case rr_total_failed r of Some n \<Rightarrow> n | None \<Rightarrow> count_attempts attempt_failed (rr_attempts r))"

definition result_successful_attempts :: "result \<Rightarrow> nat" where
  "result_successful_attempts r =
     (case rr_total_successful r of
        Some n \<Rightarrow> n | None \<Rightarrow> count_attempts attempt_succeeded (rr_attempts r))"

text \<open>\<open>error_types\<close>: the loop with its list \<open>seen\<close>.\<close>

fun collect_error_types :: "attempt list \<Rightarrow> exc_type list \<Rightarrow> exc_type list" where
  "collect_error_types [] seen_types = seen_types"
| "collect_error_types (a # as) seen_types =
     (case ar_error a of
        None \<Rightarrow> collect_error_types as seen_types
      | Some e \<Rightarrow>
          if exn_type e \<in> set seen_types then collect_error_types as seen_types
          else collect_error_types as (seen_types @ [exn_type e]))"

definition result_error_types :: "result \<Rightarrow> exc_type list" where
  "result_error_types r = collect_error_types (rr_attempts r) []"

definition result_last_attempt :: "result \<Rightarrow> attempt option" where
  "result_last_attempt r = last_of (rr_attempts r)"

section \<open>Reports of a result\<close>

definition cause_str :: "retry_cause option \<Rightarrow> string" where
  "cause_str c =
     (case c of None \<Rightarrow> ''None'' | Some CauseException \<Rightarrow> ''exception'' | Some CauseResult \<Rightarrow> ''result'')"

definition cause_val :: "retry_cause option \<Rightarrow> pyval" where
  "cause_val c = (case c of None \<Rightarrow> VNone | Some _ \<Rightarrow> VStr (cause_str c))"

definition opt_str :: "string option \<Rightarrow> pyval" where
  "opt_str o' = (case o' of None \<Rightarrow> VNone | Some s \<Rightarrow> VStr s)"

definition py_dict :: "(string \<times> pyval) list \<Rightarrow> pyval" where
  "py_dict entries = VDict (map (\<lambda>(k, v). (VStr k, v)) entries)"

abbreviation VNat :: "nat \<Rightarrow> pyval" where
  "VNat n \<equiv> VInt (int n)"

definition error_name :: "exn option \<Rightarrow> pyval" where
  "error_name e = (case e of None \<Rightarrow> VNone | Some x \<Rightarrow> VStr (et_name (exn_type x)))"

definition result_summary :: "result \<Rightarrow> pyval" where
  "result_summary r = py_dict
     [(''succeeded'', VBool (result_succeeded r)),
      (''exhausted'', VBool (rr_exhausted r)),
      (''retry_cause'', cause_val (rr_retry_cause r)),
      (''attempt_count'', VNat (result_attempt_count r)),
      (''failed_attempts'', VNat (result_failed_attempts r)),
      (''successful_attempts'', VNat (result_successful_attempts r)),
      (''retained_attempt_count'', VNat (result_retained_attempt_count r)),
      (''history_truncated'', VBool (result_history_truncated r)),
      (''total_time'', VFloat (py_round 3 (result_total_time r))),
      (''policy_name'', opt_str (rr_policy_name r)),
      (''error'', error_name (rr_error r)),
      (''error_types'', VList (map (\<lambda>t. VStr (et_name t)) (result_error_types r)))]"

definition message_val :: "bool \<Rightarrow> exn option \<Rightarrow> pyval" where
  "message_val include_error_message e =
     (case e of None \<Rightarrow> VNone
      | Some x \<Rightarrow> if include_error_message then VStr (exn_msg x) else VNone)"

definition attempt_to_dict :: "bool \<Rightarrow> attempt \<Rightarrow> pyval" where
  "attempt_to_dict include_error_message a = py_dict
     [(''number'', VNat (ar_number a)),
      (''succeeded'', VBool (attempt_succeeded a)),
      (''failed'', VBool (attempt_failed a)),
      (''started_at'', VFloat (ar_started_at a)),
      (''ended_at'', VFloat (ar_ended_at a)),
      (''duration'', VFloat (attempt_duration a)),
      (''error_type'', error_name (ar_error a)),
      (''error_message'', message_val include_error_message (ar_error a))]"

definition result_to_dict :: "bool \<Rightarrow> bool \<Rightarrow> result \<Rightarrow> pyval" where
  "result_to_dict include_value include_error_message r = py_dict
     ([(''succeeded'', VBool (result_succeeded r)),
       (''failed'', VBool (result_failed r)),
       (''exhausted'', VBool (rr_exhausted r)),
       (''retry_cause'', cause_val (rr_retry_cause r)),
       (''attempt_count'', VNat (result_attempt_count r)),
       (''failed_attempts'', VNat (result_failed_attempts r)),
       (''successful_attempts'', VNat (result_successful_attempts r)),
       (''retained_attempt_count'', VNat (result_retained_attempt_count r)),
       (''history_truncated'', VBool (result_history_truncated r)),
       (''total_time'', VFloat (result_total_time r)),
       (''started_at'', VFloat (rr_started_at r)),
       (''ended_at'', VFloat (rr_ended_at r)),
       (''policy_name'', opt_str (rr_policy_name r)),
       (''error'', case rr_error r of
          None \<Rightarrow> VNone
        | Some e \<Rightarrow> py_dict
            [(''type'', VStr (et_name (exn_type e))),
             (''message'', message_val include_error_message (Some e))]),
       (''attempts'', VList (map (attempt_to_dict include_error_message) (rr_attempts r)))]
      @ (if include_value then [(''value'', rr_value r)] else []))"

text \<open>\<open>to_json\<close>; \<open>dumps indent\<close> is \<open>json.dumps\<close>, which raises for values that are no JSON.\<close>

definition result_to_json :: "(int option \<Rightarrow> pyval \<Rightarrow> string res) \<Rightarrow> bool \<Rightarrow> int option \<Rightarrow> bool \<Rightarrow> result \<Rightarrow> string res" where
  "result_to_json dumps include_value indent include_error_message r =
     dumps indent (result_to_dict include_value include_error_message r)"

text \<open>The lines of one retained attempt in \<open>story()\<close>; \<open>is_last\<close> is \<open>attempt is self.attempts[-1]\<close>.\<close>

definition attempt_lines :: "bool \<Rightarrow> bool \<Rightarrow> attempt \<Rightarrow> bool \<Rightarrow> string list" where
  "attempt_lines include_error_message by_result a is_last =
     (''Attempt '' @ nat_str (ar_number a) @ '': ''
        @ (if attempt_succeeded a then ''succeeded'' else ''failed'')
        @ '' in '' @ fmt_fixed 4 (attempt_duration a) @ ''s'')
     # (case ar_error a of
          Some e \<Rightarrow>
            [''  Error: '' @ et_name (exn_type e)
               @ (if include_error_message then '': '' @ exn_msg e else [])]
        | None \<Rightarrow>
            if by_result \<and> is_last
            then [''  Result was returned but rejected by retry condition.''] else [])"

definition result_story :: "bool \<Rightarrow> result \<Rightarrow> string" where
  "result_story include_error_message r =
     (let status =
            (if result_succeeded r then ''succeeded''
             else if rr_exhausted r then ''exhausted by '' @ cause_str (rr_retry_cause r)
             else ''failed'');
          n = length (rr_attempts r)
      in py_join newline
        ([''Relinker execution story'', [],
          ''Status: '' @ status,
          ''Attempts: '' @ nat_str (result_attempt_count r),
          ''Failed attempts: '' @ nat_str (result_failed_attempts r),
          ''Successful attempts: '' @ nat_str (result_successful_attempts r),
          ''Total time: '' @ fmt_fixed 4 (result_total_time r) @ ''s'', []]
         @ (if result_history_truncated r
            then [''Retained history: last '' @ nat_str (result_retained_attempt_count r)
                    @ '' of '' @ nat_str (result_attempt_count r) @ '' attempts'', []]
            else [])
         @ concat (map (\<lambda>(i, a). attempt_lines include_error_message (exhausted_by_result r) a
                                   (i + 1 = n))
             (enumerate 0 (rr_attempts r)))))"

section \<open>\<open>RetryStats\<close>\<close>

record stats =
  rt_calls :: nat
  rt_successes :: nat
  rt_failures :: nat
  rt_exhausted :: nat
  rt_total_attempts :: nat
  rt_total_time :: flt

definition stats_init :: stats where
  "stats_init = \<lparr>rt_calls = 0, rt_successes = 0, rt_failures = 0, rt_exhausted = 0,
     rt_total_attempts = 0, rt_total_time = 0\<rparr>"

definition stats_record :: "result \<Rightarrow> stats \<Rightarrow> stats" where
  "stats_record r s =
     (let s1 = s\<lparr>rt_calls := rt_calls s + 1,
                 rt_total_attempts := rt_total_attempts s + result_attempt_count r,
                 rt_total_time := fl_add (rt_total_time s) (result_total_time r)\<rparr>;
          s2 = (if result_succeeded r then s1\<lparr>rt_successes := rt_successes s1 + 1\<rparr>
                else s1\<lparr>rt_failures := rt_failures s1 + 1\<rparr>)
      in if rr_exhausted r then s2\<lparr>rt_exhausted := rt_exhausted s2 + 1\<rparr> else s2)"

text \<open>\<open>snapshot()\<close> copies the counters; \<open>reset()\<close> clears them.\<close>

definition stats_snapshot :: "stats \<Rightarrow> stats" where
  "stats_snapshot s = s"

definition stats_reset :: "stats \<Rightarrow> stats" where
  "stats_reset s = stats_init"

definition average_attempts :: "stats \<Rightarrow> flt" where
  "average_attempts s =
     (if rt_calls s = 0 then 0 else fl_ratio (int (rt_total_attempts s)) (int (rt_calls s)))"

definition success_rate :: "stats \<Rightarrow> flt" where
  "success_rate s =
     (if rt_calls s = 0 then 0 else fl_ratio (int (rt_successes s)) (int (rt_calls s)))"

definition failure_rate :: "stats \<Rightarrow> flt" where
  "failure_rate s =
     (if rt_calls s = 0 then 0 else fl_ratio (int (rt_failures s)) (int (rt_calls s)))"

definition stats_to_dict :: "stats \<Rightarrow> pyval" where
  "stats_to_dict s = py_dict
     [(''calls'', VNat (rt_calls s)),
      (''successes'', VNat (rt_successes s)),
      (''failures'', VNat (rt_failures s)),
      (''exhausted'', VNat (rt_exhausted s)),
      (''total_attempts'', VNat (rt_total_attempts s)),
      (''total_time'', VFloat (rt_total_time s)),
      (''average_attempts'', VFloat (average_attempts s)),
      (''success_rate'', VFloat (success_rate s)),
      (''failure_rate'', VFloat (failure_rate s))]"

text \<open>\<open>RetryStats.to_dict\<close>\<close>

definition stats_report :: "stats \<Rightarrow> pyval" where
  "stats_report s = stats_to_dict (stats_snapshot s)"

section \<open>Lemmas\<close>

lemma result_failed_iff: "result_failed r \<longleftrightarrow> \<not> result_succeeded r"
  by (auto simp: result_failed_def result_succeeded_def)

lemma collect_error_types_set:
  "set (collect_error_types as ts) = set ts \<union> {exn_type e |e a. a \<in> set as \<and> ar_error a = Some e}"
  by (induction as arbitrary: ts) (auto split: option.splits)

lemma collect_error_types_distinct:
  "distinct ts \<Longrightarrow> distinct (collect_error_types as ts)"
  by (induction as arbitrary: ts) (auto split: option.splits)

lemma first_error_rev_append:
  "first_error (xs @ ys) = (case first_error xs of None \<Rightarrow> first_error ys | Some e \<Rightarrow> Some e)"
  by (induction xs) (auto split: option.splits)

text \<open>What the counters of a sequence of recorded results are.\<close>

definition stats_ok :: "stats \<Rightarrow> bool" where
  "stats_ok s \<longleftrightarrow> rt_successes s + rt_failures s = rt_calls s \<and> rt_exhausted s \<le> rt_failures s"

lemma stats_ok_init [simp]: "stats_ok stats_init"
  by (simp add: stats_ok_def stats_init_def)

lemma stats_ok_record: "stats_ok s \<Longrightarrow> stats_ok (stats_record r s)"
  by (auto simp: stats_ok_def stats_record_def Let_def result_succeeded_def)

lemma stats_fold:
  "stats_ok s \<Longrightarrow> stats_ok (fold stats_record rs s)
    \<and> rt_calls (fold stats_record rs s) = rt_calls s + length rs
    \<and> rt_successes (fold stats_record rs s) = rt_successes s + length (filter result_succeeded rs)
    \<and> rt_exhausted (fold stats_record rs s) = rt_exhausted s + length (filter rr_exhausted rs)
    \<and> rt_total_attempts (fold stats_record rs s)
        = rt_total_attempts s + sum_list (map result_attempt_count rs)"
proof (induction rs arbitrary: s)
  case (Cons r rs)
  have "stats_ok (stats_record r s)" using Cons.prems by (rule stats_ok_record)
  from Cons.IH [OF this] show ?case by (simp add: stats_record_def Let_def)
qed simp

section \<open>Properties\<close>

text \<open>
  C16: the counters of a decorated function are those of the results recorded since the last reset:
  one call each, split into successes and failures, every exhausted call a failure. The rates are the
  shares of the recorded results that succeeded and that did not, and the average is that of their attempts, as correctly rounded
  quotients (zero when nothing is recorded); the rates lie between zero and one.
\<close>

theorem stats_counters:
  fixes rs :: "result list" and s0 :: stats
  defines "s \<equiv> fold stats_record rs (stats_reset s0)"
  shows "rt_calls s = length rs
    \<and> rt_successes s = length (filter result_succeeded rs)
    \<and> rt_successes s + rt_failures s = rt_calls s
    \<and> rt_exhausted s = length (filter rr_exhausted rs) \<and> rt_exhausted s \<le> rt_failures s
    \<and> rt_total_attempts s = sum_list (map result_attempt_count rs)
    \<and> success_rate s = (if rs = [] then 0 else fl_ratio (int (length (filter result_succeeded rs))) (int (length rs)))
    \<and> failure_rate s = (if rs = [] then 0
        else fl_ratio (int (length (filter (\<lambda>r. \<not> result_succeeded r) rs))) (int (length rs)))
    \<and> average_attempts s = (if rs = [] then 0 else fl_ratio (int (sum_list (map result_attempt_count rs))) (int (length rs)))
    \<and> 0 \<le> success_rate s \<and> success_rate s \<le> sec 1
    \<and> 0 \<le> failure_rate s \<and> failure_rate s \<le> sec 1"
proof -
  note f = stats_fold [OF stats_ok_init, of rs]
  then have s: "stats_ok s" by (simp add: s_def stats_reset_def)
  have rate: "0 \<le> fl_ratio (int a) (int (rt_calls s)) \<and> fl_ratio (int a) (int (rt_calls s)) \<le> sec 1"
    if "a \<le> rt_calls s" "rt_calls s \<noteq> 0" for a
    using that by (intro fl_ratio_unit) auto
  have "rt_successes s \<le> rt_calls s" "rt_failures s \<le> rt_calls s"
    using s by (auto simp: stats_ok_def)
  with rate have "0 \<le> success_rate s \<and> success_rate s \<le> sec 1"
    "0 \<le> failure_rate s \<and> failure_rate s \<le> sec 1"
    by (simp_all add: success_rate_def failure_rate_def sec_def)
  moreover have c: "rt_calls s = length rs" "rt_successes s = length (filter result_succeeded rs)"
    "rt_total_attempts s = sum_list (map result_attempt_count rs)" "rt_successes s + rt_failures s = rt_calls s"
    "rt_exhausted s = length (filter rr_exhausted rs)" "rt_exhausted s \<le> rt_failures s"
    using f s by (simp_all add: s_def stats_reset_def stats_init_def stats_ok_def)
  moreover have "rt_failures s = length (filter (\<lambda>r. \<not> result_succeeded r) rs)"
    using c(1,2,4) sum_length_filter_compl [of result_succeeded rs] by simp
  ultimately show ?thesis by (simp add: success_rate_def failure_rate_def average_attempts_def)
qed

end
