(* ===== verification/Delays.thy ===== *)
theory Delays
  imports Main Callables Records
begin

text \<open>
  \<open>delays/\<close>: the delay strategies with the checks of their constructors, \<open>next_delay\<close> of each,
  the frame machine \<open>_resolve_additive_tree\<close> that sums a tree of strategies without recursion, and
  \<open>resolve_delay\<close>. Configured numbers keep their Python type. \<open>UserDelay\<close> is any other object that
  implements the protocol. The environment gives the random draws, the float powers and the sums.
\<close>

section \<open>Strategies\<close>

datatype 's delay =
    FixedDelay pynum
  | LinearDelay pynum pynum "pynum option"
  | ExponentialDelay pynum pynum "pynum option"
  | ChainDelay "pynum list"
  | RandomDelay pynum pynum "int option"
  | RandomExponentialDelay pynum pynum pynum "pynum option" "int option"
  | CustomDelay "int \<Rightarrow> ('s, pyval) py"
  | StatefulCustomDelay "retry_state \<Rightarrow> ('s, pyval) py"
  | AdditiveDelay "'s delay list"
  | UserDelay "int \<Rightarrow> ('s, pyval) py"

text \<open>\<open>ensure_safe_delay\<close> of an optional ceiling.\<close>

definition ensure_safe_maximum :: "pyval option \<Rightarrow> unit res" where
  "ensure_safe_maximum maximum =
     (case maximum of None \<Rightarrow> Ok ()
      | Some v \<Rightarrow> res_bind (ensure_safe_delay ''maximum'' v) (\<lambda>_. Ok ()))"

definition mk_FixedDelay :: "pyval \<Rightarrow> 's delay res" where
  "mk_FixedDelay seconds =
     res_bind (ensure_safe_delay ''seconds'' seconds) (\<lambda>_. Ok (FixedDelay (num_of seconds)))"

definition mk_LinearDelay :: "pyval \<Rightarrow> pyval \<Rightarrow> pyval option \<Rightarrow> 's delay res" where
  "mk_LinearDelay start step maximum =
     res_bind (ensure_safe_delay ''start'' start) (\<lambda>_.
     res_bind (ensure_non_negative ''step'' step) (\<lambda>_.
     res_bind (ensure_safe_maximum maximum) (\<lambda>_.
       Ok (LinearDelay (num_of start) (num_of step) (map_option num_of maximum)))))"

definition mk_ExponentialDelay :: "pyval \<Rightarrow> pyval \<Rightarrow> pyval option \<Rightarrow> 's delay res" where
  "mk_ExponentialDelay base factor maximum =
     res_bind (ensure_non_negative ''base'' base) (\<lambda>_.
     res_bind (ensure_positive ''factor'' factor) (\<lambda>_.
     res_bind (ensure_safe_maximum maximum) (\<lambda>_.
       Ok (ExponentialDelay (num_of base) (num_of factor) (map_option num_of maximum)))))"

text \<open>The loop of \<open>ChainDelay.__post_init__\<close>.\<close>

fun ensure_chain :: "pyval list \<Rightarrow> unit res" where
  "ensure_chain [] = Ok ()"
| "ensure_chain (d # ds) = res_bind (ensure_safe_delay ''delays'' d) (\<lambda>_. ensure_chain ds)"

definition mk_ChainDelay :: "pyval list \<Rightarrow> 's delay res" where
  "mk_ChainDelay delays =
     (if delays = [] then Raise (config_error ''delays must contain at least one value'')
      else res_bind (ensure_chain delays) (\<lambda>_. Ok (ChainDelay (map num_of delays))))"

definition maximum_below_minimum :: exn where
  "maximum_below_minimum = config_error ''maximum must be greater than or equal to minimum''"

definition mk_RandomDelay :: "pyval \<Rightarrow> pyval \<Rightarrow> int option \<Rightarrow> 's delay res" where
  "mk_RandomDelay minimum maximum seed =
     res_bind (ensure_safe_delay ''minimum'' minimum) (\<lambda>_.
     res_bind (ensure_safe_delay ''maximum'' maximum) (\<lambda>_.
       if num_less (num_of maximum) (num_of minimum) then Raise maximum_below_minimum
       else Ok (RandomDelay (num_of minimum) (num_of maximum) seed)))"

definition mk_RandomExponentialDelay ::
    "pyval \<Rightarrow> pyval \<Rightarrow> pyval \<Rightarrow> pyval option \<Rightarrow> int option \<Rightarrow> 's delay res" where
  "mk_RandomExponentialDelay base factor minimum maximum seed =
     res_bind (ensure_non_negative ''base'' base) (\<lambda>_.
     res_bind (ensure_positive ''factor'' factor) (\<lambda>_.
     res_bind (ensure_safe_delay ''minimum'' minimum) (\<lambda>_.
     res_bind
       (case maximum of None \<Rightarrow> Ok ()
        | Some v \<Rightarrow> res_bind (ensure_safe_delay ''maximum'' v) (\<lambda>_.
            if num_less (num_of v) (num_of minimum) then Raise maximum_below_minimum else Ok ()))
       (\<lambda>_. Ok (RandomExponentialDelay (num_of base) (num_of factor) (num_of minimum)
                 (map_option num_of maximum) seed)))))"

definition mk_CustomDelay :: "(int \<Rightarrow> ('s, pyval) py) pyfun \<Rightarrow> 's delay res" where
  "mk_CustomDelay callback =
     res_bind (ensure_callable ''callback'' (pf_shape callback)) (\<lambda>_.
       Ok (CustomDelay (pf_run callback)))"

definition mk_StatefulCustomDelay :: "(retry_state \<Rightarrow> ('s, pyval) py) pyfun \<Rightarrow> 's delay res" where
  "mk_StatefulCustomDelay callback =
     res_bind (ensure_callable ''callback'' (pf_shape callback)) (\<lambda>_.
       Ok (StatefulCustomDelay (pf_run callback)))"

text \<open>\<open>DelayMixin.__add__\<close>\<close>

definition delay_add :: "'s delay \<Rightarrow> 's delay \<Rightarrow> 's delay" where
  "delay_add self other = AdditiveDelay [self, other]"

section \<open>The next delay\<close>

text \<open>\<open>max(0, attempt_number - 1)\<close>\<close>

definition retries_before :: "int \<Rightarrow> nat" where
  "retries_before attempt_number = nat (attempt_number - 1)"

definition linear_next :: "pynum \<Rightarrow> pynum \<Rightarrow> pynum option \<Rightarrow> int \<Rightarrow> pynum res" where
  "linear_next start step maximum attempt_number =
     res_bind (num_mul step (PInt (int (retries_before attempt_number)))) (\<lambda>growth.
     res_bind (num_add start growth) (\<lambda>delay.
       let ceiling = (case maximum of Some m \<Rightarrow> m | None \<Rightarrow> PFlt MAX_SLEEP_SECONDS)
       in Ok (num_min delay ceiling)))"

text \<open>\<open>factor ** n\<close>: exact on integers; a float power may raise \<open>OverflowError\<close>.\<close>

definition num_pow :: "'u pyenv \<Rightarrow> pynum \<Rightarrow> nat \<Rightarrow> pynum res" where
  "num_pow E factor n =
     (case factor of
        PInt a \<Rightarrow> Ok (PInt (a ^ n))
      | PFlt x \<Rightarrow> (case env_pow E x n of None \<Rightarrow> Raise overflow_error | Some y \<Rightarrow> Ok (PFlt y)))"

text \<open>
  The \<open>try\<close> around \<open>base * factor ** max(0, attempt_number - 1)\<close>: an \<open>OverflowError\<close>, which is all
  the two operations raise on numbers, becomes infinity.
\<close>

definition exponential_value :: "'u pyenv \<Rightarrow> pynum \<Rightarrow> pynum \<Rightarrow> int \<Rightarrow> pynum" where
  "exponential_value E base factor attempt_number =
     (case res_bind (num_pow E factor (retries_before attempt_number)) (num_mul base) of
        Ok v \<Rightarrow> v | Raise _ \<Rightarrow> PFlt fl_inf)"

definition exponential_next :: "'u pyenv \<Rightarrow> pynum \<Rightarrow> pynum \<Rightarrow> pynum option \<Rightarrow> int \<Rightarrow> pynum" where
  "exponential_next E base factor maximum attempt_number =
     (if num_eq base (PFlt 0) then PFlt 0
      else let delay = exponential_value E base factor attempt_number
           in case maximum of
                Some m \<Rightarrow> num_min delay m
              | None \<Rightarrow> if num_less (PFlt MAX_SLEEP_SECONDS) delay
                        then PFlt MAX_SLEEP_SECONDS else delay)"

definition chain_next :: "pynum list \<Rightarrow> int \<Rightarrow> pynum" where
  "chain_next delays attempt_number =
     (let index = retries_before attempt_number
      in if length delays \<le> index then last delays else delays ! index)"

text \<open>\<open>Random(...).uniform(a, b)\<close> converts its bounds, which are safe delays, to floats.\<close>

definition num_to_flt :: "pynum \<Rightarrow> flt" where
  "num_to_flt a = (case num_float a of Ok x \<Rightarrow> x | Raise _ \<Rightarrow> fl_inf)"

definition random_next ::
    "'u pyenv \<Rightarrow> pynum \<Rightarrow> pynum \<Rightarrow> int option \<Rightarrow> int \<Rightarrow> ('u, pyval) io" where
  "random_next E minimum maximum seed attempt_number =
     py_bind (draw_uniform E seed attempt_number (num_to_flt minimum) (num_to_flt maximum))
       (\<lambda>x. py_return (VFloat x))"

definition random_exponential_next ::
    "'u pyenv \<Rightarrow> pynum \<Rightarrow> pynum \<Rightarrow> pynum \<Rightarrow> pynum option \<Rightarrow> int option \<Rightarrow> int \<Rightarrow> ('u, pyval) io" where
  "random_exponential_next E base factor minimum maximum seed attempt_number =
     (if num_eq base (PFlt 0) then py_return (VFloat (num_to_flt minimum))
      else let cap = exponential_value E base factor attempt_number;
               cap' = (case maximum of
                         Some m \<Rightarrow> num_min cap m
                       | None \<Rightarrow> if num_less (PFlt MAX_SLEEP_SECONDS) cap
                                 then PFlt MAX_SLEEP_SECONDS else cap);
               upper = num_max minimum cap'
           in py_bind (draw_uniform E seed attempt_number (num_to_flt minimum) (num_to_flt upper))
                (\<lambda>x. py_return (VFloat x)))"

text \<open>\<open>CustomDelay.next_delay\<close> and \<open>StatefulCustomDelay._run\<close> validate what the callback returns.\<close>

definition checked_delay :: "('s, pyval) py \<Rightarrow> ('s, pyval) py" where
  "checked_delay m = py_bind m (\<lambda>v. py_bind (py_lift (ensure_resolved_delay v)) (\<lambda>x. py_return (VFloat x)))"

definition minimal_state :: "int \<Rightarrow> retry_state" where
  "minimal_state attempt_number =
     \<lparr>st_function_name = ''<simulation>'', st_attempt_number = nat attempt_number, st_started_at = 0,
      st_elapsed = 0, st_attempts = [], st_last_value = VNone, st_last_error = None,
      st_has_value = False, st_next_delay = None, st_retry_cause = None, st_will_retry = False,
      st_will_stop = False, st_policy_delay = None, st_budget_delay = None, st_policy_name = None,
      st_total_attempts = 0, st_total_failed = None, st_total_successful = None\<rparr>"

text \<open>\<open>next_delay\<close> of every strategy but a sum.\<close>

fun leaf_next :: "'u pyenv \<Rightarrow> 'u world_scheme delay \<Rightarrow> int \<Rightarrow> ('u, pyval) io" where
  "leaf_next E (FixedDelay seconds) n = py_return (val_of_num seconds)"
| "leaf_next E (LinearDelay start step maximum) n =
     py_bind (py_lift (linear_next start step maximum n)) (\<lambda>d. py_return (val_of_num d))"
| "leaf_next E (ExponentialDelay base factor maximum) n =
     py_return (val_of_num (exponential_next E base factor maximum n))"
| "leaf_next E (ChainDelay delays) n = py_return (val_of_num (chain_next delays n))"
| "leaf_next E (RandomDelay minimum maximum seed) n = random_next E minimum maximum seed n"
| "leaf_next E (RandomExponentialDelay base factor minimum maximum seed) n =
     random_exponential_next E base factor minimum maximum seed n"
| "leaf_next E (CustomDelay callback) n = checked_delay (callback n)"
| "leaf_next E (StatefulCustomDelay callback) n = checked_delay (callback (minimal_state n))"
| "leaf_next E (UserDelay f) n = f n"
| "leaf_next E (AdditiveDelay ds) n = py_return (VFloat 0)"

section \<open>Sums of strategies\<close>

text \<open>\<open>isinstance(strategy, AdditiveDelay)\<close>, with its strategies.\<close>

definition additive_parts :: "'s delay \<Rightarrow> 's delay list option" where
  "additive_parts d = (case d of AdditiveDelay ds \<Rightarrow> Some ds | _ \<Rightarrow> None)"

text \<open>The validated delay of a strategy that is not a sum: with the real state when there is one.\<close>

definition resolve_leaf ::
    "'u pyenv \<Rightarrow> retry_state option \<Rightarrow> int \<Rightarrow> 'u world_scheme delay \<Rightarrow> ('u, flt) io" where
  "resolve_leaf E state n strategy =
     py_bind
       (case (strategy, state) of
          (StatefulCustomDelay callback, Some s) \<Rightarrow> checked_delay (callback s)
        | _ \<Rightarrow> leaf_next E strategy n)
       (\<lambda>v. py_lift (ensure_resolved_delay v))"

text \<open>\<open>_AdditiveDelayFrame\<close>: the strategies of the sum, the index and the values so far.\<close>

datatype 's frame = Frame "'s delay list" nat "flt list"

fun delay_weight :: "'s delay \<Rightarrow> nat" where
  "delay_weight (AdditiveDelay ds) = 2 + sum_list (map delay_weight ds)"
| "delay_weight _ = 1"

lemma delay_weight_pos: "0 < delay_weight d"
  by (cases d) auto

lemma additive_parts_weight:
  "additive_parts d = Some ds \<Longrightarrow> delay_weight d = 2 + sum_list (map delay_weight ds)"
  by (auto simp: additive_parts_def split: delay.splits)

fun frame_weight :: "'s frame \<Rightarrow> nat" where
  "frame_weight (Frame ds i vs) = 1 + sum_list (map delay_weight (drop i ds))"

lemma sum_list_drop_step:
  "i < length ds \<Longrightarrow>
    sum_list (map delay_weight (drop i ds)) = delay_weight (ds ! i) + sum_list (map delay_weight (drop (Suc i) ds))"
  by (simp add: Cons_nth_drop_Suc [symmetric])

text \<open>
  The \<open>while frames\<close> loop of \<open>_resolve_additive_tree\<close>; the last frame of the Python list is the
  head here. An exception of a strategy leaves the loop.
\<close>

function additive_loop ::
    "'u pyenv \<Rightarrow> retry_state option \<Rightarrow> int \<Rightarrow> 'u world_scheme frame list \<Rightarrow> flt option \<Rightarrow> ('u, flt) io" where
  "additive_loop E state n frames resolved_child w =
     (case frames of
        [] \<Rightarrow> (Ok (case resolved_child of None \<Rightarrow> 0 | Some x \<Rightarrow> x), w)
      | Frame strategies index vs # rest \<Rightarrow>
          let values = (case resolved_child of None \<Rightarrow> vs | Some x \<Rightarrow> vs @ [x])
          in if length strategies \<le> index
             then additive_loop E state n rest (Some (min (env_sum E values) MAX_SLEEP_SECONDS)) w
             else case additive_parts (strategies ! index) of
                    Some inner \<Rightarrow>
                      additive_loop E state n
                        (Frame inner 0 [] # Frame strategies (Suc index) values # rest) None w
                  | None \<Rightarrow>
                      (case resolve_leaf E state n (strategies ! index) w of
                         (Raise e, w') \<Rightarrow> (Raise e, w')
                       | (Ok x, w') \<Rightarrow>
                           additive_loop E state n
                             (Frame strategies (Suc index) (values @ [x]) # rest) None w'))"
  by pat_completeness auto
termination
  by (relation "measure (\<lambda>(_, _, _, frames, _, _). sum_list (map frame_weight frames))")
    (auto simp: sum_list_drop_step delay_weight_pos dest!: additive_parts_weight)

declare additive_loop.simps [simp del]

definition resolve_additive_tree ::
    "'u pyenv \<Rightarrow> 'u world_scheme delay list \<Rightarrow> int \<Rightarrow> retry_state option \<Rightarrow> ('u, flt) io" where
  "resolve_additive_tree E strategies n state = additive_loop E state n [Frame strategies 0 []] None"

text \<open>\<open>next_delay(attempt_number)\<close>\<close>

definition next_delay :: "'u pyenv \<Rightarrow> 'u world_scheme delay \<Rightarrow> int \<Rightarrow> ('u, pyval) io" where
  "next_delay E strategy n =
     (case additive_parts strategy of
        Some ds \<Rightarrow> py_bind (resolve_additive_tree E ds n None) (\<lambda>x. py_return (VFloat x))
      | None \<Rightarrow> leaf_next E strategy n)"

text \<open>\<open>resolve_delay\<close>\<close>

definition resolve_delay ::
    "'u pyenv \<Rightarrow> 'u world_scheme delay \<Rightarrow> int \<Rightarrow> retry_state option \<Rightarrow> ('u, pyval) io" where
  "resolve_delay E strategy n state =
     (case strategy of
        StatefulCustomDelay callback \<Rightarrow>
          (case state of
             Some s \<Rightarrow> checked_delay (callback s)
           | None \<Rightarrow> next_delay E strategy n)
      | AdditiveDelay ds \<Rightarrow>
          (case state of
             Some s \<Rightarrow> py_bind (resolve_additive_tree E ds n (Some s)) (\<lambda>x. py_return (VFloat x))
           | None \<Rightarrow> next_delay E strategy n)
      | _ \<Rightarrow> next_delay E strategy n)"

text \<open>\<open>delay_needs_state\<close>: the stack loop over the tree, from the children of the root.\<close>

definition stateful_root :: "'s delay \<Rightarrow> bool" where
  "stateful_root d = (case d of StatefulCustomDelay _ \<Rightarrow> True | _ \<Rightarrow> False)"

function needs_state_loop :: "'s delay list \<Rightarrow> bool" where
  "needs_state_loop stack =
     (if stack = [] then False
      else let child = last stack; rest = butlast stack
           in if stateful_root child then True
              else case additive_parts child of
                     Some ds \<Rightarrow> needs_state_loop (rest @ ds)
                   | None \<Rightarrow> needs_state_loop rest)"
  by pat_completeness auto
termination
proof (relation "measure (\<lambda>stack. sum_list (map delay_weight stack))")
  show "wf (measure (\<lambda>stack. sum_list (map delay_weight stack)))" by simp
next
  fix stack rest :: "'s delay list" and child ds
  assume "stack \<noteq> []" "child = last stack" "rest = butlast stack" "additive_parts child = Some ds"
  then have "stack = rest @ [child]" "delay_weight child = 2 + sum_list (map delay_weight ds)"
    by (simp_all add: additive_parts_weight)
  then show "(rest @ ds, stack) \<in> measure (\<lambda>stack. sum_list (map delay_weight stack))" by simp
next
  fix stack rest :: "'s delay list" and child
  assume "stack \<noteq> []" "child = last stack" "rest = butlast stack"
  then have "stack = rest @ [child]" by simp
  then show "(rest, stack) \<in> measure (\<lambda>stack. sum_list (map delay_weight stack))"
    using delay_weight_pos [of child] by simp
qed

declare needs_state_loop.simps [simp del]

definition delay_needs_state :: "'s delay \<Rightarrow> bool" where
  "delay_needs_state strategy =
     (if stateful_root strategy then True
      else case additive_parts strategy of Some ds \<Rightarrow> needs_state_loop ds | None \<Rightarrow> False)"

section \<open>The frame machine computes the recursive sum\<close>

text \<open>The value of a tree of strategies, by recursion on the tree.\<close>

fun tree_value ::
    "'u pyenv \<Rightarrow> retry_state option \<Rightarrow> int \<Rightarrow> 'u world_scheme delay \<Rightarrow> ('u, flt) io" where
  "tree_value E state n (AdditiveDelay ds) =
     py_bind (py_map (tree_value E state n) ds) (\<lambda>xs.
       py_return (min (env_sum E xs) MAX_SLEEP_SECONDS))"
| "tree_value E state n d = resolve_leaf E state n d"

lemma tree_value_leaf: "additive_parts d = None \<Longrightarrow> tree_value E state n d = resolve_leaf E state n d"
  by (cases d) (auto simp: additive_parts_def)

lemma additive_parts_Some [simp]: "additive_parts d = Some ds \<longleftrightarrow> d = AdditiveDelay ds"
  by (cases d) (auto simp: additive_parts_def)

lemma additive_parts_Additive [simp]: "additive_parts (AdditiveDelay ds) = Some ds"
  by simp

lemma additive_loop_resolved:
  "additive_loop E state n (Frame ds i vs # rest) (Some x) w
    = additive_loop E state n (Frame ds i (vs @ [x]) # rest) None w"
  by (subst (1 2) additive_loop.simps) (simp add: Let_def)

lemma additive_loop_frame:
  "additive_loop E state n (Frame ds i vs # rest) None w =
    (case py_map (tree_value E state n) (drop i ds) w of
       (Raise e, w') \<Rightarrow> (Raise e, w')
     | (Ok xs, w') \<Rightarrow>
         additive_loop E state n rest (Some (min (env_sum E (vs @ xs)) MAX_SLEEP_SECONDS)) w')"
proof (induction "sum_list (map delay_weight (drop i ds))" arbitrary: ds i vs rest w rule: less_induct)
  case less
  show ?case
  proof (cases "length ds \<le> i")
    case True
    then show ?thesis by (subst additive_loop.simps) (simp add: py_return_def)
  next
    case False
    define d where "d = ds ! i"
    have drop: "drop i ds = d # drop (Suc i) ds"
      using False by (simp add: d_def Cons_nth_drop_Suc)
    have next_less: "sum_list (map delay_weight (drop (Suc i) ds))
        < sum_list (map delay_weight (drop i ds))"
      using delay_weight_pos [of d] by (simp add: drop)
    note rest_eq = less [OF next_less]
    show ?thesis
    proof (cases "additive_parts d")
      case None
      have "additive_loop E state n (Frame ds i vs # rest) None w =
          (case tree_value E state n d w of
             (Raise e, w') \<Rightarrow> (Raise e, w')
           | (Ok x, w') \<Rightarrow> additive_loop E state n (Frame ds (Suc i) (vs @ [x]) # rest) None w')"
        using False None
        by (subst additive_loop.simps) (simp add: d_def tree_value_leaf split: prod.splits res.splits)
      then show ?thesis
        by (auto simp: drop rest_eq py_bind_def py_return_def split: prod.splits res.splits)
    next
      case (Some inner)
      then have d: "d = AdditiveDelay inner" by simp
      have inner_less: "sum_list (map delay_weight (drop 0 inner))
          < sum_list (map delay_weight (drop i ds))"
        by (simp add: drop d)
      have "additive_loop E state n (Frame ds i vs # rest) None w =
          additive_loop E state n (Frame inner 0 [] # Frame ds (Suc i) vs # rest) None w"
        using False Some by (subst additive_loop.simps) (simp add: d_def)
      also have "\<dots> =
          (case py_map (tree_value E state n) inner w of
             (Raise e, w') \<Rightarrow> (Raise e, w')
           | (Ok xs, w') \<Rightarrow>
               additive_loop E state n
                 (Frame ds (Suc i) (vs @ [min (env_sum E xs) MAX_SLEEP_SECONDS]) # rest) None w')"
        by (simp add: less [OF inner_less] additive_loop_resolved split: prod.splits res.splits)
      finally show ?thesis
        by (auto simp: drop d rest_eq py_bind_def py_return_def split: prod.splits res.splits)
    qed
  qed
qed

lemma additive_loop_nil: "additive_loop E state n [] (Some x) w = (Ok x, w)"
  by (subst additive_loop.simps) simp

lemma resolve_additive_tree_value:
  "resolve_additive_tree E ds n state = tree_value E state n (AdditiveDelay ds)"
  by (auto simp: resolve_additive_tree_def additive_loop_frame additive_loop_nil py_bind_def
      py_return_def fun_eq_iff split: prod.splits res.splits)

section \<open>Bounds\<close>

lemma env_sum_nonneg: "env_ok E \<Longrightarrow> \<forall>x\<in>set xs. 0 \<le> x \<Longrightarrow> 0 \<le> env_sum E xs"
  by (simp add: env_ok_def)

lemma tree_value_safe:
  assumes "env_ok E"
  shows "tree_value E state n d w = (Ok x, w') \<Longrightarrow> safe_delay x"
proof (induction d arbitrary: x w w')
  case (AdditiveDelay ds)
  then obtain xs where xs: "py_map (tree_value E state n) ds w = (Ok xs, w')"
    and x: "x = min (env_sum E xs) MAX_SLEEP_SECONDS"
    by (auto elim!: py_bind_OkD)
  have "\<forall>x\<in>set xs. safe_delay x"
    by (rule py_map_all [OF _ xs]) (use AdditiveDelay.IH in blast)
  then have "0 \<le> env_sum E xs" by (intro env_sum_nonneg [OF assms]) (auto simp: safe_delay_def)
  then show ?case by (simp add: x safe_delay_def)
qed (auto simp: resolve_leaf_def dest: ensure_resolved_delay_safe elim!: py_bind_OkD)

lemma resolve_delay_cases:
  "resolve_delay E d n state =
    (case additive_parts d of
       Some ds \<Rightarrow> py_bind (tree_value E state n d) (\<lambda>x. py_return (VFloat x))
     | None \<Rightarrow> (case (d, state) of
         (StatefulCustomDelay callback, Some s) \<Rightarrow> checked_delay (callback s)
       | _ \<Rightarrow> leaf_next E d n))"
  by (cases d; cases state)
    (simp_all add: resolve_delay_def next_delay_def resolve_additive_tree_value additive_parts_def
      del: tree_value.simps)

section \<open>Whether the state matters\<close>

fun contains_stateful :: "'s delay \<Rightarrow> bool" where
  "contains_stateful (StatefulCustomDelay _) = True"
| "contains_stateful (AdditiveDelay ds) = list_ex contains_stateful ds"
| "contains_stateful _ = False"

lemma needs_state_loop_iff: "needs_state_loop ds \<longleftrightarrow> list_ex contains_stateful ds"
proof (induction "sum_list (map delay_weight ds)" arbitrary: ds rule: less_induct)
  case less
  show ?case
  proof (cases ds rule: rev_cases)
    case Nil
    then show ?thesis by (subst needs_state_loop.simps) simp
  next
    case (snoc rest child)
    note weights = less [of "rest"] less [of "rest @ inner" for inner]
    show ?thesis
      using delay_weight_pos [of child] weights
      by (subst needs_state_loop.simps, cases child)
        (auto simp: snoc stateful_root_def additive_parts_def list_ex_iff)
  qed
qed

lemma delay_needs_state_iff: "delay_needs_state d \<longleftrightarrow> contains_stateful d"
  by (cases d) (auto simp: delay_needs_state_def stateful_root_def additive_parts_def needs_state_loop_iff)

lemma tree_value_stateless:
  "\<not> contains_stateful d \<Longrightarrow> tree_value E state n d = tree_value E None n d"
proof (induction d)
  case (AdditiveDelay ds)
  then have "py_map (tree_value E state n) ds = py_map (tree_value E None n) ds"
    by (intro py_map_cong) (auto simp: list_ex_iff)
  then show ?case by simp
qed (simp_all add: resolve_leaf_def)

section \<open>Built-in strategies do not fail\<close>

text \<open>A number in the delays' domain: not negative, and a finite float if it is one.\<close>

fun nonneg_num :: "pynum \<Rightarrow> bool" where
  "nonneg_num (PInt n) \<longleftrightarrow> 0 \<le> n"
| "nonneg_num (PFlt x) \<longleftrightarrow> 0 \<le> x"

fun positive_num :: "pynum \<Rightarrow> bool" where
  "positive_num (PInt n) \<longleftrightarrow> 0 < n"
| "positive_num (PFlt x) \<longleftrightarrow> 0 < x"

lemma sec_MAX: "MAX_SLEEP_SECONDS < sec n \<longleftrightarrow> 86400 < n"
  by (simp add: MAX_SLEEP_SECONDS_def)

lemma safe_num_iff:
  "safe_num (PInt n) \<longleftrightarrow> 0 \<le> n \<and> n \<le> 86400"
  "safe_num (PFlt x) \<longleftrightarrow> 0 \<le> x \<and> x \<le> MAX_SLEEP_SECONDS"
proof -
  show "safe_num (PInt n) \<longleftrightarrow> 0 \<le> n \<and> n \<le> 86400"
    using MAX_SLEEP_lt_inf by (auto simp: safe_num_def num_le_def sec_MAX)
  show "safe_num (PFlt x) \<longleftrightarrow> 0 \<le> x \<and> x \<le> MAX_SLEEP_SECONDS"
    using MAX_SLEEP_lt_inf
    by (auto simp: safe_num_def num_le_def sec_def split: if_splits)
qed

lemma safe_num_float: "safe_num a \<Longrightarrow> num_float a = Ok (num_to_flt a) \<and> safe_delay (num_to_flt a)"
  by (cases a) (auto simp: safe_num_iff py_float_def num_to_flt_def safe_delay_def MAX_SLEEP_SECONDS_def)

lemma resolve_safe_num: "safe_num a \<Longrightarrow> ensure_resolved_delay (val_of_num a) = Ok (num_to_flt a)"
  using safe_num_float [of a] ensure_resolved_delay_id [of "num_to_flt a"]
  by (cases a) (auto simp: safe_delay_def)

lemma safe_MAX [simp]: "safe_num (PFlt MAX_SLEEP_SECONDS)"
  by (simp add: safe_num_iff)

lemma nonneg_capped:
  assumes "nonneg_num a" "safe_num m"
  shows "safe_num (num_min a m)"
proof -
  have inf: "sec 86400 < fl_inf" using MAX_SLEEP_lt_inf by (simp add: MAX_SLEEP_SECONDS_def)
  have up: "x \<le> sec 86400" if "x \<le> sec n" "n \<le> 86400" for x n
    by (rule order_trans [OF that(1)]) (simp add: that(2))
  have down: "n \<le> 86400" if "sec n \<le> x" "x \<le> sec 86400" for x n
    using order_trans [OF that] by simp
  show ?thesis
    using assms inf
    by (cases a; cases m)
      (auto simp: num_min_def safe_num_iff not_less MAX_SLEEP_SECONDS_def split: if_splits
        intro: up down)
qed

lemma nonneg_saturated:
  assumes "nonneg_num a" "\<not> num_less (PFlt MAX_SLEEP_SECONDS) a"
  shows "safe_num a"
proof (cases a)
  case (PInt n)
  with assms MAX_SLEEP_lt_inf show ?thesis by (auto simp: safe_num_iff sec_MAX split: if_splits)
qed (use assms in \<open>auto simp: safe_num_iff\<close>)

lemma saturate_nonneg: "0 \<le> r \<Longrightarrow> 0 \<le> saturate r"
  by (auto simp: saturate_def)

lemma rnd_nonneg: "0 \<le> a \<Longrightarrow> 0 \<le> rnd a s"
  using rnd_mono [of 0 a s] by (simp add: rnd_def rnd_pos_def ulp_exp_small rne_def)

lemma fl_add_nonneg: "0 \<le> x \<Longrightarrow> 0 \<le> y \<Longrightarrow> 0 \<le> fl_add x y"
  by (auto simp: fl_add_def saturate_nonneg rnd_nonneg)

lemma fl_mul_nonneg: "0 \<le> x \<Longrightarrow> 0 \<le> y \<Longrightarrow> 0 \<le> fl_mul x y"
  by (auto simp: fl_mul_def saturate_nonneg rnd_nonneg sgn_if)

lemma py_float_nonneg: "py_float n = Ok x \<Longrightarrow> 0 \<le> n \<Longrightarrow> 0 \<le> x"
  by (auto simp: py_float_def fl_of_int_def Let_def rnd_nonneg split: if_splits option.splits)

lemma num_float_nonneg: "nonneg_num a \<Longrightarrow> num_float a = Ok x \<Longrightarrow> 0 \<le> x"
  by (cases a) (auto simp: py_float_nonneg)

lemma num_mul_nonneg: "nonneg_num a \<Longrightarrow> nonneg_num b \<Longrightarrow> num_mul a b = Ok c \<Longrightarrow> nonneg_num c"
  by (cases a; cases b) (auto simp: res_bind_Ok_iff fl_mul_nonneg py_float_nonneg)

lemma num_add_nonneg: "nonneg_num a \<Longrightarrow> nonneg_num b \<Longrightarrow> num_add a b = Ok c \<Longrightarrow> nonneg_num c"
  by (cases a; cases b) (auto simp: res_bind_Ok_iff fl_add_nonneg py_float_nonneg)

lemma env_pow_nonneg: "env_ok E \<Longrightarrow> 0 < x \<Longrightarrow> env_pow E x n = Some y \<Longrightarrow> 0 \<le> y"
  unfolding env_ok_def by blast

lemma exponential_value_nonneg:
  assumes "env_ok E" "nonneg_num base" "positive_num factor"
  shows "nonneg_num (exponential_value E base factor n)"
proof (cases "res_bind (num_pow E factor (retries_before n)) (num_mul base)")
  case (Ok v)
  then obtain p where p: "num_pow E factor (retries_before n) = Ok p" "num_mul base p = Ok v"
    by (auto simp: res_bind_Ok_iff)
  have "nonneg_num p"
    using p(1) assms(3) by (cases factor) (auto simp: num_pow_def env_pow_nonneg [OF assms(1)] split: option.splits)
  then have "nonneg_num v" by (rule num_mul_nonneg [OF assms(2) _ p(2)])
  then show ?thesis by (simp only: exponential_value_def Ok res.case)
qed (simp add: exponential_value_def)

text \<open>
  What the constructors establish, for the strategies whose code is in the library, without the linear delays that
  can overflow: those with a float start and an integer step.
\<close>

fun delay_wf :: "'s delay \<Rightarrow> bool" where
  "delay_wf (FixedDelay d) \<longleftrightarrow> safe_num d"
| "delay_wf (LinearDelay start step maximum) \<longleftrightarrow>
     safe_num start \<and> nonneg_num step \<and> pred_option safe_num maximum
     \<and> ((\<exists>x. step = PFlt x) \<or> (\<exists>a b. start = PInt a \<and> step = PInt b))"
| "delay_wf (ExponentialDelay base factor maximum) \<longleftrightarrow>
     nonneg_num base \<and> positive_num factor \<and> pred_option safe_num maximum"
| "delay_wf (ChainDelay ds) \<longleftrightarrow> ds \<noteq> [] \<and> list_all safe_num ds"
| "delay_wf (RandomDelay minimum maximum seed) \<longleftrightarrow>
     safe_num minimum \<and> safe_num maximum \<and> \<not> num_less maximum minimum"
| "delay_wf (RandomExponentialDelay base factor minimum maximum seed) \<longleftrightarrow>
     nonneg_num base \<and> positive_num factor \<and> safe_num minimum \<and> pred_option safe_num maximum"
| "delay_wf (AdditiveDelay ds) \<longleftrightarrow> list_all delay_wf ds"
| "delay_wf _ \<longleftrightarrow> False"

text \<open>
  What the constructors accept of these strategies, every linear delay included, and the attempts at which a tree of
  them contains a linear delay with a float start whose integer growth has no float.
\<close>

fun builtin_accepted :: "'s delay \<Rightarrow> bool" where
  "builtin_accepted (LinearDelay start step maximum) \<longleftrightarrow>
     safe_num start \<and> nonneg_num step \<and> pred_option safe_num maximum"
| "builtin_accepted (AdditiveDelay ds) \<longleftrightarrow> list_all builtin_accepted ds"
| "builtin_accepted d \<longleftrightarrow> delay_wf d"

fun linear_overflows :: "'s delay \<Rightarrow> int \<Rightarrow> bool" where
  "linear_overflows (LinearDelay start step maximum) n \<longleftrightarrow>
     (case (start, step) of
        (PFlt x, PInt a) \<Rightarrow> py_float (a * int (retries_before n)) = Raise overflow_error
      | _ \<Rightarrow> False)"
| "linear_overflows (AdditiveDelay ds) n \<longleftrightarrow> list_ex (\<lambda>d. linear_overflows d n) ds"
| "linear_overflows d n \<longleftrightarrow> False"

lemma delay_wf_accepted: "delay_wf d \<Longrightarrow> builtin_accepted d \<and> \<not> linear_overflows d n"
  by (induction d) (auto simp: list_all_iff list_ex_iff split: pynum.splits)

text \<open>A computation that returns a value whose delay is accepted.\<close>

definition gives_delay :: "('s, pyval) py \<Rightarrow> bool" where
  "gives_delay m \<longleftrightarrow> (\<forall>w. \<exists>v w' x. m w = (Ok v, w') \<and> ensure_resolved_delay v = Ok x)"

lemma gives_delay_num: "safe_num a \<Longrightarrow> gives_delay (py_return (val_of_num a))"
  by (auto simp: gives_delay_def py_return_def resolve_safe_num)

lemma gives_delay_draw:
  assumes "env_ok E" "safe_delay a" "safe_delay b" "a \<le> b"
  shows "gives_delay (py_bind (draw_uniform E seed n a b) (\<lambda>x. py_return (VFloat x)))"
proof -
  have "safe_delay x" if "a \<le> x" "x \<le> b" for x using that assms by (auto simp: safe_delay_def)
  then have "ensure_resolved_delay (VFloat x) = Ok x" if "a \<le> x" "x \<le> b" for x
    using that ensure_resolved_delay_id by blast
  with assms show ?thesis
    by (auto simp: gives_delay_def draw_uniform_def py_bind_def py_return_def env_ok_def
        simp del: ensure_resolved_delay.simps split: option.splits)
qed

lemma num_to_flt_mono: "safe_num a \<Longrightarrow> safe_num b \<Longrightarrow> \<not> num_less b a \<Longrightarrow> num_to_flt a \<le> num_to_flt b"
  using MAX_SLEEP_lt_inf
  by (cases a; cases b)
    (auto simp: safe_num_iff num_to_flt_def py_float_def split: if_splits)

lemma py_float_error: "py_float n = Raise e \<Longrightarrow> e = overflow_error"
  by (auto simp: py_float_def split: option.splits)

lemma linear_next_ok:
  assumes "builtin_accepted (LinearDelay start step maximum :: 's delay)" "n < 2 ^ 50"
    and no: "\<not> linear_overflows (LinearDelay start step maximum :: 's delay) n"
  shows "\<exists>d. linear_next start step maximum n = Ok d \<and> safe_num d"
proof -
  define k where "k = int (retries_before n)"
  have k: "0 \<le> k" "\<bar>k\<bar> < 2 ^ 50" using assms(2) by (simp_all add: k_def retries_before_def)
  have start: "nonneg_num start" "\<exists>x. num_float start = Ok x"
    using assms(1) safe_num_float [of start] by (cases start; auto simp: safe_num_iff)+
  have "\<exists>g. num_mul step (PInt k) = Ok g \<and> nonneg_num g"
  proof (cases step)
    case (PFlt x)
    with assms(1) k show ?thesis by (auto simp: py_float_def fl_mul_nonneg)
  qed (use assms(1) k in auto)
  then obtain g where g: "num_mul step (PInt k) = Ok g" "nonneg_num g" by blast
  have "\<exists>y. num_float g = Ok y" if "start = PFlt x" for x
  proof (cases step)
    case (PInt a)
    then have "g = PInt (a * k)" using g(1) by simp
    with no that PInt show ?thesis
      using py_float_error by (cases "py_float (a * k)") (auto simp flip: k_def)
  qed (use g(1) k in \<open>auto simp: res_bind_Ok_iff\<close>)
  then have "\<exists>d. num_add start g = Ok d"
    using start(2) by (cases start; cases g) auto
  then obtain d where d: "num_add start g = Ok d" by blast
  then have "nonneg_num d" using start(1) g(2) by (rule num_add_nonneg [rotated 2])
  then show ?thesis
    using assms(1) by (cases maximum) (auto simp: linear_next_def g(1) d Let_def nonneg_capped simp flip: k_def)
qed

lemma linear_next_overflow:
  assumes "linear_overflows (LinearDelay start step maximum :: 's delay) n"
  shows "linear_next start step maximum n = Raise overflow_error"
  using assms by (auto simp: linear_next_def split: pynum.splits)

lemma num_less_asym: "num_less a b \<Longrightarrow> \<not> num_less b a"
  using fl_inf_pos by (cases a; cases b) (auto split: if_splits simp del: fl_inf_pos)

lemma leaf_gives_delay:
  assumes E: "env_ok E" and n: "n < 2 ^ 50"
    and no: "\<not> linear_overflows d n"
  shows "builtin_accepted d \<Longrightarrow> additive_parts d = None \<Longrightarrow> gives_delay (leaf_next E d n)"
proof (cases d)
  case (LinearDelay start step maximum)
  assume "builtin_accepted d"
  with linear_next_ok [OF _ n] no obtain x where "linear_next start step maximum n = Ok x" "safe_num x"
    unfolding LinearDelay by blast
  then show ?thesis
    using gives_delay_num [of x] by (simp add: LinearDelay py_bind_def py_lift_def py_return_def gives_delay_def)
next
  case (ExponentialDelay base factor maximum)
  assume wf: "builtin_accepted d"
  then have "nonneg_num (exponential_value E base factor n)"
    unfolding ExponentialDelay by (intro exponential_value_nonneg [OF E]) auto
  with wf have "safe_num (exponential_next E base factor maximum n)"
    by (auto simp: ExponentialDelay exponential_next_def Let_def safe_num_iff nonneg_capped
        nonneg_saturated split: option.splits)
  then show ?thesis by (simp add: ExponentialDelay gives_delay_num)
next
  case (ChainDelay ds)
  assume "builtin_accepted d"
  then have "safe_num (chain_next ds n)"
    by (auto simp: ChainDelay chain_next_def Let_def list_all_iff)
  then show ?thesis by (simp add: ChainDelay gives_delay_num)
next
  case (RandomDelay minimum maximum seed)
  assume "builtin_accepted d"
  then show ?thesis
    using safe_num_float [of minimum] safe_num_float [of maximum]
    by (auto simp: RandomDelay random_next_def intro!: gives_delay_draw E num_to_flt_mono)
next
  case (RandomExponentialDelay base factor minimum maximum seed)
  assume wf: "builtin_accepted d"
  define cap where "cap = exponential_value E base factor n"
  define cap' where "cap' = (case maximum of Some m \<Rightarrow> num_min cap m
    | None \<Rightarrow> if num_less (PFlt MAX_SLEEP_SECONDS) cap then PFlt MAX_SLEEP_SECONDS else cap)"
  have "nonneg_num cap"
    using wf unfolding RandomExponentialDelay cap_def by (intro exponential_value_nonneg [OF E]) auto
  with wf have "safe_num cap'"
    by (auto simp: RandomExponentialDelay cap'_def nonneg_capped nonneg_saturated split: option.splits)
  with wf have upper: "safe_num (num_max minimum cap')" "\<not> num_less (num_max minimum cap') minimum"
    by (auto simp: RandomExponentialDelay num_max_def num_less_asym)
  have zero: "gives_delay (py_return (VFloat (num_to_flt minimum)))"
    using wf safe_num_float [of minimum] ensure_resolved_delay_id [of "num_to_flt minimum"]
    by (simp add: RandomExponentialDelay gives_delay_def py_return_def del: ensure_resolved_delay.simps)
  show ?thesis
    using wf upper zero safe_num_float [of minimum] safe_num_float [OF upper(1)]
    by (auto simp: RandomExponentialDelay random_exponential_next_def Let_def simp flip: cap_def cap'_def
        intro!: gives_delay_draw E num_to_flt_mono)
qed (auto simp: gives_delay_num)

text \<open>What the constructors accept.\<close>

lemma py_float_mono:
  assumes "py_float n = Ok x" "\<bar>m\<bar> < 2 ^ 50"
  shows "m \<le> n \<Longrightarrow> sec m \<le> x" "n \<le> m \<Longrightarrow> x \<le> sec m"
proof -
  have x: "x = rnd (sec n) 0"
    using assms(1) by (auto simp: py_float_def fl_of_int_def Let_def sec_def split: if_splits)
  have "fl_of_int m = Some (sec m)" using assms(2) by simp
  then have m: "sec m = rnd (sec m) 0" by (auto simp: fl_of_int_def Let_def sec_def split: if_splits)
  show "m \<le> n \<Longrightarrow> sec m \<le> x" "n \<le> m \<Longrightarrow> x \<le> sec m"
    by (simp_all add: x rnd_mono, subst m, simp_all add: rnd_mono, subst m, simp_all add: rnd_mono)
qed

lemma ensure_safe_num: "ensure_safe_delay name v = Ok x \<Longrightarrow> safe_num (num_of v)"
proof (cases v)
  case (VInt n)
  assume "ensure_safe_delay name v = Ok x"
  then have f: "py_float n = Ok x" "0 \<le> x" "x \<le> MAX_SLEEP_SECONDS"
    by (auto simp: VInt ensure_safe_delay_def res_bind_Ok_iff split: if_splits)
  have "0 \<le> n" using py_float_mono(2) [OF f(1), of "-1"] f(2) by (force simp: sec_def)
  moreover have "n \<le> 86400"
  proof (rule ccontr)
    assume "\<not> n \<le> 86400"
    then have "sec 86401 \<le> x" by (intro py_float_mono(1) [OF f(1)]) auto
    also have "\<dots> \<le> sec 86400" using f(3) by (simp only: MAX_SLEEP_SECONDS_def)
    finally show False by simp
  qed
  ultimately show ?thesis by (simp add: VInt safe_num_iff)
qed (auto simp: ensure_safe_delay_def res_bind_Ok_iff safe_num_iff split: if_splits)

lemma ensure_nonneg_num: "ensure_non_negative name v = Ok u \<Longrightarrow> nonneg_num (num_of v)"
proof (cases v)
  case (VInt n)
  assume "ensure_non_negative name v = Ok u"
  then obtain x where f: "py_float n = Ok x" "0 \<le> x"
    by (auto simp: VInt ensure_non_negative_def res_bind_Ok_iff split: if_splits)
  have "0 \<le> n" using py_float_mono(2) [OF f(1), of "-1"] f(2) by (force simp: sec_def)
  then show ?thesis by (simp add: VInt)
qed (auto simp: ensure_non_negative_def res_bind_Ok_iff split: if_splits)

lemma ensure_positive_num: "ensure_positive name v = Ok u \<Longrightarrow> positive_num (num_of v)"
proof (cases v)
  case (VInt n)
  assume "ensure_positive name v = Ok u"
  then obtain x where f: "py_float n = Ok x" "0 < x"
    by (auto simp: VInt ensure_positive_def res_bind_Ok_iff split: if_splits)
  have "0 < n" using py_float_mono(2) [OF f(1), of 0] f(2) by (force simp: sec_def)
  then show ?thesis by (simp add: VInt)
qed (auto simp: ensure_positive_def res_bind_Ok_iff split: if_splits)

lemma ensure_safe_maximum_num:
  "ensure_safe_maximum m = Ok u \<Longrightarrow> pred_option safe_num (map_option num_of m)"
  by (cases m) (auto simp: ensure_safe_maximum_def res_bind_Ok_iff dest: ensure_safe_num)

lemma ensure_chain_num: "ensure_chain ds = Ok u \<Longrightarrow> list_all safe_num (map num_of ds)"
  by (induction ds) (auto simp: res_bind_Ok_iff dest: ensure_safe_num)

lemma mk_delay_wf:
  "mk_FixedDelay v = Ok d \<Longrightarrow> delay_wf d"
  "mk_ExponentialDelay base factor maximum = Ok d \<Longrightarrow> delay_wf d"
  "mk_ChainDelay vs = Ok d \<Longrightarrow> delay_wf d"
  "mk_RandomDelay low high seed = Ok d \<Longrightarrow> delay_wf d"
  "mk_LinearDelay (VFloat x) (VFloat y) maximum = Ok d \<Longrightarrow> delay_wf d"
  "mk_LinearDelay (VInt m) (VInt n) maximum = Ok d \<Longrightarrow> delay_wf d"
proof -
  show "mk_FixedDelay v = Ok d \<Longrightarrow> delay_wf d"
    by (auto simp: mk_FixedDelay_def res_bind_Ok_iff dest: ensure_safe_num)
  show "mk_ExponentialDelay base factor maximum = Ok d \<Longrightarrow> delay_wf d"
    by (auto simp: mk_ExponentialDelay_def res_bind_Ok_iff dest: ensure_nonneg_num ensure_positive_num
        ensure_safe_maximum_num)
  show "mk_ChainDelay vs = Ok d \<Longrightarrow> delay_wf d"
    by (auto simp: mk_ChainDelay_def res_bind_Ok_iff dest: ensure_chain_num split: if_splits)
  show "mk_RandomDelay low high seed = Ok d \<Longrightarrow> delay_wf d"
    by (auto simp: mk_RandomDelay_def res_bind_Ok_iff dest: ensure_safe_num split: if_splits)
  show "mk_LinearDelay (VFloat x) (VFloat y) maximum = Ok d \<Longrightarrow> delay_wf d"
    using ensure_safe_num [of "''start''" "VFloat x"] ensure_nonneg_num [of "''step''" "VFloat y"]
    by (auto simp: mk_LinearDelay_def res_bind_Ok_iff simp del: ensure_finite_float.simps
        dest: ensure_safe_maximum_num)
  show "mk_LinearDelay (VInt m) (VInt n) maximum = Ok d \<Longrightarrow> delay_wf d"
    using ensure_safe_num [of "''start''" "VInt m"] ensure_nonneg_num [of "''step''" "VInt n"]
    by (auto simp: mk_LinearDelay_def res_bind_Ok_iff simp del: ensure_finite_float.simps
        dest: ensure_safe_maximum_num)
qed

text \<open>The trees that the constructors make of these strategies, and the sums of them.\<close>

inductive constructed :: "'s delay \<Rightarrow> bool" where
  "mk_FixedDelay v = Ok d \<Longrightarrow> constructed d"
| "mk_LinearDelay v1 v2 m = Ok d \<Longrightarrow> constructed d"
| "mk_ExponentialDelay v1 v2 m = Ok d \<Longrightarrow> constructed d"
| "mk_ChainDelay vs = Ok d \<Longrightarrow> constructed d"
| "mk_RandomDelay v1 v2 seed = Ok d \<Longrightarrow> constructed d"
| "mk_RandomExponentialDelay v1 v2 v3 m seed = Ok d \<Longrightarrow> constructed d"
| "constructed d1 \<Longrightarrow> constructed d2 \<Longrightarrow> constructed (delay_add d1 d2)"

lemma constructed_accepted: "constructed d \<Longrightarrow> builtin_accepted d"
proof (induction rule: constructed.induct)
  case (2 v1 v2 m d)
  then obtain x u where "ensure_safe_delay ''start'' v1 = Ok x" "ensure_non_negative ''step'' v2 = Ok u"
    "ensure_safe_maximum m = Ok ()" "d = LinearDelay (num_of v1) (num_of v2) (map_option num_of m)"
    by (auto simp: mk_LinearDelay_def res_bind_Ok_iff)
  then show ?case using ensure_safe_num ensure_nonneg_num ensure_safe_maximum_num by fastforce
next
  case (6 v1 v2 v3 m seed d)
  then obtain u u' x where "ensure_non_negative ''base'' v1 = Ok u" "ensure_positive ''factor'' v2 = Ok u'"
    "ensure_safe_delay ''minimum'' v3 = Ok x" "pred_option safe_num (map_option num_of m)"
    "d = RandomExponentialDelay (num_of v1) (num_of v2) (num_of v3) (map_option num_of m) seed"
    by (auto simp: mk_RandomExponentialDelay_def res_bind_Ok_iff dest: ensure_safe_num split: option.splits if_splits)
  then show ?case using ensure_safe_num ensure_nonneg_num ensure_positive_num by fastforce
qed (auto simp: delay_add_def dest: mk_delay_wf delay_wf_accepted)

text \<open>A leaf that has overflowed raises, any other gives a delay; and so for the trees.\<close>

lemma leaf_overflow:
  assumes "linear_overflows d n" "additive_parts d = None"
  shows "leaf_next E d n w = (Raise overflow_error, w)"
  using assms linear_next_overflow
  by (cases d) (fastforce simp: py_bind_def py_lift_def additive_parts_def)+

lemma tree_leaf_total:
  assumes E: "env_ok E" and n: "n < 2 ^ 50" and wf: "builtin_accepted d" and leaf: "additive_parts d = None"
  shows "if linear_overflows d n then fst (resolve_leaf E state n d w) = Raise overflow_error
    else \<exists>x w'. resolve_leaf E state n d w = (Ok x, w')"
proof -
  have eq: "resolve_leaf E state n d = py_bind (leaf_next E d n) (\<lambda>v. py_lift (ensure_resolved_delay v))"
    using wf by (cases d) (auto simp: resolve_leaf_def)
  show ?thesis
  proof (cases "linear_overflows d n")
    case True
    with leaf_overflow [OF True leaf] show ?thesis unfolding eq by (simp add: py_bind_def)
  next
    case False
    obtain v w' x where "leaf_next E d n w = (Ok v, w')" "ensure_resolved_delay v = Ok x"
      using leaf_gives_delay [OF E n False wf leaf] unfolding gives_delay_def by blast
    with False show ?thesis unfolding eq by (simp add: py_bind_def py_lift_def)
  qed
qed

lemma tree_value_total:
  assumes E: "env_ok E" and n: "n < 2 ^ 50"
  shows "builtin_accepted d \<Longrightarrow> if linear_overflows d n then fst (tree_value E state n d w) = Raise overflow_error
    else \<exists>x w'. tree_value E state n d w = (Ok x, w')"
proof (induction d arbitrary: w)
  case (AdditiveDelay ds)
  have "if list_ex (\<lambda>d. linear_overflows d n) cs then fst (py_map (tree_value E state n) cs w) = Raise overflow_error
      else \<exists>xs w'. py_map (tree_value E state n) cs w = (Ok xs, w')" if "set cs \<subseteq> set ds" for cs
    using that
  proof (induction cs arbitrary: w)
    case (Cons c cs)
    have c: "builtin_accepted c" "c \<in> set ds" using AdditiveDelay.prems Cons.prems by (auto simp: list_all_iff)
    note one = AdditiveDelay.IH [OF c(2,1), of w]
    show ?case
    proof (cases "linear_overflows c n")
      case True
      with one show ?thesis by (cases "tree_value E state n c w") (auto simp: py_bind_def)
    next
      case False
      with one obtain x w1 where x: "tree_value E state n c w = (Ok x, w1)" by auto
      show ?thesis
        using Cons.IH [of w1] Cons.prems False
        by (cases "py_map (tree_value E state n) cs w1") (auto simp: x py_bind_def py_return_def split: if_splits)
    qed
  qed (simp add: py_return_def)
  from this [of ds] show ?case
    by (cases "py_map (tree_value E state n) ds w") (auto simp: py_bind_def py_return_def split: if_splits)
qed (simp only: tree_value.simps, erule tree_leaf_total [OF E n],
    simp add: additive_parts_def del: additive_parts_Some)+

section \<open>Properties\<close>

text \<open>
  C17: the iterative frame machine of \<open>_resolve_additive_tree\<close>, written to avoid deep recursion,
  always ends and computes the recursive sum: the same value, the same effects in the same order,
  the same exception, each level saturated at the ceiling.
\<close>

theorem resolve_additive_tree_refines:
  "resolve_additive_tree E ds n state =
    py_bind (py_map (tree_value E state n) ds) (\<lambda>xs.
      py_return (min (env_sum E xs) MAX_SLEEP_SECONDS))"
  by (simp add: resolve_additive_tree_value)

lemma next_delay_accepted:
  assumes "env_ok E" "builtin_accepted d" "n < 2 ^ 50"
  shows "if linear_overflows d n then fst (next_delay E d n w) = Raise overflow_error
    else \<exists>v w' x. next_delay E d n w = (Ok v, w') \<and> ensure_resolved_delay v = Ok x
      \<and> 0 \<le> x \<and> x \<le> MAX_SLEEP_SECONDS"
proof (cases "additive_parts d")
  case None
  show ?thesis
  proof (cases "linear_overflows d n")
    case True
    with leaf_overflow [OF True None] None show ?thesis by (simp add: next_delay_def)
  next
    case False
    obtain v w' x where v: "leaf_next E d n w = (Ok v, w')" "ensure_resolved_delay v = Ok x"
      using leaf_gives_delay [OF assms(1,3) False assms(2) None] unfolding gives_delay_def by blast
    with False None ensure_resolved_delay_safe [OF v(2)] show ?thesis
      by (auto simp: next_delay_def safe_delay_def simp del: ensure_resolved_delay.simps)
  qed
next
  case (Some ds)
  then have d: "d = AdditiveDelay ds" by simp
  have eq: "next_delay E d n = py_bind (tree_value E None n d) (\<lambda>x. py_return (VFloat x))"
    by (simp add: next_delay_def resolve_additive_tree_value d del: tree_value.simps)
  note tree = tree_value_total [OF assms(1,3,2), of None w]
  show ?thesis
  proof (cases "linear_overflows d n")
    case True
    with tree show ?thesis
      by (cases "tree_value E None n d w") (simp add: eq py_bind_def del: tree_value.simps)
  next
    case False
    with tree obtain x w' where x: "tree_value E None n d w = (Ok x, w')" by auto
    from tree_value_safe [OF assms(1) x] have safe: "safe_delay x" .
    have "next_delay E d n w = (Ok (VFloat x), w')" using x by (simp add: eq py_bind_def py_return_def)
    with False safe ensure_resolved_delay_id [OF safe] show ?thesis
      by (auto simp: safe_delay_def simp del: ensure_resolved_delay.simps)
  qed
qed

lemma next_delay_total:
  assumes "env_ok E" "delay_wf d" "n < 2 ^ 50"
  shows "\<exists>v w' x. next_delay E d n w = (Ok v, w') \<and> ensure_resolved_delay v = Ok x
    \<and> 0 \<le> x \<and> x \<le> MAX_SLEEP_SECONDS"
  using next_delay_accepted [OF assms(1) _ assms(3), of d w] delay_wf_accepted [OF assms(2), of n]
  by (simp del: ensure_resolved_delay.simps)

text \<open>
  C18: what a tree of built-in strategies that the constructors accepted gives, at every attempt below \<open>2 ^ 50\<close>:
  a delay between zero and the ceiling, so that waiting never fails on it, or \<open>OverflowError\<close>. It raises
  exactly where the tree contains a linear delay with a float start and an integer step whose
  growth \<open>step * (attempt_number - 1)\<close> is too large for a float.
\<close>

theorem builtin_delay_total:
  assumes "env_ok E" "constructed d" "n < 2 ^ 50"
  shows "if linear_overflows d n then fst (next_delay E d n w) = Raise overflow_error
    else \<exists>v w' x. next_delay E d n w = (Ok v, w') \<and> ensure_resolved_delay v = Ok x
      \<and> 0 \<le> x \<and> x \<le> MAX_SLEEP_SECONDS"
  using assms(1) constructed_accepted [OF assms(2)] assms(3) by (rule next_delay_accepted)

lemma fl_of_int_1023: "fl_of_int (2 ^ 1023) = Some (2 ^ 2097)" "fl_of_int (2 ^ 1023 * 2) = None"
proof -
  have r: "rnd (1 * 2 ^ 2097) 0 = 1 * 2 ^ 2097" "rnd (1 * 2 ^ 2098) 0 = 1 * 2 ^ 2098"
    by (subst rnd_scale, simp add: rnd_small_int)+
  have "(2::int) ^ 1023 * 2 ^ 1074 = 1 * 2 ^ 2097" "(2::int) ^ 1023 * 2 * 2 ^ 1074 = 1 * 2 ^ 2098"
    by (simp_all flip: power_add power_Suc2)
  with r show "fl_of_int (2 ^ 1023) = Some (2 ^ 2097)" "fl_of_int (2 ^ 1023 * 2) = None"
    unfolding fl_of_int_def Let_def by (simp_all only: fl_inf_def) simp_all
qed

text \<open>
  C19: \<open>LinearDelay\<close> does not saturate for a large integer step next to a float start: with a step of
  \<open>2 ** 1023\<close>, which the constructor accepts, the third attempt raises \<open>OverflowError\<close>.
\<close>

theorem linear_delay_overflow:
  "\<exists>d. mk_LinearDelay (VFloat 0) (VInt (2 ^ 1023)) None = Ok d
    \<and> fst (next_delay E d 3 w) = Raise overflow_error"
proof -
  have "mk_LinearDelay (VFloat 0) (VInt (2 ^ 1023)) None
      = Ok (LinearDelay (PFlt 0) (PInt (2 ^ 1023)) None)"
    by (simp add: mk_LinearDelay_def ensure_safe_delay_def ensure_non_negative_def py_float_def
        fl_of_int_1023 ensure_safe_maximum_def flt_finite_def not_less less_imp_le [OF MAX_SLEEP_pos(1)]
        del: power_numeral)
  moreover have "linear_next (PFlt 0) (PInt (2 ^ 1023)) None 3 = Raise overflow_error"
  proof -
    have "int (retries_before 3) = 2" by (simp add: retries_before_def)
    then show ?thesis
      by (simp only: linear_next_def num_mul.simps num_add.simps num_float.simps py_float_def
          fl_of_int_1023 option.case res_bind.simps)
  qed
  ultimately show ?thesis
    by (auto simp: next_delay_def additive_parts_def py_bind_def py_lift_def)
qed

text \<open>
  \<open>delay_needs_state\<close> says whether a state matters: when it answers no, resolving a delay with the
  real state or with none is the same computation, so that the executors may skip building it.
\<close>

lemma stateless_delay:
  "\<not> delay_needs_state d \<Longrightarrow> resolve_delay E d n state = resolve_delay E d n None"
  using tree_value_stateless [of d E state n]
  by (cases d) (auto simp: resolve_delay_cases delay_needs_state_iff additive_parts_def
      simp del: tree_value.simps split: option.splits)

section \<open>Accepted numbers\<close>

lemma nonneg_num_le: "nonneg_num a \<longleftrightarrow> num_le (PInt 0) a"
proof (cases a)
  case (PFlt x)
  then show ?thesis using fl_inf_pos by (auto simp: num_le_def sec_def simp del: fl_inf_pos)
qed (auto simp: num_le_def)

lemma accepted_numbers:
  "ensure_non_negative name v = Ok () \<Longrightarrow> nonneg_num (num_of v)"
  "ensure_positive name v = Ok () \<Longrightarrow> positive_num (num_of v)"
  "ensure_safe_delay name v = Ok x \<Longrightarrow> safe_num (num_of v)"
proof -
  show "ensure_non_negative name v = Ok () \<Longrightarrow> nonneg_num (num_of v)"
    by (cases "(name, v)" rule: ensure_finite_float.cases)
      (auto simp: ensure_non_negative_def res_bind_Ok_iff py_float_def not_less dest!: fl_of_int_signs
        split: if_splits option.splits)
  show "ensure_positive name v = Ok () \<Longrightarrow> positive_num (num_of v)"
    by (cases "(name, v)" rule: ensure_finite_float.cases)
      (auto simp: ensure_positive_def res_bind_Ok_iff py_float_def not_le dest!: fl_of_int_signs
        split: if_splits option.splits)
  assume "ensure_safe_delay name v = Ok x"
  then have "ensure_safe_delay ''seconds'' v = Ok x" by (simp flip: ensure_resolved_delay_iff)
  then have "delay_wf (FixedDelay (num_of v) :: unit delay)" by (intro mk_delay_wf(1) [of v]) (simp add: mk_FixedDelay_def)
  then show "safe_num (num_of v)" by simp
qed

section \<open>A concrete environment\<close>

text \<open>
  A clock that advances a second per reading, draws at the lower bound, repeated multiplication and
  addition from the left, which is what \<open>sum\<close> did before Python 3.12.
\<close>

definition ex_env :: "'u pyenv" where
  "ex_env = \<lparr>env_clock = (\<lambda>k. sec (int k)), env_uniform = (\<lambda>s a b. a), env_entropy = (\<lambda>k a b. a),
     env_pow = (\<lambda>x n. let r = ((\<lambda>y. fl_mul y x) ^^ n) (sec 1) in if flt_finite r then Some r else None),
     env_sum = (\<lambda>xs. fold fl_add xs 0),
     env_log = (\<lambda>logger args. py_return ()), env_sleep = (\<lambda>seconds. py_return ()),
     env_async_sleep = (\<lambda>seconds. py_return ())\<rparr>"

lemma ex_env_ok: "env_ok ex_env"
proof -
  have pow: "0 \<le> ((\<lambda>y. fl_mul y x) ^^ n) (sec 1)" if "0 < x" for x n
    using that by (induction n) (auto simp: fl_mul_nonneg not_less)
  have sum: "0 \<le> fold fl_add xs s" if "\<forall>x\<in>set xs. 0 \<le> x" "0 \<le> s" for xs s
    using that by (induction xs arbitrary: s) (auto simp: fl_add_nonneg)
  have "fl_add 0 0 = 0" using fl_add_sec [of 0 0] by (simp add: sec_def)
  then have zero: "fold fl_add xs 0 = 0" if "\<forall>x\<in>set xs. x = 0" for xs
    using that by (induction xs) auto
  show ?thesis using pow sum zero by (auto simp: env_ok_def ex_env_def Let_def)
qed

definition ex_world :: world where
  "ex_world = \<lparr>w_reads = 0, w_draws = 0, w_budgets = (\<lambda>i. ex_b0)\<rparr>"

lemma ex_constructed:
  "constructed (delay_add (LinearDelay (PFlt 0) (PInt 2) None) (RandomDelay (PInt 0) (PInt 1) None))"
proof (rule constructed.intros(7))
  have "mk_LinearDelay (VFloat 0) (VInt 2) None = Ok (LinearDelay (PFlt 0) (PInt 2) None :: 's delay)"
    by (simp add: mk_LinearDelay_def ensure_safe_delay_def ensure_non_negative_def ensure_safe_maximum_def py_float_def
        flt_finite_def not_less less_imp_le [OF MAX_SLEEP_pos(1)])
  then show "constructed (LinearDelay (PFlt 0) (PInt 2) None :: 's delay)" by (rule constructed.intros)
  have "mk_RandomDelay (VInt 0) (VInt 1) None = Ok (RandomDelay (PInt 0) (PInt 1) None :: 's delay)"
    by (simp add: mk_RandomDelay_def ensure_safe_delay_def py_float_def MAX_SLEEP_SECONDS_def flt_finite_def not_less)
  then show "constructed (RandomDelay (PInt 0) (PInt 1) None :: 's delay)" by (rule constructed.intros)
qed

theorem builtin_delay_total_witness:
  "\<exists>v w' x. next_delay ex_env (delay_add (LinearDelay (PFlt 0) (PInt 2) None) (RandomDelay (PInt 0) (PInt 1) None))
       4 ex_world = (Ok v, w') \<and> ensure_resolved_delay v = Ok x \<and> 0 \<le> x \<and> x \<le> MAX_SLEEP_SECONDS"
  using builtin_delay_total [OF ex_env_ok ex_constructed, of 4 ex_world]
  by (simp add: delay_add_def py_float_def retries_before_def del: ensure_resolved_delay.simps)

end
