(* ===== verification/Policy.thy ===== *)
theory Policy
  imports Main Stop Conditions Delays
begin

text \<open>
  \<open>policy.py\<close> and \<open>event.py\<close>: the immutable policy with the validation of \<open>__post_init__\<close>, every
  builder method as a function to the new policy or the error it raises, and \<open>emit\<close> over the
  registered handlers. \<open>dataclasses.replace\<close> runs \<open>__post_init__\<close> on the copy, so every builder ends
  in \<open>post_init\<close>. A policy refers to its shared budget by its key in the heap of budgets.
\<close>

section \<open>Events\<close>

datatype event_name = BeforeAttempt | AfterSuccess | AfterFailure | BeforeSleep | AfterGiveup

definition event_names :: "(string \<times> event_name) list" where
  "event_names =
     [(''before_attempt'', BeforeAttempt), (''after_success'', AfterSuccess),
      (''after_failure'', AfterFailure), (''before_sleep'', BeforeSleep),
      (''after_giveup'', AfterGiveup)]"

definition event_str :: "event_name \<Rightarrow> string" where
  "event_str n = (case n of BeforeAttempt \<Rightarrow> ''before_attempt'' | AfterSuccess \<Rightarrow> ''after_success''
     | AfterFailure \<Rightarrow> ''after_failure'' | BeforeSleep \<Rightarrow> ''before_sleep''
     | AfterGiveup \<Rightarrow> ''after_giveup'')"

record retry_event =
  ev_name :: event_name
  ev_attempt_number :: nat
  ev_function_name :: string
  ev_delay :: "flt option"
  ev_value :: pyval
  ev_error :: "exn option"
  ev_state :: "retry_state option"
  ev_policy_name :: "string option"

datatype failure_mode = Propagate | Isolate

type_synonym 's handler = "retry_event \<Rightarrow> ('s, unit) py"

text \<open>\<open>EventHandlerRegistration\<close>, or the plain tuple older code registers.\<close>

datatype 's handler_entry =
    Registration event_name "'s handler" failure_mode
  | HandlerTuple event_name "'s handler"

text \<open>\<open>EventHandlerRegistration.__iter__\<close>: the name and the handler, also of a plain tuple.\<close>

fun entry_name :: "'s handler_entry \<Rightarrow> event_name" where
  "entry_name (Registration n h m) = n"
| "entry_name (HandlerTuple n h) = n"

fun entry_handler :: "'s handler_entry \<Rightarrow> 's handler" where
  "entry_handler (Registration n h m) = h"
| "entry_handler (HandlerTuple n h) = h"

fun entry_mode :: "'s handler_entry \<Rightarrow> failure_mode" where
  "entry_mode (Registration n h m) = m"
| "entry_mode (HandlerTuple n h) = Propagate"

section \<open>Policies\<close>

datatype result_exhausted = ReturnLast | RaiseExhausted

text \<open>The sleepers: the no-ops of \<open>for_testing()\<close>, the defaults, or the user's.\<close>

datatype 's sleeper = NoSleep | DefaultSleep | SleepFun shape "flt \<Rightarrow> ('s, pyval) py"

datatype 's async_sleeper =
    NoSleepAsync | DefaultSleepAsync | AsyncSleepFun shape "flt \<Rightarrow> ('s, 's called) py"

record 's policy =
  pol_stop :: "'s stop"
  pol_delay :: "'s delay"
  pol_condition :: "'s condition"
  pol_raise_last :: bool
  pol_return_result :: bool
  pol_result_exhausted :: result_exhausted
  pol_callback :: "(result \<Rightarrow> ('s, pyval) py) option"
  pol_factory :: "(result \<Rightarrow> ('s, exn option) py) option"
  pol_handlers :: "'s handler_entry list"
  pol_sleep :: "'s sleeper"
  pol_async_sleep :: "'s async_sleeper"
  pol_history_limit :: "nat option"
  pol_budget :: "nat option"
  pol_budget_key :: "string option"
  pol_name :: "string option"
  pol_testing :: bool

definition default_policy :: "'s policy" where
  "default_policy = \<lparr>pol_stop = StopAfterAttempt 3, pol_delay = FixedDelay (PInt 0),
     pol_condition = ExceptionCondition [Exception_t], pol_raise_last = True,
     pol_return_result = False, pol_result_exhausted = ReturnLast, pol_callback = None,
     pol_factory = None, pol_handlers = [], pol_sleep = DefaultSleep,
     pol_async_sleep = DefaultSleepAsync, pol_history_limit = Some 1000, pol_budget = None,
     pol_budget_key = None, pol_name = None, pol_testing = False\<rparr>"

definition policy_name_error :: exn where
  "policy_name_error = config_error ''policy name must be a non-empty string''"

definition budget_key_error :: exn where
  "budget_key_error = config_error ''retry budget key must be a non-empty string''"

definition exclusive_error :: exn where
  "exclusive_error = config_error ''exhaustion behaviors are mutually exclusive''"

text \<open>How many explicit exhaustion behaviours are set.\<close>

definition explicit_behaviors :: "'s policy \<Rightarrow> nat" where
  "explicit_behaviors p =
     of_bool (pol_return_result p) + of_bool (pol_callback p \<noteq> None) + of_bool (pol_factory p \<noteq> None)"

definition check_sleepers :: "'s policy \<Rightarrow> unit res" where
  "check_sleepers p =
     res_bind (case pol_sleep p of SleepFun s f \<Rightarrow> ensure_sync_sleeper s | _ \<Rightarrow> Ok ()) (\<lambda>_.
       case pol_async_sleep p of AsyncSleepFun s f \<Rightarrow> ensure_callable ''async_sleep'' s | _ \<Rightarrow> Ok ())"

text \<open>\<open>__post_init__\<close>\<close>

definition post_init :: "'s policy \<Rightarrow> 's policy res" where
  "post_init p =
     (if (case pol_name p of None \<Rightarrow> False | Some n \<Rightarrow> blank n) then Raise policy_name_error
      else res_bind
        (case pol_history_limit p of
           None \<Rightarrow> Ok () | Some n \<Rightarrow> ensure_positive_int ''history_limit'' (VInt (int n))) (\<lambda>_.
        if pol_budget p = None \<and> pol_budget_key p \<noteq> None
        then Raise (config_error ''retry_budget_key requires a RetryBudget'')
        else if pol_budget p \<noteq> None \<and>
          (case pol_budget_key p of None \<Rightarrow> True | Some k \<Rightarrow> blank k)
        then Raise budget_key_error
        else if 1 < explicit_behaviors p \<or> (pol_raise_last p \<and> 0 < explicit_behaviors p)
        then Raise exclusive_error
        else res_bind (check_sleepers p) (\<lambda>_. Ok p)))"

lemma post_init_same: "post_init p = Ok q \<Longrightarrow> q = p"
  by (auto simp: post_init_def res_bind_Ok_iff split: if_splits)

section \<open>Builder methods\<close>

definition named :: "pyval \<Rightarrow> 's policy \<Rightarrow> 's policy res" where
  "named name p =
     (case name of
        VStr n \<Rightarrow> if blank n then Raise policy_name_error else post_init (p\<lparr>pol_name := Some n\<rparr>)
      | _ \<Rightarrow> Raise policy_name_error)"

text \<open>\<open>replace(self, stop_strategy=...)\<close> and the like, once the new part is constructed.\<close>

definition with_stop :: "'s policy \<Rightarrow> 's stop res \<Rightarrow> 's policy res" where
  "with_stop p strategy = res_bind strategy (\<lambda>s. post_init (p\<lparr>pol_stop := s\<rparr>))"

definition with_condition :: "'s policy \<Rightarrow> 's condition res \<Rightarrow> 's policy res" where
  "with_condition p condition = res_bind condition (\<lambda>c. post_init (p\<lparr>pol_condition := c\<rparr>))"

definition with_delay :: "'s policy \<Rightarrow> 's delay res \<Rightarrow> 's policy res" where
  "with_delay p strategy = res_bind strategy (\<lambda>d. post_init (p\<lparr>pol_delay := d\<rparr>))"

definition attempts :: "pyval \<Rightarrow> 's policy \<Rightarrow> 's policy res" where
  "attempts maximum p = with_stop p (mk_StopAfterAttempt maximum)"

definition forever :: "'s policy \<Rightarrow> 's policy res" where
  "forever p = with_stop p (Ok StopForever)"

definition max_time :: "pyval \<Rightarrow> 's policy \<Rightarrow> 's policy res" where
  "max_time seconds p = with_stop p (mk_StopAfterDelay seconds)"

definition stop_when :: "'s stop \<Rightarrow> 's policy \<Rightarrow> 's policy res" where
  "stop_when strategy p = with_stop p (Ok strategy)"

definition or_stop_after_attempts :: "pyval \<Rightarrow> 's policy \<Rightarrow> 's policy res" where
  "or_stop_after_attempts maximum p =
     with_stop p (res_bind (mk_StopAfterAttempt maximum) (\<lambda>s.
       mk_AnyStop (flatten_any_stop_strategies [pol_stop p, s])))"

definition or_stop_after_time :: "pyval \<Rightarrow> 's policy \<Rightarrow> 's policy res" where
  "or_stop_after_time seconds p =
     with_stop p (res_bind (mk_StopAfterDelay seconds) (\<lambda>s.
       mk_AnyStop (flatten_any_stop_strategies [pol_stop p, s])))"

definition and_stop_after_attempts :: "pyval \<Rightarrow> 's policy \<Rightarrow> 's policy res" where
  "and_stop_after_attempts maximum p =
     with_stop p (res_bind (mk_StopAfterAttempt maximum) (\<lambda>s.
       mk_AllStop (flatten_all_stop_strategies [pol_stop p, s])))"

definition and_stop_after_time :: "pyval \<Rightarrow> 's policy \<Rightarrow> 's policy res" where
  "and_stop_after_time seconds p =
     with_stop p (res_bind (mk_StopAfterDelay seconds) (\<lambda>s.
       mk_AllStop (flatten_all_stop_strategies [pol_stop p, s])))"

text \<open>\<open>on(*exception_types)\<close>: the loop over the types, then the condition.\<close>

fun check_on_types :: "pyval list \<Rightarrow> unit res" where
  "check_on_types [] = Ok ()"
| "check_on_types (VExcType c # rest) =
     (if \<not> issubclass c Exception_t
      then Raise (config_error (et_name c @ '' is a BaseException subclass''))
      else check_on_types rest)"
| "check_on_types (VClass n # rest) = Raise (config_error (n @ '' is a BaseException subclass''))"
| "check_on_types (v # rest) =
     Raise (config_error (''exception types must be classes, got '' @ type_name v))"

definition on :: "pyval list \<Rightarrow> 's policy \<Rightarrow> 's policy res" where
  "on exception_types p =
     (let types = (if exception_types = [] then [VExcType Exception_t] else exception_types)
      in res_bind (check_on_types types) (\<lambda>_. with_condition p (mk_ExceptionCondition types)))"

definition retry_if_result :: "(pyval \<Rightarrow> ('s, bool) py) pyfun \<Rightarrow> 's policy \<Rightarrow> 's policy res" where
  "retry_if_result predicate p =
     res_bind (ensure_callable ''predicate'' (pf_shape predicate)) (\<lambda>_.
       with_condition p (mk_ResultCondition predicate))"

definition retry_if ::
    "(exn option \<Rightarrow> pyval \<Rightarrow> ('s, bool) py) pyfun \<Rightarrow> 's policy \<Rightarrow> 's policy res" where
  "retry_if callback p =
     res_bind (ensure_callable ''callback'' (pf_shape callback)) (\<lambda>_.
       with_condition p (mk_CustomCondition callback))"

definition any_condition :: "'s condition list \<Rightarrow> 's policy \<Rightarrow> 's policy res" where
  "any_condition conditions p = with_condition p (mk_AnyCondition (flatten_any_conditions conditions))"

definition all_conditions :: "'s condition list \<Rightarrow> 's policy \<Rightarrow> 's policy res" where
  "all_conditions conditions p = with_condition p (mk_AllCondition (flatten_all_conditions conditions))"

definition or_on :: "pyval list \<Rightarrow> 's policy \<Rightarrow> 's policy res" where
  "or_on exception_types p =
     with_condition p (res_bind (mk_ExceptionCondition exception_types) (\<lambda>c.
       mk_AnyCondition (flatten_any_conditions [pol_condition p, c])))"

definition or_retry_if_result :: "(pyval \<Rightarrow> ('s, bool) py) pyfun \<Rightarrow> 's policy \<Rightarrow> 's policy res" where
  "or_retry_if_result predicate p =
     res_bind (ensure_callable ''predicate'' (pf_shape predicate)) (\<lambda>_.
       with_condition p (res_bind (mk_ResultCondition predicate) (\<lambda>c.
         mk_AnyCondition (flatten_any_conditions [pol_condition p, c]))))"

definition fixed_delay :: "pyval \<Rightarrow> 's policy \<Rightarrow> 's policy res" where
  "fixed_delay seconds p = with_delay p (mk_FixedDelay seconds)"

definition no_delay :: "'s policy \<Rightarrow> 's policy res" where
  "no_delay p = fixed_delay (VInt 0) p"

definition linear_delay :: "pyval \<Rightarrow> pyval \<Rightarrow> pyval option \<Rightarrow> 's policy \<Rightarrow> 's policy res" where
  "linear_delay start step maximum p = with_delay p (mk_LinearDelay start step maximum)"

definition chain_delay :: "pyval list \<Rightarrow> 's policy \<Rightarrow> 's policy res" where
  "chain_delay delays p = with_delay p (mk_ChainDelay delays)"

definition exponential_delay :: "pyval \<Rightarrow> pyval \<Rightarrow> pyval option \<Rightarrow> 's policy \<Rightarrow> 's policy res" where
  "exponential_delay base factor maximum p = with_delay p (mk_ExponentialDelay base factor maximum)"

definition random_exponential_delay ::
    "pyval \<Rightarrow> pyval \<Rightarrow> pyval \<Rightarrow> pyval option \<Rightarrow> int option \<Rightarrow> 's policy \<Rightarrow> 's policy res" where
  "random_exponential_delay base factor minimum maximum seed p =
     with_delay p (mk_RandomExponentialDelay base factor minimum maximum seed)"

definition random_delay :: "pyval \<Rightarrow> pyval \<Rightarrow> int option \<Rightarrow> 's policy \<Rightarrow> 's policy res" where
  "random_delay minimum maximum seed p = with_delay p (mk_RandomDelay minimum maximum seed)"

definition jitter :: "pyval \<Rightarrow> pyval \<Rightarrow> int option \<Rightarrow> 's policy \<Rightarrow> 's policy res" where
  "jitter minimum maximum seed p =
     with_delay p (res_bind (mk_RandomDelay minimum maximum seed) (\<lambda>j.
       Ok (AdditiveDelay [pol_delay p, j])))"

definition add_delay :: "'s delay \<Rightarrow> 's policy \<Rightarrow> 's policy res" where
  "add_delay strategy p = with_delay p (Ok (AdditiveDelay [pol_delay p, strategy]))"

definition custom_delay :: "(int \<Rightarrow> ('s, pyval) py) pyfun \<Rightarrow> 's policy \<Rightarrow> 's policy res" where
  "custom_delay callback p =
     res_bind (ensure_callable ''callback'' (pf_shape callback)) (\<lambda>_.
       with_delay p (mk_CustomDelay callback))"

definition stateful_delay :: "(retry_state \<Rightarrow> ('s, pyval) py) pyfun \<Rightarrow> 's policy \<Rightarrow> 's policy res" where
  "stateful_delay callback p =
     res_bind (ensure_callable ''callback'' (pf_shape callback)) (\<lambda>_.
       with_delay p (mk_StatefulCustomDelay callback))"

subsection \<open>Exhaustion\<close>

definition replace_exhaustion ::
    "bool \<Rightarrow> bool \<Rightarrow> (result \<Rightarrow> ('s, pyval) py) option \<Rightarrow> (result \<Rightarrow> ('s, exn option) py) option
      \<Rightarrow> 's policy \<Rightarrow> 's policy res" where
  "replace_exhaustion should_raise_last should_return_result callback factory p =
     post_init (p\<lparr>pol_raise_last := should_raise_last, pol_return_result := should_return_result,
                  pol_callback := callback, pol_factory := factory\<rparr>)"

definition raise_last :: "'s policy \<Rightarrow> 's policy res" where
  "raise_last p = replace_exhaustion True False None None p"

definition return_result :: "'s policy \<Rightarrow> 's policy res" where
  "return_result p = replace_exhaustion False True None None p"

definition raise_on_result_exhausted :: "'s policy \<Rightarrow> 's policy res" where
  "raise_on_result_exhausted p = post_init (p\<lparr>pol_result_exhausted := RaiseExhausted\<rparr>)"

definition return_last_on_result_exhausted :: "'s policy \<Rightarrow> 's policy res" where
  "return_last_on_result_exhausted p = post_init (p\<lparr>pol_result_exhausted := ReturnLast\<rparr>)"

definition on_exhausted_return :: "(result \<Rightarrow> ('s, pyval) py) pyfun \<Rightarrow> 's policy \<Rightarrow> 's policy res" where
  "on_exhausted_return callback p =
     res_bind (ensure_callable ''callback'' (pf_shape callback)) (\<lambda>_.
       replace_exhaustion False False (Some (pf_run callback)) None p)"

definition on_exhausted_return_value :: "pyval \<Rightarrow> 's policy \<Rightarrow> 's policy res" where
  "on_exhausted_return_value v p =
     on_exhausted_return (PyFun (Function PlainFunction) (\<lambda>result. py_return v)) p"

definition fallback :: "(result \<Rightarrow> ('s, pyval) py) pyfun \<Rightarrow> 's policy \<Rightarrow> 's policy res" where
  "fallback callback p = on_exhausted_return callback p"

definition fallback_value :: "pyval \<Rightarrow> 's policy \<Rightarrow> 's policy res" where
  "fallback_value v p = on_exhausted_return_value v p"

text \<open>
  \<open>_copy_exception_instance\<close>; \<open>copier\<close> is \<open>copy.copy\<close> on the instance and \<open>rebuild\<close> is
  \<open>type(exception)(*exception.args)\<close>. \<open>copied is exception\<close> compares identities; the rebuilt
  instance takes over the \<open>__dict__\<close> of the original, its \<open>result\<close>.
\<close>

definition copy_exception_instance ::
    "(exn \<Rightarrow> ('s, exn) py) \<Rightarrow> (exn \<Rightarrow> ('s, exn) py) \<Rightarrow> exn \<Rightarrow> ('s, exn) py" where
  "copy_exception_instance copier rebuild exception =
     py_bind
       (py_catch (copier exception) (\<lambda>e. if is_exception e then rebuild exception else py_raise e))
       (\<lambda>copied.
     py_bind
       (if exn_id copied = exn_id exception
        then py_bind (rebuild exception) (\<lambda>c.
          py_return (Exn (exn_id c) (exn_type c) (exn_msg c) (exn_cause c) (exn_context c)
                       (exn_suppress c) (exn_result exception)))
        else py_return copied)
       (\<lambda>c. py_return (Exn (exn_id c) (exn_type c) (exn_msg c) None None
                         (exn_suppress exception) (exn_result c))))"

text \<open>The argument of \<open>on_exhausted_raise\<close>, by the order of its tests.\<close>

datatype 's raise_arg =
    RaiseClass "'s exc_class"
  | RaiseOtherClass string
  | RaiseInstance exn "exn \<Rightarrow> ('s, exn) py" "exn \<Rightarrow> ('s, exn) py"
  | RaiseFactory "result \<Rightarrow> ('s, exn option) py"
  | RaiseOther

definition exhausted_message :: string where
  "exhausted_message = ''Retry attempts were exhausted.''"

definition on_exhausted_raise :: "'s raise_arg \<Rightarrow> 's policy \<Rightarrow> 's policy res" where
  "on_exhausted_raise exception p =
     res_bind
       (case exception of
          RaiseClass c \<Rightarrow>
            res_bind (validate_exception_class c) (\<lambda>_.
              Ok (\<lambda>result. py_bind (instantiate_exception_class c exhausted_message)
                              (\<lambda>e. py_return (Some e))))
        | RaiseOtherClass n \<Rightarrow> Raise (config_error (n @ '' is not a BaseException subclass''))
        | RaiseInstance e copier rebuild \<Rightarrow>
            Ok (\<lambda>result. py_bind (copy_exception_instance copier rebuild e) (\<lambda>c. py_return (Some c)))
        | RaiseFactory f \<Rightarrow> Ok f
        | RaiseOther \<Rightarrow> Raise (config_error ''exception must be an exception, class, or factory''))
       (\<lambda>factory. replace_exhaustion False False None (Some factory) p)"

subsection \<open>History, budget, sleep\<close>

definition keep_history :: "pyval \<Rightarrow> 's policy \<Rightarrow> 's policy res" where
  "keep_history maximum p =
     (case maximum of
        VNone \<Rightarrow> post_init (p\<lparr>pol_history_limit := None\<rparr>)
      | _ \<Rightarrow> res_bind (ensure_positive_int ''maximum'' maximum) (\<lambda>_.
          post_init (p\<lparr>pol_history_limit := Some (nat (int_of maximum))\<rparr>)))"

text \<open>\<open>budget\<close> is the heap key of a \<open>RetryBudget\<close>, \<open>None\<close> an object of another class.\<close>

definition with_retry_budget :: "nat option \<Rightarrow> pyval \<Rightarrow> 's policy \<Rightarrow> 's policy res" where
  "with_retry_budget budget key p =
     (case budget of
        None \<Rightarrow> Raise (config_error ''budget must be a RetryBudget'')
      | Some b \<Rightarrow>
          (case key of
             VStr k \<Rightarrow> if blank k then Raise budget_key_error
                       else post_init (p\<lparr>pol_budget := Some b, pol_budget_key := Some k\<rparr>)
           | _ \<Rightarrow> Raise budget_key_error))"

definition without_retry_budget :: "'s policy \<Rightarrow> 's policy res" where
  "without_retry_budget p = post_init (p\<lparr>pol_budget := None, pol_budget_key := None\<rparr>)"

definition check_sleeper :: "'s sleeper \<Rightarrow> unit res" where
  "check_sleeper s = (case s of SleepFun sh f \<Rightarrow> ensure_sync_sleeper sh | _ \<Rightarrow> Ok ())"

definition check_async_sleeper :: "'s async_sleeper \<Rightarrow> unit res" where
  "check_async_sleeper s =
     (case s of AsyncSleepFun sh f \<Rightarrow> ensure_callable ''async_sleep'' sh | _ \<Rightarrow> Ok ())"

definition with_sleep ::
    "'s sleeper \<Rightarrow> 's async_sleeper option \<Rightarrow> 's policy \<Rightarrow> 's policy res" where
  "with_sleep sleep async_sleep p =
     res_bind (check_sleeper sleep) (\<lambda>_.
     res_bind (case async_sleep of Some a \<Rightarrow> check_async_sleeper a | None \<Rightarrow> Ok ()) (\<lambda>_.
       let resolved = (case async_sleep of
                         Some a \<Rightarrow> a
                       | None \<Rightarrow> if pol_testing p then DefaultSleepAsync else pol_async_sleep p)
       in post_init (p\<lparr>pol_sleep := sleep, pol_async_sleep := resolved, pol_testing := False\<rparr>)))"

definition for_testing :: "'s policy \<Rightarrow> 's policy res" where
  "for_testing p =
     res_bind (with_sleep NoSleep (Some NoSleepAsync) p) (\<lambda>q. post_init (q\<lparr>pol_testing := True\<rparr>))"

subsection \<open>Handlers\<close>

definition on_event ::
    "string \<Rightarrow> 's handler pyfun \<Rightarrow> string \<Rightarrow> 's policy \<Rightarrow> 's policy res" where
  "on_event name handler mode p =
     (case map_of event_names name of
        None \<Rightarrow> Raise (config_error (''unknown event name '' @ name))
      | Some n \<Rightarrow>
          res_bind (ensure_callable ''handler'' (pf_shape handler)) (\<lambda>_.
            if is_async_callable (pf_shape handler)
            then Raise (config_error ''Async event handlers are not supported'')
            else if mode \<noteq> ''propagate'' \<and> mode \<noteq> ''isolate''
            then Raise (config_error ''failure_mode must be propagate or isolate'')
            else post_init (p\<lparr>pol_handlers := pol_handlers p @
              [Registration n (pf_run handler) (if mode = ''isolate'' then Isolate else Propagate)]\<rparr>)))"

definition on_before_attempt :: "'s handler pyfun \<Rightarrow> 's policy \<Rightarrow> 's policy res" where
  "on_before_attempt h p = on_event ''before_attempt'' h ''propagate'' p"

definition on_success :: "'s handler pyfun \<Rightarrow> 's policy \<Rightarrow> 's policy res" where
  "on_success h p = on_event ''after_success'' h ''propagate'' p"

definition on_failure :: "'s handler pyfun \<Rightarrow> 's policy \<Rightarrow> 's policy res" where
  "on_failure h p = on_event ''after_failure'' h ''propagate'' p"

definition on_retry :: "'s handler pyfun \<Rightarrow> 's policy \<Rightarrow> 's policy res" where
  "on_retry h p = on_event ''before_sleep'' h ''propagate'' p"

definition on_giveup :: "'s handler pyfun \<Rightarrow> 's policy \<Rightarrow> 's policy res" where
  "on_giveup h p = on_event ''after_giveup'' h ''propagate'' p"

text \<open>The loop of \<open>debug\<close>, \<open>with_logging\<close> and \<open>with_structured_logging\<close> over event names.\<close>

fun on_events :: "string list \<Rightarrow> 's handler pyfun \<Rightarrow> 's policy \<Rightarrow> 's policy res" where
  "on_events [] h p = Ok p"
| "on_events (n # ns) h p = res_bind (on_event n h ''isolate'' p) (on_events ns h)"

definition has_handler :: "'s policy \<Rightarrow> event_name \<Rightarrow> bool" where
  "has_handler p name = list_ex (\<lambda>entry. entry_name entry = name) (pol_handlers p)"

section \<open>Emitting an event\<close>

text \<open>\<open>_report_isolated_event_failure\<close>; \<open>suppress(Exception)\<close> drops what the logger raises.\<close>

definition report_isolated_event_failure ::
    "'u pyenv \<Rightarrow> retry_event \<Rightarrow> exn \<Rightarrow> ('u, unit) io" where
  "report_isolated_event_failure E event error =
     py_catch
       (env_log E ''relinker.events''
          [VStr (event_str (ev_name event)), VNat (ev_attempt_number event),
           VStr (ev_function_name event),
           VStr (case ev_policy_name event of None \<Rightarrow> [] | Some n \<Rightarrow> n),
           VStr (et_name (exn_type error))])
       (\<lambda>e. if is_exception e then py_return () else py_raise e)"

text \<open>The policy's name is filled in where the event and its state have none.\<close>

definition with_policy_name :: "'s policy \<Rightarrow> retry_event \<Rightarrow> retry_event" where
  "with_policy_name p event =
     (if pol_name p \<noteq> None \<and> ev_policy_name event = None
      then event\<lparr>ev_policy_name := pol_name p,
                 ev_state := map_option (\<lambda>s. if st_policy_name s = None
                   then s\<lparr>st_policy_name := pol_name p\<rparr> else s) (ev_state event)\<rparr>
      else event)"

fun emit_loop ::
    "'u pyenv \<Rightarrow> 'u world_scheme handler_entry list \<Rightarrow> retry_event \<Rightarrow> ('u, unit) io" where
  "emit_loop E [] event = py_return ()"
| "emit_loop E (entry # rest) event =
     (if entry_name entry = ev_name event
      then py_bind
        (py_catch (entry_handler entry event) (\<lambda>error.
           if is_exception error \<and> entry_mode entry = Isolate
           then report_isolated_event_failure E event error else py_raise error))
        (\<lambda>_. emit_loop E rest event)
      else emit_loop E rest event)"

definition emit :: "'u pyenv \<Rightarrow> 'u world_scheme policy \<Rightarrow> retry_event \<Rightarrow> ('u, unit) io" where
  "emit E p event = emit_loop E (pol_handlers p) (with_policy_name p event)"

text \<open>A policy for concrete runs: three attempts, no delay, no sleep, a tracked result.\<close>

definition ex_policy :: "'s policy" where
  "ex_policy = default_policy\<lparr>pol_sleep := NoSleep, pol_async_sleep := NoSleepAsync,
     pol_return_result := True, pol_raise_last := False\<rparr>"

text \<open>
  C14: the flattening the builder methods do when they combine strategies or conditions changes no decision,
  no effect and no exception: not of a stop strategy, and not of a condition on exceptions or on values.
\<close>

theorem flatten_equivalent:
  "should_stop (AnyStop (flatten_any_stop_strategies ss)) k elapsed = should_stop (AnyStop ss) k elapsed
    \<and> should_stop (AllStop (flatten_all_stop_strategies ss)) k elapsed = should_stop (AllStop ss) k elapsed
    \<and> should_retry_exception (AnyCondition (flatten_any_conditions cs)) e = should_retry_exception (AnyCondition cs) e
    \<and> should_retry_result (AnyCondition (flatten_any_conditions cs)) v = should_retry_result (AnyCondition cs) v
    \<and> should_retry_exception (AllCondition (flatten_all_conditions cs)) e = should_retry_exception (AllCondition cs) e
    \<and> should_retry_result (AllCondition (flatten_all_conditions cs)) v = should_retry_result (AllCondition cs) v"
  using flatten_stop_equivalent flatten_conditions_equivalent by blast

end
