(* ===== verification/Flow.thy ===== *)
theory Flow
  imports Main Policy
begin

text \<open>
  What happens between the end of an attempt and the next one: \<open>internal/runtime.py\<close> (attempt
  counters and bounded history), \<open>internal/exhaustion.py\<close> (the final behaviour),
  \<open>internal/retry_wait.py\<close> (the wait plan with its budget reservation) and
  \<open>internal/executor_flow.py\<close> (\<open>RetryFlow\<close>). The mutable flow object is part of the state, next to
  the world: what it recorded before an exception stays recorded.
\<close>

section \<open>\<open>RetryRuntime\<close>\<close>

record runtime =
  rn_function_name :: string
  rn_started_at :: flt
  rn_policy_name :: "string option"
  rn_history_limit :: "nat option"
  rn_attempts :: "attempt list"
  rn_attempt_number :: nat
  rn_failed :: nat
  rn_success :: nat

definition runtime_init :: "string \<Rightarrow> flt \<Rightarrow> nat option \<Rightarrow> string option \<Rightarrow> runtime" where
  "runtime_init function_name started_at history_limit name =
     \<lparr>rn_function_name = function_name, rn_started_at = started_at, rn_policy_name = name,
      rn_history_limit = history_limit, rn_attempts = [], rn_attempt_number = 0, rn_failed = 0,
      rn_success = 0\<rparr>"

text \<open>\<open>deque(maxlen=limit).append(x)\<close> drops from the left.\<close>

definition deque_append :: "nat option \<Rightarrow> 'a list \<Rightarrow> 'a \<Rightarrow> 'a list" where
  "deque_append limit xs x =
     (let ys = xs @ [x]
      in case limit of None \<Rightarrow> ys | Some m \<Rightarrow> drop (length ys - m) ys)"

definition begin_attempt :: "runtime \<Rightarrow> runtime" where
  "begin_attempt rt = rt\<lparr>rn_attempt_number := rn_attempt_number rt + 1\<rparr>"

definition record_success :: "flt \<Rightarrow> flt \<Rightarrow> pyval \<Rightarrow> bool \<Rightarrow> runtime \<Rightarrow> runtime" where
  "record_success started_at ended_at v has_value rt =
     rt\<lparr>rn_attempts := deque_append (rn_history_limit rt) (rn_attempts rt)
          (AttemptRecord (rn_attempt_number rt) started_at ended_at v None has_value),
        rn_success := rn_success rt + 1\<rparr>"

definition record_failure :: "flt \<Rightarrow> flt \<Rightarrow> exn \<Rightarrow> runtime \<Rightarrow> runtime" where
  "record_failure started_at ended_at error rt =
     rt\<lparr>rn_attempts := deque_append (rn_history_limit rt) (rn_attempts rt)
          (AttemptRecord (rn_attempt_number rt) started_at ended_at VNone (Some error) False),
        rn_failed := rn_failed rt + 1\<rparr>"

text \<open>The keyword arguments of \<open>state()\<close> and \<open>build_state()\<close>, with their defaults.\<close>

record state_fields =
  sf_last_value :: pyval
  sf_last_error :: "exn option"
  sf_has_value :: bool
  sf_next_delay :: "flt option"
  sf_retry_cause :: "retry_cause option"
  sf_will_retry :: bool
  sf_will_stop :: bool
  sf_policy_delay :: "flt option"
  sf_budget_delay :: "flt option"

definition no_fields :: state_fields where
  "no_fields = \<lparr>sf_last_value = VNone, sf_last_error = None, sf_has_value = False,
     sf_next_delay = None, sf_retry_cause = None, sf_will_retry = False, sf_will_stop = False,
     sf_policy_delay = None, sf_budget_delay = None\<rparr>"

text \<open>\<open>RetryRuntime.state\<close> through \<open>build_state\<close>, which reads the clock for the elapsed time.\<close>

definition runtime_state :: "'u pyenv \<Rightarrow> runtime \<Rightarrow> state_fields \<Rightarrow> ('u, retry_state) io" where
  "runtime_state E rt f =
     py_bind (clock_now E) (\<lambda>now. py_return
       \<lparr>st_function_name = rn_function_name rt, st_attempt_number = rn_attempt_number rt,
        st_started_at = rn_started_at rt, st_elapsed = fl_sub now (rn_started_at rt),
        st_attempts = rn_attempts rt, st_last_value = sf_last_value f,
        st_last_error = sf_last_error f, st_has_value = sf_has_value f,
        st_next_delay = sf_next_delay f, st_retry_cause = sf_retry_cause f,
        st_will_retry = sf_will_retry f, st_will_stop = sf_will_stop f,
        st_policy_delay = sf_policy_delay f, st_budget_delay = sf_budget_delay f,
        st_policy_name = rn_policy_name rt, st_total_attempts = rn_attempt_number rt,
        st_total_failed = Some (rn_failed rt), st_total_successful = Some (rn_success rt)\<rparr>)"

section \<open>Exhaustion\<close>

text \<open>\<open>resolve_final_error\<close>: what a final \<open>TryAgain\<close> stands for.\<close>

definition plain_exception :: "exn \<Rightarrow> bool" where
  "plain_exception e \<longleftrightarrow> is_exception e \<and> \<not> is_try_again e"

definition resolve_final_error :: "exn option \<Rightarrow> exn option" where
  "resolve_final_error error =
     (case error of
        None \<Rightarrow> None
      | Some e \<Rightarrow>
          if \<not> is_try_again e then Some e
          else case exn_cause e of
            Some c \<Rightarrow>
              if plain_exception c then Some c
              else (case exn_context e of
                      Some x \<Rightarrow> if \<not> exn_suppress e \<and> plain_exception x then Some x else Some e
                    | None \<Rightarrow> Some e)
          | None \<Rightarrow>
              (case exn_context e of
                 Some x \<Rightarrow> if \<not> exn_suppress e \<and> plain_exception x then Some x else Some e
               | None \<Rightarrow> Some e))"

definition runtime_result ::
    "runtime \<Rightarrow> flt \<Rightarrow> pyval \<Rightarrow> exn option \<Rightarrow> bool \<Rightarrow> retry_cause option \<Rightarrow> result" where
  "runtime_result rt ended_at v error exhausted cause =
     RetryResult (rn_attempts rt) v
       (if exhausted \<and> cause = Some CauseException then resolve_final_error error else error)
       (rn_started_at rt) ended_at exhausted cause
       (rn_attempt_number rt) (Some (rn_failed rt)) (Some (rn_success rt)) (rn_policy_name rt)"

definition should_stop_before_sleep ::
    "'s stop \<Rightarrow> nat \<Rightarrow> flt \<Rightarrow> flt \<Rightarrow> ('s, bool) py" where
  "should_stop_before_sleep strategy attempt_number elapsed delay =
     should_stop strategy (int attempt_number) (fl_add elapsed delay)"

text \<open>What an execution returns: the \<open>RetryResult\<close> itself, or a value.\<close>

datatype outcome = Tracked result | Plain pyval

definition retry_exhausted_error :: "result \<Rightarrow> exn" where
  "retry_exhausted_error r =
     Exn 0 RetryExhaustedError_t ''Retry attempts were exhausted by rejected return values.''
       None None False (Some r)"

definition finish_exhausted :: "'s policy \<Rightarrow> result \<Rightarrow> ('s, outcome) py" where
  "finish_exhausted p r =
     (if pol_return_result p then py_return (Tracked r)
      else case pol_callback p of
        Some callback \<Rightarrow> py_bind (callback r) (\<lambda>v. py_return (Plain v))
      | None \<Rightarrow>
         (case pol_factory p of
            Some factory \<Rightarrow>
              py_bind (factory r) (\<lambda>exception. case exception of
                None \<Rightarrow> py_raise (config_error ''exception factory must return a BaseException instance'')
              | Some e \<Rightarrow> py_raise e)
          | None \<Rightarrow>
              if rr_error r \<noteq> None \<and> pol_raise_last p then py_raise (the (rr_error r))
              else if exhausted_by_result r \<and> pol_result_exhausted p = RaiseExhausted
              then py_raise (retry_exhausted_error r)
              else py_return (Plain (rr_value r))))"

definition resolve_tracked_result :: "'s policy \<Rightarrow> result \<Rightarrow> ('s, outcome) py" where
  "resolve_tracked_result p r =
     (if pol_return_result p then py_return (Tracked r)
      else if rr_exhausted r then finish_exhausted p r
      else case rr_error r of Some e \<Rightarrow> py_raise e | None \<Rightarrow> py_return (Plain (rr_value r)))"

section \<open>Planning the wait\<close>

record wait_plan =
  wp_policy_delay :: flt
  wp_budget_delay :: flt
  wp_total_delay :: flt
  wp_reservation :: "reservation option"
  wp_budget :: "nat option"

text \<open>The two operations of the shared budget object at key \<open>b\<close> of the heap.\<close>

definition budget_reserve ::
    "nat \<Rightarrow> string \<Rightarrow> flt \<Rightarrow> flt \<Rightarrow> ('u, reservation) io" where
  "budget_reserve b key current not_before w =
     (case reserve (w_budgets w b) (VStr key) current not_before of
        (r, budget) \<Rightarrow> (r, w\<lparr>w_budgets := (w_budgets w)(b := budget)\<rparr>))"

definition budget_release :: "'u pyenv \<Rightarrow> nat \<Rightarrow> reservation \<Rightarrow> ('u, unit) io" where
  "budget_release E b r =
     py_bind (clock_now E) (\<lambda>now w.
       (Ok (), w\<lparr>w_budgets := (w_budgets w)(b := release (w_budgets w b) r now)\<rparr>))"

text \<open>\<open>try: m except BaseException: cleanup; raise\<close>\<close>

definition on_error :: "('s, 'a) py \<Rightarrow> ('s, unit) py \<Rightarrow> ('s, 'a) py" where
  "on_error m cleanup_code = py_catch m (\<lambda>e. py_bind cleanup_code (\<lambda>_. py_raise e))"

definition plan_retry_wait ::
    "'u pyenv \<Rightarrow> 'u world_scheme policy \<Rightarrow> nat \<Rightarrow> retry_state option \<Rightarrow> ('u, wait_plan option) io" where
  "plan_retry_wait E p attempt_number state =
     py_bind (resolve_delay E (pol_delay p) (int attempt_number) state) (\<lambda>v.
     py_bind (py_lift (ensure_resolved_delay v)) (\<lambda>policy_delay.
       case pol_budget p of
         None \<Rightarrow> py_return (Some \<lparr>wp_policy_delay = policy_delay, wp_budget_delay = 0,
                   wp_total_delay = policy_delay, wp_reservation = None, wp_budget = None\<rparr>)
       | Some b \<Rightarrow>
           (case pol_budget_key p of
              None \<Rightarrow> py_raise (new_exn RuntimeError_t ''retry budget configured without a key'')
            | Some key \<Rightarrow>
                py_bind (clock_now E) (\<lambda>current.
                let not_before = fl_add current policy_delay in
                py_bind (budget_reserve b key current not_before) (\<lambda>r.
                on_error
                  (let budget_delay = max 0 (fl_sub (rs_scheduled_at r) not_before);
                       total_delay = fl_add policy_delay budget_delay
                   in if MAX_SLEEP_SECONDS < total_delay
                      then py_bind (budget_release E b r) (\<lambda>_. py_return None)
                      else
                        py_bind (py_lift (ensure_resolved_delay (VFloat budget_delay))) (\<lambda>bd.
                        py_bind (py_lift (ensure_resolved_delay (VFloat total_delay))) (\<lambda>td.
                          py_return (Some \<lparr>wp_policy_delay = policy_delay, wp_budget_delay = bd,
                            wp_total_delay = td, wp_reservation = Some r, wp_budget = Some b\<rparr>))))
                  (budget_release E b r))))))"

definition release_retry_wait :: "'u pyenv \<Rightarrow> wait_plan \<Rightarrow> ('u, unit) io" where
  "release_retry_wait E plan =
     (case (wp_budget plan, wp_reservation plan) of
        (Some b, Some r) \<Rightarrow> budget_release E b r
      | _ \<Rightarrow> py_return ())"

section \<open>\<open>RetryFlow\<close>\<close>

datatype final_kind = Accept | Reject | Exhaust

datatype decision = Wait wait_plan | Final final_kind result

record flow =
  fw_runtime :: runtime
  fw_attempt_started_at :: flt

text \<open>The state of an execution: the flow object and the world.\<close>

type_synonym ('u, 'a) fio = "(flow \<times> 'u world_scheme, 'a) py"

definition in_world :: "('u, 'a) io \<Rightarrow> ('u, 'a) fio" where
  "in_world m s = (case m (snd s) of (r, w) \<Rightarrow> (r, (fst s, w)))"

definition get_runtime :: "('u, runtime) fio" where
  "get_runtime s = (Ok (fw_runtime (fst s)), s)"

definition get_attempt_started_at :: "('u, flt) fio" where
  "get_attempt_started_at s = (Ok (fw_attempt_started_at (fst s)), s)"

definition update_runtime :: "(runtime \<Rightarrow> runtime) \<Rightarrow> ('u, unit) fio" where
  "update_runtime g s = (Ok (), ((fst s)\<lparr>fw_runtime := g (fw_runtime (fst s))\<rparr>, snd s))"

definition set_attempt_started_at :: "flt \<Rightarrow> ('u, unit) fio" where
  "set_attempt_started_at t s = (Ok (), ((fst s)\<lparr>fw_attempt_started_at := t\<rparr>, snd s))"

text \<open>\<open>RetryFlow.__init__\<close>\<close>

definition flow_init ::
    "'u pyenv \<Rightarrow> 'u world_scheme policy \<Rightarrow> string \<Rightarrow> ('u, flow) io" where
  "flow_init E p function_name =
     py_bind (clock_now E) (\<lambda>now.
       py_return \<lparr>fw_runtime = runtime_init function_name now (pol_history_limit p) (pol_name p),
                  fw_attempt_started_at = now\<rparr>)"

text \<open>\<open>_emit\<close>: the state snapshot is built only when a handler observes the event.\<close>

definition flow_emit ::
    "'u pyenv \<Rightarrow> 'u world_scheme policy \<Rightarrow> event_name \<Rightarrow> pyval \<Rightarrow> exn option \<Rightarrow> state_fields
      \<Rightarrow> ('u, unit) fio" where
  "flow_emit E p name v error sfs =
     py_bind get_runtime (\<lambda>rt. in_world
       (py_bind
         (if has_handler p name
          then py_bind (runtime_state E rt sfs) (\<lambda>st. py_return (Some st)) else py_return None)
         (\<lambda>st. emit E p
           \<lparr>ev_name = name, ev_attempt_number = rn_attempt_number rt,
            ev_function_name = rn_function_name rt, ev_delay = None, ev_value = v, ev_error = error,
            ev_state = st, ev_policy_name = None\<rparr>)))"

definition next_attempt :: "('u, nat) fio" where
  "next_attempt = py_bind (update_runtime begin_attempt) (\<lambda>_.
     py_bind get_runtime (\<lambda>rt. py_return (rn_attempt_number rt)))"

definition enter_attempt :: "'u pyenv \<Rightarrow> 'u world_scheme policy \<Rightarrow> ('u, unit) fio" where
  "enter_attempt E p =
     py_bind (flow_emit E p BeforeAttempt VNone None no_fields) (\<lambda>_.
     py_bind (in_world (clock_now E)) set_attempt_started_at)"

text \<open>What ended the attempt, as \<open>_exhaust\<close> and \<open>_plan_retry\<close> receive it.\<close>

record attempt_outcome =
  ao_cause :: retry_cause
  ao_value :: pyval
  ao_error :: "exn option"
  ao_has_value :: bool

definition exhaust :: "'u pyenv \<Rightarrow> 'u world_scheme policy \<Rightarrow> attempt_outcome \<Rightarrow> ('u, decision) fio" where
  "exhaust E p a =
     py_bind (in_world (clock_now E)) (\<lambda>now.
     py_bind get_runtime (\<lambda>rt.
     let r = runtime_result rt now (ao_value a) (ao_error a) True (Some (ao_cause a)) in
     py_bind
       (flow_emit E p AfterGiveup (ao_value a) (ao_error a)
         (no_fields\<lparr>sf_last_value := ao_value a, sf_last_error := ao_error a,
                    sf_has_value := ao_has_value a, sf_retry_cause := Some (ao_cause a),
                    sf_will_stop := True\<rparr>))
       (\<lambda>_. py_return (Final Exhaust r))))"

definition state_with_wait_plan :: "retry_state \<Rightarrow> wait_plan \<Rightarrow> retry_state" where
  "state_with_wait_plan s plan =
     s\<lparr>st_next_delay := Some (wp_total_delay plan), st_policy_delay := Some (wp_policy_delay plan),
       st_budget_delay := Some (wp_budget_delay plan)\<rparr>"

definition sleep_would_stop ::
    "'u pyenv \<Rightarrow> 'u world_scheme policy \<Rightarrow> wait_plan \<Rightarrow> ('u, bool) fio" where
  "sleep_would_stop E p plan =
     py_bind get_runtime (\<lambda>rt. in_world (py_bind (clock_now E) (\<lambda>now.
       should_stop_before_sleep (pol_stop p) (rn_attempt_number rt)
         (fl_sub now (rn_started_at rt)) (wp_total_delay plan))))"

definition plan_retry ::
    "'u pyenv \<Rightarrow> 'u world_scheme policy \<Rightarrow> attempt_outcome \<Rightarrow> ('u, decision) fio" where
  "plan_retry E p a =
     py_bind get_runtime (\<lambda>rt.
     py_bind
       (if delay_needs_state (pol_delay p) \<or> has_handler p BeforeSleep
        then py_bind
          (in_world (runtime_state E rt
            (no_fields\<lparr>sf_last_value := ao_value a, sf_last_error := ao_error a,
                       sf_has_value := ao_has_value a, sf_retry_cause := Some (ao_cause a),
                       sf_will_retry := True\<rparr>)))
          (\<lambda>st. py_return (Some st))
        else py_return None) (\<lambda>pre_sleep_state.
     py_bind (in_world (plan_retry_wait E p (rn_attempt_number rt) pre_sleep_state)) (\<lambda>planned.
       case planned of
         None \<Rightarrow> exhaust E p a
       | Some plan \<Rightarrow>
           py_bind (sleep_would_stop E p plan) (\<lambda>stop_first.
             if stop_first
             then py_bind (in_world (release_retry_wait E plan)) (\<lambda>_. exhaust E p a)
             else
               py_bind
                 (in_world (on_error
                   (emit E p
                     \<lparr>ev_name = BeforeSleep, ev_attempt_number = rn_attempt_number rt,
                      ev_function_name = rn_function_name rt,
                      ev_delay = Some (wp_total_delay plan), ev_value = ao_value a,
                      ev_error = ao_error a,
                      ev_state = map_option (\<lambda>st. state_with_wait_plan st plan) pre_sleep_state,
                      ev_policy_name = None\<rparr>)
                   (release_retry_wait E plan))) (\<lambda>_.
               py_bind (sleep_would_stop E p plan) (\<lambda>stop_now.
                 if stop_now
                 then py_bind (in_world (release_retry_wait E plan)) (\<lambda>_. exhaust E p a)
                 else py_return (Wait plan)))))))"

text \<open>The first part of \<open>after_exception\<close> records the attempt, the second decides.\<close>

definition exception_outcome :: "exn \<Rightarrow> attempt_outcome" where
  "exception_outcome error =
     \<lparr>ao_cause = CauseException, ao_value = VNone, ao_error = Some error, ao_has_value = False\<rparr>"

definition decide_exception ::
    "'u pyenv \<Rightarrow> 'u world_scheme policy \<Rightarrow> exn \<Rightarrow> bool \<Rightarrow> flt \<Rightarrow> ('u, decision) fio" where
  "decide_exception E p error should_retry ended_at =
     py_bind get_runtime (\<lambda>rt.
     py_bind
       (in_world (should_stop (pol_stop p) (int (rn_attempt_number rt))
         (fl_sub ended_at (rn_started_at rt)))) (\<lambda>stop_now.
     py_bind
       (flow_emit E p AfterFailure VNone (Some error)
         (no_fields\<lparr>sf_last_error := Some error, sf_retry_cause := Some CauseException,
                    sf_will_retry := should_retry \<and> \<not> stop_now, sf_will_stop := stop_now\<rparr>)) (\<lambda>_.
     if \<not> should_retry
     then
       py_bind (in_world (clock_now E)) (\<lambda>now.
       let r = runtime_result rt now VNone (Some error) False None in
       py_bind
         (flow_emit E p AfterGiveup VNone (Some error)
           (no_fields\<lparr>sf_last_error := Some error, sf_retry_cause := Some CauseException\<rparr>))
         (\<lambda>_. py_return (Final Reject r)))
     else if stop_now then exhaust E p (exception_outcome error)
     else plan_retry E p (exception_outcome error))))"

definition after_exception ::
    "'u pyenv \<Rightarrow> 'u world_scheme policy \<Rightarrow> exn \<Rightarrow> ('u, decision) fio" where
  "after_exception E p error =
     py_bind
       (if is_try_again error then py_return True
        else in_world (should_retry_exception (pol_condition p) error)) (\<lambda>should_retry.
     py_bind (in_world (clock_now E)) (\<lambda>ended_at.
     py_bind get_attempt_started_at (\<lambda>started_at.
     py_bind (update_runtime (record_failure started_at ended_at error)) (\<lambda>_.
     decide_exception E p error should_retry ended_at))))"

text \<open>\<open>after_value\<close>, split the same way.\<close>

definition value_outcome :: "pyval \<Rightarrow> bool \<Rightarrow> attempt_outcome" where
  "value_outcome v has_value =
     \<lparr>ao_cause = CauseResult, ao_value = v, ao_error = None, ao_has_value = has_value\<rparr>"

definition decide_value ::
    "'u pyenv \<Rightarrow> 'u world_scheme policy \<Rightarrow> pyval \<Rightarrow> bool \<Rightarrow> bool \<Rightarrow> flt \<Rightarrow> ('u, decision) fio" where
  "decide_value E p v has_value should_retry ended_at =
     py_bind get_runtime (\<lambda>rt.
     py_bind
       (in_world (should_stop (pol_stop p) (int (rn_attempt_number rt))
         (fl_sub ended_at (rn_started_at rt)))) (\<lambda>stop_now.
     if \<not> should_retry
     then
       py_bind (in_world (clock_now E)) (\<lambda>now.
       let r = runtime_result rt now v None False None in
       py_bind
         (flow_emit E p AfterSuccess v None
           (no_fields\<lparr>sf_last_value := v, sf_has_value := has_value\<rparr>))
         (\<lambda>_. py_return (Final Accept r)))
     else if stop_now then exhaust E p (value_outcome v has_value)
     else plan_retry E p (value_outcome v has_value)))"

definition after_value ::
    "'u pyenv \<Rightarrow> 'u world_scheme policy \<Rightarrow> pyval \<Rightarrow> bool \<Rightarrow> ('u, decision) fio" where
  "after_value E p v has_value =
     py_bind (in_world (clock_now E)) (\<lambda>ended_at.
     py_bind get_attempt_started_at (\<lambda>started_at.
     py_bind (update_runtime (record_success started_at ended_at v has_value)) (\<lambda>_.
     py_bind
       (if has_value then in_world (should_retry_result (pol_condition p) v) else py_return False)
       (\<lambda>should_retry. decide_value E p v has_value should_retry ended_at))))"

end
