(* ===== verification/FlowFacts.thy ===== *)
theory FlowFacts
  imports Main Flow
begin

text \<open>
  Facts about \<open>RetryFlow\<close> that the executors share: which steps leave the flow object alone, how
  its elementary steps evaluate, and what a decision to wait says of the stop strategy.
\<close>

section \<open>What leaves the flow object alone\<close>

definition keeps_flow :: "('u, 'a) fio \<Rightarrow> bool" where
  "keeps_flow m \<longleftrightarrow> (\<forall>s. fst (snd (m s)) = fst s)"

lemma keeps_flow_basic [simp]:
  "keeps_flow (in_world n)" "keeps_flow get_runtime" "keeps_flow get_attempt_started_at"
  "keeps_flow (py_return x)" "keeps_flow (py_raise e)" "keeps_flow (py_lift r)"
  by (simp_all add: keeps_flow_def in_world_def get_runtime_def get_attempt_started_at_def
      py_return_def py_raise_def py_lift_def split: prod.splits)

lemma keeps_flow_bind [intro!]:
  assumes "keeps_flow m" "\<And>x. keeps_flow (f x)"
  shows "keeps_flow (py_bind m f)"
  unfolding keeps_flow_def
proof
  fix s
  obtain r t where m: "m s = (r, t)" by (cases "m s")
  with assms(1) have "fst t = fst s" unfolding keeps_flow_def by (metis snd_conv)
  moreover have "fst (snd (f x t)) = fst t" for x
    using assms(2) [of x] unfolding keeps_flow_def by blast
  ultimately show "fst (snd (py_bind m f s)) = fst s"
    by (cases r) (simp_all add: py_bind_def m)
qed

lemma keeps_flow_flow_emit [simp]: "keeps_flow (flow_emit E p name v error sfs)"
  by (auto simp: flow_emit_def)

lemma keeps_flow_exhaust [simp]: "keeps_flow (exhaust E p a)"
  by (auto simp: exhaust_def Let_def)

lemma keeps_flow_sleep_would_stop [simp]: "keeps_flow (sleep_would_stop E p plan)"
  by (auto simp: sleep_would_stop_def)

lemma keeps_flow_plan_retry [simp]: "keeps_flow (plan_retry E p a)"
  by (auto simp: plan_retry_def split: option.splits)

lemma keeps_flowD: "keeps_flow m \<Longrightarrow> m (f, w) = (r, (f', w')) \<Longrightarrow> f' = f"
  unfolding keeps_flow_def by (metis fst_conv snd_conv)

section \<open>The steps of an attempt\<close>

lemma in_world_eq: "in_world m (f, w) = (case m w of (r, w') \<Rightarrow> (r, (f, w')))"
  by (simp add: in_world_def)

lemma fio_eval [flow_defs]:
  "get_runtime (f, w) = (Ok (fw_runtime f), (f, w))"
  "get_attempt_started_at (f, w) = (Ok (fw_attempt_started_at f), (f, w))"
  "update_runtime g (f, w) = (Ok (), (f\<lparr>fw_runtime := g (fw_runtime f)\<rparr>, w))"
  "set_attempt_started_at t (f, w) = (Ok (), (f\<lparr>fw_attempt_started_at := t\<rparr>, w))"
  by (simp_all add: get_runtime_def get_attempt_started_at_def update_runtime_def set_attempt_started_at_def)

lemma clock_now_eq [flow_defs]: "clock_now E w = (Ok (env_clock E (w_reads w)), w\<lparr>w_reads := w_reads w + 1\<rparr>)"
  by (simp add: clock_now_def)

lemma in_world_clock [flow_defs]:
  "in_world (clock_now E) (f, w) = (Ok (env_clock E (w_reads w)), (f, w\<lparr>w_reads := w_reads w + 1\<rparr>))"
  by (simp add: in_world_def clock_now_def)

lemma bind_in_world:
  "py_bind (in_world m) k (f, w) =
    (case m w of (Ok x, w') \<Rightarrow> k x (f, w') | (Raise e, w') \<Rightarrow> (Raise e, (f, w')))"
  by (auto simp: py_bind_def in_world_def split: prod.splits res.splits)

lemma bind_fio [flow_defs]:
  "py_bind get_runtime k (f, w) = k (fw_runtime f) (f, w)"
  "py_bind get_attempt_started_at k1 (f, w) = k1 (fw_attempt_started_at f) (f, w)"
  "py_bind (update_runtime g) k' (f, w) = k' () (f\<lparr>fw_runtime := g (fw_runtime f)\<rparr>, w)"
  "py_bind (in_world (clock_now E)) k2 (f, w) =
    k2 (env_clock E (w_reads w)) (f, w\<lparr>w_reads := w_reads w + 1\<rparr>)"
  by (simp_all add: py_bind_def fio_eval in_world_clock)

lemma keeps_flow_decide [simp]:
  "keeps_flow (decide_exception E p e b t)" "keeps_flow (decide_value E p v h b t)"
  by (auto simp: decide_exception_def decide_value_def Let_def)

lemma in_world_OkD:
  assumes "in_world m s = (Ok x, t)"
  shows "m (snd s) = (Ok x, snd t) \<and> fst t = fst s"
  using assms by (auto simp: in_world_def split: prod.splits)

text \<open>Once no evaluation of the stop strategy can answer no, there is no further wait.\<close>

lemma exhaust_final: "exhaust E p a s = (Ok d, t) \<Longrightarrow> \<exists>r. d = Final Exhaust r"
  by (auto simp: exhaust_def Let_def elim!: py_bind_OkD)

text \<open>A wait is only decided after the stop strategy answered no for the attempt.\<close>

lemma decide_exception_wait:
  assumes "decide_exception E p error b ended (f, w) = (Ok (Wait plan), s)"
  shows "\<not> never False (should_stop (pol_stop p) (int (rn_attempt_number (fw_runtime f)))
    (fl_sub ended (rn_started_at (fw_runtime f))))"
proof -
  obtain stop_now s1 where
    s1: "in_world (should_stop (pol_stop p) (int (rn_attempt_number (fw_runtime f)))
      (fl_sub ended (rn_started_at (fw_runtime f)))) (f, w) = (Ok stop_now, s1)"
    and rest: "\<not> stop_now"
    using assms unfolding decide_exception_def bind_fio
    by (elim py_bind_OkD) (auto simp: Let_def elim!: py_bind_OkD split: if_splits dest: exhaust_final)
  with in_world_OkD [OF s1] show ?thesis by (auto simp: never_def intro!: exI [of _ w])
qed

lemma decide_value_wait:
  assumes "decide_value E p v h b ended (f, w) = (Ok (Wait plan), s)"
  shows "\<not> never False (should_stop (pol_stop p) (int (rn_attempt_number (fw_runtime f)))
    (fl_sub ended (rn_started_at (fw_runtime f))))"
proof -
  obtain stop_now s1 where
    s1: "in_world (should_stop (pol_stop p) (int (rn_attempt_number (fw_runtime f)))
      (fl_sub ended (rn_started_at (fw_runtime f)))) (f, w) = (Ok stop_now, s1)"
    and rest: "\<not> stop_now"
    using assms unfolding decide_value_def bind_fio
    by (elim py_bind_OkD) (auto simp: Let_def elim!: py_bind_OkD split: if_splits dest: exhaust_final)
  with in_world_OkD [OF s1] show ?thesis by (auto simp: never_def intro!: exI [of _ w])
qed

section \<open>Policies without handlers\<close>

lemma no_handlers:
  assumes "pol_handlers p = []"
  shows "has_handler p ev = False" "emit E p event = py_return ()"
    "flow_emit E p ev v error sfs = py_return ()"
  using assms
  by (auto simp: has_handler_def emit_def flow_emit_def fun_eq_iff bind_fio in_world_def py_return_def)

lemma in_world_return [simp]: "in_world (py_return x) = py_return x"
  by (simp add: fun_eq_iff in_world_def py_return_def)

lemma plain_enter:
  "pol_handlers p = [] \<Longrightarrow> enter_attempt E p (f, w) =
    (Ok (), (f\<lparr>fw_attempt_started_at := env_clock E (w_reads w)\<rparr>, w\<lparr>w_reads := w_reads w + 1\<rparr>))"
  by (simp add: enter_attempt_def no_handlers bind_fio fio_eval)

lemma plain_exhaust:
  "pol_handlers p = [] \<Longrightarrow> exhaust E p a (f, w) =
    (Ok (Final Exhaust (runtime_result (fw_runtime f) (env_clock E (w_reads w)) (ao_value a)
       (ao_error a) True (Some (ao_cause a)))), (f, w\<lparr>w_reads := w_reads w + 1\<rparr>))"
  by (simp add: exhaust_def no_handlers bind_fio Let_def py_return_def)

end
