(* ===== verification/Executors.thy ===== *)
theory Executors
  imports Main FlowFacts
begin

text \<open>
  \<open>executors/sync.py\<close> and \<open>executors/async_.py\<close>, with the entry points \<open>run\<close> and \<open>run_async\<close> of
  the policy. One turn of the \<open>while True\<close> loop is a step that ends in an outcome or asks for
  another turn; the loop is a \<open>partial_function\<close>, so that not returning is \<open>None\<close>. The user's
  function is a computation on the world, with its arguments already applied.
\<close>

section \<open>Sleeping\<close>

definition invoke_sync_sleep ::
    "'u pyenv \<Rightarrow> 'u world_scheme sleeper \<Rightarrow> flt \<Rightarrow> ('u, unit) io" where
  "invoke_sync_sleep E sleeper seconds =
     (case sleeper of
        NoSleep \<Rightarrow> py_return ()
      | DefaultSleep \<Rightarrow> env_sleep E seconds
      | SleepFun shape f \<Rightarrow>
          py_bind (f seconds) (\<lambda>result. case result of
            VCoroutine c \<Rightarrow> py_raise (config_error ''sync sleep returned a coroutine'')
          | _ \<Rightarrow> py_return ()))"

definition sleep_before_retry ::
    "'u pyenv \<Rightarrow> 'u world_scheme policy \<Rightarrow> wait_plan \<Rightarrow> ('u, unit) io" where
  "sleep_before_retry E p plan =
     on_error (invoke_sync_sleep E (pol_sleep p) (wp_total_delay plan)) (release_retry_wait E plan)"

definition invoke_async_sleep ::
    "'u pyenv \<Rightarrow> 'u world_scheme async_sleeper \<Rightarrow> flt \<Rightarrow> ('u, unit) io" where
  "invoke_async_sleep E sleeper seconds =
     (case sleeper of
        NoSleepAsync \<Rightarrow> py_return ()
      | DefaultSleepAsync \<Rightarrow> env_async_sleep E seconds
      | AsyncSleepFun shape f \<Rightarrow>
          py_bind (f seconds) (\<lambda>called.
          py_bind (py_lift (ensure_awaitable_sleep_result called)) (\<lambda>m.
          py_bind m (\<lambda>v. py_return ()))))"

definition async_sleep_before_retry ::
    "'u pyenv \<Rightarrow> 'u world_scheme policy \<Rightarrow> wait_plan \<Rightarrow> ('u, unit) io" where
  "async_sleep_before_retry E p plan =
     on_error (invoke_async_sleep E (pol_async_sleep p) (wp_total_delay plan))
       (release_retry_wait E plan)"

section \<open>The loops\<close>

text \<open>The end of both executors, once the decision is final.\<close>

definition finish_decision :: "'s policy \<Rightarrow> final_kind \<Rightarrow> result \<Rightarrow> ('s, outcome) py" where
  "finish_decision p kind r =
     (if kind = Exhaust then finish_exhausted p r
      else if pol_return_result p then py_return (Tracked r)
      else if kind = Reject \<and> rr_error r \<noteq> None then py_raise (the (rr_error r))
      else py_return (Plain (rr_value r)))"

text \<open>\<open>try: value = m except Exception as error: ... else: ...\<close>\<close>

definition try_attempt ::
    "('u, 'a) io \<Rightarrow> (exn \<Rightarrow> ('u, 'b) fio) \<Rightarrow> ('a \<Rightarrow> ('u, 'b) fio) \<Rightarrow> ('u, 'b) fio" where
  "try_attempt m on_exception on_value s =
     (case in_world m s of
        (Ok v, s') \<Rightarrow> on_value v s'
      | (Raise e, s') \<Rightarrow> if is_exception e then on_exception e s' else (Raise e, s'))"

definition finish_turn ::
    "'u world_scheme policy \<Rightarrow> (wait_plan \<Rightarrow> ('u, unit) io) \<Rightarrow> decision \<Rightarrow> ('u, outcome option) fio" where
  "finish_turn p sleep d =
     (case d of
        Wait plan \<Rightarrow> py_bind (in_world (sleep plan)) (\<lambda>_. py_return None)
      | Final kind r \<Rightarrow> py_bind (in_world (finish_decision p kind r)) (\<lambda>x. py_return (Some x)))"

definition sync_step ::
    "'u pyenv \<Rightarrow> 'u world_scheme policy \<Rightarrow> ('u, pyval) io \<Rightarrow> ('u, outcome option) fio" where
  "sync_step E p function =
     py_bind next_attempt (\<lambda>_.
     py_bind (enter_attempt E p) (\<lambda>_.
     py_bind
       (try_attempt function (after_exception E p) (\<lambda>v. after_value E p v True))
       (finish_turn p (sleep_before_retry E p))))"

text \<open>\<open>while True\<close> around a turn that ends the call with an outcome or an exception, or goes on.\<close>

partial_function (option) while_true ::
    "('s, 'a option) py \<Rightarrow> 's \<Rightarrow> ('a res \<times> 's) option" where
  "while_true step s =
     (case step s of
        (Ok None, s') \<Rightarrow> while_true step s'
      | (Ok (Some x), s') \<Rightarrow> Some (Ok x, s')
      | (Raise e, s') \<Rightarrow> Some (Raise e, s'))"

text \<open>The flow object is dropped when the call returns.\<close>

definition drop_flow ::
    "('r \<times> flow \<times> 'u world_scheme) option \<Rightarrow> ('r \<times> 'u world_scheme) option" where
  "drop_flow = map_option (\<lambda>(r, f, w). (r, w))"

definition execute_sync ::
    "'u pyenv \<Rightarrow> 'u world_scheme policy \<Rightarrow> string \<Rightarrow> ('u, pyval) io \<Rightarrow> 'u world_scheme
      \<Rightarrow> (outcome res \<times> 'u world_scheme) option" where
  "execute_sync E p function_name function w =
     (case flow_init E p function_name w of
        (Ok f, w') \<Rightarrow> drop_flow (while_true (sync_step E p function) (f, w'))
      | (Raise e, w') \<Rightarrow> Some (Raise e, w'))"

definition async_step ::
    "'u pyenv \<Rightarrow> 'u world_scheme policy \<Rightarrow> ('u, 'u world_scheme called) io
      \<Rightarrow> ('u, outcome option) fio" where
  "async_step E p function =
     py_bind next_attempt (\<lambda>_.
     py_bind (enter_attempt E p) (\<lambda>_.
     py_bind
       (try_attempt function (after_exception E p) (\<lambda>candidate.
          py_bind (py_lift (ensure_awaitable_result candidate)) (\<lambda>awaitable.
            try_attempt awaitable (after_exception E p) (\<lambda>v. after_value E p v True))))
       (finish_turn p (async_sleep_before_retry E p))))"

definition execute_async ::
    "'u pyenv \<Rightarrow> 'u world_scheme policy \<Rightarrow> string \<Rightarrow> ('u, 'u world_scheme called) io
      \<Rightarrow> 'u world_scheme \<Rightarrow> (outcome res \<times> 'u world_scheme) option" where
  "execute_async E p function_name function w =
     (case flow_init E p function_name w of
        (Ok f, w') \<Rightarrow> drop_flow (while_true (async_step E p function) (f, w'))
      | (Raise e, w') \<Rightarrow> Some (Raise e, w'))"

text \<open>\<open>RetryPolicy.run\<close> and \<open>RetryPolicy.run_async\<close>\<close>

definition run ::
    "'u pyenv \<Rightarrow> 'u world_scheme policy \<Rightarrow> string \<Rightarrow> ('u, pyval) io pyfun \<Rightarrow> 'u world_scheme
      \<Rightarrow> (outcome res \<times> 'u world_scheme) option" where
  "run E p function_name function w =
     (case ensure_sync_retryable_callable (pf_shape function) of
        Raise e \<Rightarrow> Some (Raise e, w)
      | Ok _ \<Rightarrow> execute_sync E p function_name (pf_run function) w)"

definition run_async ::
    "'u pyenv \<Rightarrow> 'u world_scheme policy \<Rightarrow> string \<Rightarrow> ('u, 'u world_scheme called) io pyfun
      \<Rightarrow> 'u world_scheme \<Rightarrow> (outcome res \<times> 'u world_scheme) option" where
  "run_async E p function_name function w =
     (case ensure_retryable_callable (pf_shape function) of
        Raise e \<Rightarrow> Some (Raise e, w)
      | Ok _ \<Rightarrow> execute_async E p function_name (pf_run function) w)"

section \<open>One turn of the loop\<close>

lemma next_attempt_eq [flow_defs]:
  "next_attempt (f, w) =
    (Ok (rn_attempt_number (fw_runtime f) + 1), (f\<lparr>fw_runtime := begin_attempt (fw_runtime f)\<rparr>, w))"
  by (simp add: next_attempt_def flow_defs bind_fio py_return_def begin_attempt_def)

lemma enter_attempt_runtime:
  "enter_attempt E p (f, w) = (r, (f', w')) \<Longrightarrow> fw_runtime f' = fw_runtime f"
proof -
  assume e: "enter_attempt E p (f, w) = (r, (f', w'))"
  obtain r1 f1 w1 where m: "flow_emit E p BeforeAttempt VNone None no_fields (f, w) = (r1, (f1, w1))"
    by (metis prod.exhaust)
  have "f1 = f" by (rule keeps_flowD [OF keeps_flow_flow_emit m])
  with e m show ?thesis
    by (cases r1) (auto simp: enter_attempt_def py_bind_def in_world_clock fio_eval)
qed

text \<open>What the runtime is after an attempt was recorded: as many attempts, started then.\<close>

lemma after_exception_cases:
  assumes "after_exception E p e (f, w) = (r, (f', w'))"
  obtains (cond_raised) x where "r = Raise x" "f' = f"
    "in_world (should_retry_exception (pol_condition p) e) (f, w) = (Raise x, (f, w'))"
    "\<not> is_try_again e"
  | (decided) b wc where
    "(if is_try_again e then py_return True
      else in_world (should_retry_exception (pol_condition p) e)) (f, w) = (Ok b, (f, wc))"
    "decide_exception E p e b (env_clock E (w_reads wc))
       (f\<lparr>fw_runtime := record_failure (fw_attempt_started_at f) (env_clock E (w_reads wc)) e
          (fw_runtime f)\<rparr>, wc\<lparr>w_reads := w_reads wc + 1\<rparr>) = (r, (f', w'))"
    "f' = f\<lparr>fw_runtime := record_failure (fw_attempt_started_at f) (env_clock E (w_reads wc)) e
          (fw_runtime f)\<rparr>"
proof -
  define cond where "cond = (if is_try_again e then py_return True
    else in_world (should_retry_exception (pol_condition p) e) :: ('a, bool) fio)"
  obtain rc fc wc where c: "cond (f, w) = (rc, (fc, wc))" by (metis prod.exhaust)
  have "keeps_flow cond" by (simp add: cond_def)
  then have fc: "fc = f" using c by (rule keeps_flowD)
  note eq = assms [unfolded after_exception_def, folded cond_def]
  show thesis
  proof (cases rc)
    case (Ok b)
    let ?t = "env_clock E (w_reads wc)"
    let ?g = "f\<lparr>fw_runtime := record_failure (fw_attempt_started_at f) ?t e (fw_runtime f)\<rparr>"
    have d: "decide_exception E p e b ?t (?g, wc\<lparr>w_reads := w_reads wc + 1\<rparr>) = (r, (f', w'))"
      using eq by (simp add: py_bind_eval c Ok fc bind_fio)
    moreover from this have "f' = ?g" by (rule keeps_flowD [rotated]) simp
    moreover from c have "cond (f, w) = (Ok b, (f, wc))" by (simp add: Ok fc)
    ultimately show thesis using decided unfolding cond_def by blast
  next
    case (Raise x)
    with eq c fc have "r = Raise x" "f' = f" "w' = wc" by (auto simp: py_bind_def)
    moreover have "\<not> is_try_again e" using c Raise by (auto simp: cond_def py_return_def)
    ultimately show thesis using cond_raised c Raise fc by (simp add: cond_def)
  qed
qed

text \<open>The flow after a value was recorded.\<close>

definition with_success :: "'u pyenv \<Rightarrow> pyval \<Rightarrow> bool \<Rightarrow> flow \<Rightarrow> 'u world_scheme \<Rightarrow> flow" where
  "with_success E v h f w =
     f\<lparr>fw_runtime := record_success (fw_attempt_started_at f) (env_clock E (w_reads w)) v h
          (fw_runtime f)\<rparr>"

lemma after_value_cases:
  assumes "after_value E p v h (f, w) = (r, (f', w'))"
  shows "f' = with_success E v h f w"
    and "(\<exists>x. r = Raise x) \<or> (\<exists>b wc.
      (if h then in_world (should_retry_result (pol_condition p) v) else py_return False)
        (with_success E v h f w, w\<lparr>w_reads := w_reads w + 1\<rparr>)
        = (Ok b, (with_success E v h f w, wc)) \<and>
      decide_value E p v h b (env_clock E (w_reads w)) (with_success E v h f w, wc) = (r, (f', w')))"
proof -
  let ?g = "with_success E v h f w"
  define cond where "cond = (if h then in_world (should_retry_result (pol_condition p) v)
    else py_return False :: ('a, bool) fio)"
  obtain rc fc wc where c: "cond (?g, w\<lparr>w_reads := w_reads w + 1\<rparr>) = (rc, (fc, wc))"
    by (metis prod.exhaust)
  have "keeps_flow cond" by (simp add: cond_def)
  then have fc: "fc = ?g" using c by (rule keeps_flowD)
  have eq: "py_bind cond (\<lambda>b. decide_value E p v h b (env_clock E (w_reads w)))
      (?g, w\<lparr>w_reads := w_reads w + 1\<rparr>) = (r, (f', w'))"
    using assms by (simp only: after_value_def cond_def bind_fio with_success_def)
  have "f' = ?g \<and> ((\<exists>x. r = Raise x) \<or> (\<exists>b wc.
      cond (?g, w\<lparr>w_reads := w_reads w + 1\<rparr>) = (Ok b, (?g, wc)) \<and>
      decide_value E p v h b (env_clock E (w_reads w)) (?g, wc) = (r, (f', w'))))"
  proof (cases rc)
    case (Ok b)
    have d: "decide_value E p v h b (env_clock E (w_reads w)) (?g, wc) = (r, (f', w'))"
      using eq by (simp add: py_bind_eval c [simplified] Ok fc)
    moreover from this have "f' = ?g" by (rule keeps_flowD [rotated]) simp
    ultimately show ?thesis using c unfolding Ok fc by blast
  next
    case (Raise x)
    with eq c fc show ?thesis by (auto simp: py_bind_def)
  qed
  then show "f' = ?g" and "(\<exists>x. r = Raise x) \<or> (\<exists>b wc.
      (if h then in_world (should_retry_result (pol_condition p) v) else py_return False)
        (?g, w\<lparr>w_reads := w_reads w + 1\<rparr>) = (Ok b, (?g, wc)) \<and>
      decide_value E p v h b (env_clock E (w_reads w)) (?g, wc) = (r, (f', w')))"
    unfolding cond_def by blast+
qed

lemma after_exception_number:
  assumes "after_exception E p e (f, w) = (r, (f', w'))"
  shows "rn_attempt_number (fw_runtime f') = rn_attempt_number (fw_runtime f)"
    and "r = Ok (Wait plan) \<Longrightarrow>
      \<exists>t. \<not> never False (should_stop (pol_stop p) (int (rn_attempt_number (fw_runtime f))) t)"
  using assms by (cases rule: after_exception_cases;
    auto simp: record_failure_def dest!: decide_exception_wait)+

lemma after_value_number:
  assumes "after_value E p v h (f, w) = (r, (f', w'))"
  shows "rn_attempt_number (fw_runtime f') = rn_attempt_number (fw_runtime f)"
    and "r = Ok (Wait plan) \<Longrightarrow>
      \<exists>t. \<not> never False (should_stop (pol_stop p) (int (rn_attempt_number (fw_runtime f))) t)"
proof -
  have n: "rn_attempt_number (fw_runtime (with_success E v h f w)) = rn_attempt_number (fw_runtime f)"
    by (simp add: with_success_def record_success_def)
  then show "rn_attempt_number (fw_runtime f') = rn_attempt_number (fw_runtime f)"
    by (simp only: after_value_cases(1) [OF assms])
  assume "r = Ok (Wait plan)"
  with after_value_cases(2) [OF assms] obtain b wc where
    "decide_value E p v h b (env_clock E (w_reads w)) (with_success E v h f w, wc)
      = (Ok (Wait plan), (f', w'))" by blast
  from decide_value_wait [OF this]
  show "\<exists>t. \<not> never False (should_stop (pol_stop p) (int (rn_attempt_number (fw_runtime f))) t)"
    unfolding n by blast
qed

text \<open>An attempt, whatever ends it, keeps the number; a wait needs a stop strategy that may answer no.\<close>

definition numbered :: "'u world_scheme policy \<Rightarrow> ('u, decision) fio \<Rightarrow> bool" where
  "numbered p m \<longleftrightarrow> (\<forall>f w r f' w'. m (f, w) = (r, (f', w')) \<longrightarrow>
     rn_attempt_number (fw_runtime f') = rn_attempt_number (fw_runtime f) \<and>
     (\<forall>plan. r = Ok (Wait plan) \<longrightarrow>
       (\<exists>t. \<not> never False (should_stop (pol_stop p) (int (rn_attempt_number (fw_runtime f))) t))))"

lemma numbered_after:
  "numbered p (after_exception E p e)" "numbered p (after_value E p v h)"
  unfolding numbered_def by (metis after_exception_number) (metis after_value_number)

lemma numbered_try:
  assumes "\<And>e. numbered p (on_exc e)" "\<And>v. numbered p (on_val v)"
  shows "numbered p (try_attempt m on_exc on_val)"
  unfolding numbered_def
proof (intro allI impI)
  fix f w r f' w'
  assume t: "try_attempt m on_exc on_val (f, w) = (r, (f', w'))"
  obtain rm wm where m: "m w = (rm, wm)" by (metis prod.exhaust)
  show "rn_attempt_number (fw_runtime f') = rn_attempt_number (fw_runtime f) \<and>
     (\<forall>plan. r = Ok (Wait plan) \<longrightarrow>
       (\<exists>t. \<not> never False (should_stop (pol_stop p) (int (rn_attempt_number (fw_runtime f))) t)))"
  proof (cases rm)
    case (Ok v)
    with t m have "on_val v (f, wm) = (r, (f', w'))" by (simp add: try_attempt_def in_world_def)
    with assms(2) [of v] show ?thesis unfolding numbered_def by blast
  next
    case (Raise e)
    show ?thesis
    proof (cases "is_exception e")
      case True
      with t m Raise have "on_exc e (f, wm) = (r, (f', w'))"
        by (simp add: try_attempt_def in_world_def)
      with assms(1) [of e] show ?thesis unfolding numbered_def by blast
    qed (use t m Raise in \<open>auto simp: try_attempt_def in_world_def\<close>)
  qed
qed

lemma numbered_lift_bind: "(\<And>x. numbered p (k x)) \<Longrightarrow> numbered p (py_bind (py_lift c) k)"
  by (cases c) (auto simp: numbered_def py_bind_def py_lift_def)

text \<open>A turn that asks for another one counted one attempt, and the stop strategy may answer no at it.\<close>

definition turn :: "'u pyenv \<Rightarrow> 'u world_scheme policy \<Rightarrow> ('u, decision) fio
    \<Rightarrow> (wait_plan \<Rightarrow> ('u, unit) io) \<Rightarrow> ('u, outcome option) fio" where
  "turn E p attempt sleep =
     py_bind next_attempt (\<lambda>_. py_bind (enter_attempt E p) (\<lambda>_.
       py_bind attempt (finish_turn p sleep)))"

lemma keeps_flow_finish_turn [simp]: "keeps_flow (finish_turn p sleep d)"
  by (cases d) (auto simp: finish_turn_def)

lemma turn_number:
  assumes "numbered p attempt" and t: "turn E p attempt sleep (f, w) = (r, (f', w'))"
  shows "rn_attempt_number (fw_runtime f') = Suc (rn_attempt_number (fw_runtime f))"
    and "r = Ok None \<Longrightarrow>
      \<exists>t. \<not> never False (should_stop (pol_stop p) (int (Suc (rn_attempt_number (fw_runtime f)))) t)"
proof -
  let ?f1 = "f\<lparr>fw_runtime := begin_attempt (fw_runtime f)\<rparr>"
  obtain r2 f2 w2 where e: "enter_attempt E p (?f1, w) = (r2, (f2, w2))" by (metis prod.exhaust)
  have f2: "rn_attempt_number (fw_runtime f2) = Suc (rn_attempt_number (fw_runtime f))"
    using enter_attempt_runtime [OF e] by (simp add: begin_attempt_def)
  have t2: "py_bind (enter_attempt E p) (\<lambda>_. py_bind attempt (finish_turn p sleep)) (?f1, w) = (r, (f', w'))"
    using t unfolding turn_def by (simp add: py_bind_eval next_attempt_eq)
  have "rn_attempt_number (fw_runtime f') = Suc (rn_attempt_number (fw_runtime f)) \<and>
    (r = Ok None \<longrightarrow> (\<exists>t. \<not> never False
      (should_stop (pol_stop p) (int (Suc (rn_attempt_number (fw_runtime f)))) t)))"
  proof (cases r2)
    case (Ok u)
    obtain r3 f3 w3 where a: "attempt (f2, w2) = (r3, (f3, w3))" by (metis prod.exhaust)
    have f3: "rn_attempt_number (fw_runtime f3) = rn_attempt_number (fw_runtime f2)"
      and wait: "r3 = Ok (Wait plan) \<Longrightarrow> \<exists>t. \<not> never False
        (should_stop (pol_stop p) (int (rn_attempt_number (fw_runtime f2))) t)" for plan
      using assms(1) a unfolding numbered_def by blast+
    have t3: "py_bind attempt (finish_turn p sleep) (f2, w2) = (r, (f', w'))"
      using t2 by (simp add: py_bind_eval e Ok)
    show ?thesis
    proof (cases r3)
      case (Ok d)
      then have t4: "finish_turn p sleep d (f3, w3) = (r, (f', w'))"
        using t3 by (simp add: py_bind_eval a Ok)
      have "f' = f3" by (rule keeps_flowD [OF keeps_flow_finish_turn t4])
      moreover have "\<exists>plan. d = Wait plan" if "r = Ok None"
        using t4 that by (cases d) (auto simp: finish_turn_def elim!: py_bind_OkD)
      ultimately show ?thesis using f2 f3 wait Ok by auto
    qed (use t3 a f2 f3 in \<open>auto simp: py_bind_def\<close>)
  qed (use t2 e f2 in \<open>auto simp: py_bind_def\<close>)
  then show "rn_attempt_number (fw_runtime f') = Suc (rn_attempt_number (fw_runtime f))"
    "r = Ok None \<Longrightarrow>
      \<exists>t. \<not> never False (should_stop (pol_stop p) (int (Suc (rn_attempt_number (fw_runtime f)))) t)"
    by blast+
qed

section \<open>A loop whose turns count attempts\<close>

text \<open>
  What both executors give the loop: a turn counts one attempt, and it only asks for another turn if
  the stop strategy may answer no at that attempt. Then an attempt limit of the strategy bounds the
  loop, whatever the callbacks do.
\<close>

locale attempt_turns =
  fixes strategy :: "'u world_scheme stop"
    and step :: "('u, 'a option) fio"
  assumes counts: "step (f, w) = (r, (f', w')) \<Longrightarrow>
      rn_attempt_number (fw_runtime f') = Suc (rn_attempt_number (fw_runtime f))"
    and goes_on: "step (f, w) = (Ok None, (f', w')) \<Longrightarrow>
      \<exists>t. \<not> never False (should_stop strategy (int (Suc (rn_attempt_number (fw_runtime f)))) t)"
begin

lemma bounded:
  assumes limit: "known_attempt_limit strategy = Some n"
  shows "\<exists>r f' w'. while_true step (f, w) = Some (r, (f', w'))
    \<and> rn_attempt_number (fw_runtime f') \<le> max (Suc (rn_attempt_number (fw_runtime f))) (nat n)"
proof (induction "nat n - rn_attempt_number (fw_runtime f)" arbitrary: f w rule: less_induct)
  case less
  obtain r f1 w1 where s: "step (f, w) = (r, (f1, w1))" by (metis prod.exhaust)
  note count = counts [OF s]
  show ?case
  proof (cases "r = Ok None")
    case True
    from goes_on [OF s [unfolded True]] known_limit_never [OF limit]
    have "\<not> n \<le> int (Suc (rn_attempt_number (fw_runtime f)))" by blast
    then have lt: "Suc (rn_attempt_number (fw_runtime f)) < nat n" by linarith
    then have "nat n - rn_attempt_number (fw_runtime f1) < nat n - rn_attempt_number (fw_runtime f)"
      by (simp add: count)
    from less [OF this, of w1] obtain r' f' w' where
      "while_true step (f1, w1) = Some (r', (f', w'))"
      "rn_attempt_number (fw_runtime f') \<le> max (Suc (rn_attempt_number (fw_runtime f1))) (nat n)"
      by blast
    with lt show ?thesis by (subst while_true.simps) (simp add: s True count)
  next
    case False
    then show ?thesis
      by (subst while_true.simps, cases r) (auto simp: s count split: option.splits)
  qed
qed

end

lemma sync_step_turn:
  "sync_step E p fn =
    turn E p (try_attempt fn (after_exception E p) (\<lambda>v. after_value E p v True))
      (sleep_before_retry E p)"
  by (simp add: sync_step_def turn_def)

lemma async_step_turn:
  "async_step E p fn =
    turn E p (try_attempt fn (after_exception E p) (\<lambda>candidate.
        py_bind (py_lift (ensure_awaitable_result candidate)) (\<lambda>awaitable.
          try_attempt awaitable (after_exception E p) (\<lambda>v. after_value E p v True))))
      (async_sleep_before_retry E p)"
  by (simp add: async_step_def turn_def)

lemmas numbered_rules = numbered_after numbered_try numbered_lift_bind

interpretation sync: attempt_turns "pol_stop p" "sync_step E p fn" for E p fn
proof
  have n: "numbered p (try_attempt fn (after_exception E p) (\<lambda>v. after_value E p v True))"
    by (intro numbered_rules)
  fix f w r f' w'
  show "sync_step E p fn (f, w) = (r, (f', w')) \<Longrightarrow>
      rn_attempt_number (fw_runtime f') = Suc (rn_attempt_number (fw_runtime f))"
    unfolding sync_step_turn by (rule turn_number(1) [OF n])
  show "sync_step E p fn (f, w) = (Ok None, (f', w')) \<Longrightarrow>
      \<exists>t. \<not> never False (should_stop (pol_stop p) (int (Suc (rn_attempt_number (fw_runtime f)))) t)"
    unfolding sync_step_turn by (rule turn_number(2) [OF n _ refl])
qed

interpretation async: attempt_turns "pol_stop p" "async_step E p fn" for E p fn
proof
  have n: "numbered p (try_attempt fn (after_exception E p) (\<lambda>candidate.
      py_bind (py_lift (ensure_awaitable_result candidate)) (\<lambda>awaitable.
        try_attempt awaitable (after_exception E p) (\<lambda>v. after_value E p v True))))"
    by (intro numbered_rules)
  fix f w r f' w'
  show "async_step E p fn (f, w) = (r, (f', w')) \<Longrightarrow>
      rn_attempt_number (fw_runtime f') = Suc (rn_attempt_number (fw_runtime f))"
    unfolding async_step_turn by (rule turn_number(1) [OF n])
  show "async_step E p fn (f, w) = (Ok None, (f', w')) \<Longrightarrow>
      \<exists>t. \<not> never False (should_stop (pol_stop p) (int (Suc (rn_attempt_number (fw_runtime f)))) t)"
    unfolding async_step_turn by (rule turn_number(2) [OF n _ refl])
qed

section \<open>Properties\<close>

lemma flow_init_eq [flow_defs]:
  "flow_init E p name w =
    (Ok \<lparr>fw_runtime = runtime_init name (env_clock E (w_reads w)) (pol_history_limit p) (pol_name p),
         fw_attempt_started_at = env_clock E (w_reads w)\<rparr>, w\<lparr>w_reads := w_reads w + 1\<rparr>)"
  by (simp add: flow_init_def py_bind_def clock_now_def py_return_def)

text \<open>
  C20: an attempt limit bounds the execution. When the stop strategy has a known limit, both executors
  return, whatever the function, the conditions, the delays, the handlers and the sleepers do, and
  the loop of each makes at most that many attempts (at least the first one is made).
\<close>

theorem attempt_limit_terminates:
  assumes "known_attempt_limit (pol_stop p) = Some n"
  shows "(\<exists>r w'. execute_sync E p name fn w = Some (r, w'))
    \<and> (\<exists>r w'. execute_async E p name afn w = Some (r, w'))
    \<and> (\<exists>f w1 r f' w'. flow_init E p name w = (Ok f, w1)
        \<and> while_true (sync_step E p fn) (f, w1) = Some (r, (f', w'))
        \<and> rn_attempt_number (fw_runtime f') \<le> max 1 (nat n))
    \<and> (\<exists>f w1 r f' w'. flow_init E p name w = (Ok f, w1)
        \<and> while_true (async_step E p afn) (f, w1) = Some (r, (f', w'))
        \<and> rn_attempt_number (fw_runtime f') \<le> max 1 (nat n))"
proof -
  let ?f = "\<lparr>fw_runtime = runtime_init name (env_clock E (w_reads w)) (pol_history_limit p) (pol_name p),
         fw_attempt_started_at = env_clock E (w_reads w)\<rparr>"
  let ?w = "w\<lparr>w_reads := w_reads w + 1\<rparr>"
  have "rn_attempt_number (fw_runtime ?f) = 0" by (simp add: runtime_init_def)
  with sync.bounded [OF assms, of E fn ?f ?w] async.bounded [OF assms, of E afn ?f ?w]
  show ?thesis by (fastforce simp: execute_sync_def execute_async_def flow_init_eq drop_flow_def)
qed

theorem attempt_limit_terminates_witness:
  "\<exists>r w'. execute_sync ex_env ex_policy ''task'' (\<lambda>w. (Raise (new_exn TimeoutError_t ''slow''), w)) ex_world
    = Some (r, w')"
  using attempt_limit_terminates [of ex_policy 3 ex_env "''task''"
      "\<lambda>w. (Raise (new_exn TimeoutError_t ''slow''), w)" ex_world "\<lambda>w. (Ok (NotAwaitable VNone), w)"]
  by (simp add: ex_policy_def default_policy_def)

text \<open>
  An exception that is not an \<open>Exception\<close>, such as \<open>KeyboardInterrupt\<close>, leaves the executor at once:
  no condition, stop strategy, delay or handler sees it, and no attempt is recorded for it.
\<close>

lemma base_exception_propagates:
  assumes "enter_attempt E p (f\<lparr>fw_runtime := begin_attempt (fw_runtime f)\<rparr>, w) = (Ok (), (f1, w1))"
    and "fn w1 = (Raise e, w2)" and "\<not> is_exception e"
  shows "while_true (sync_step E p fn) (f, w) = Some (Raise e, (f1, w2))"
proof -
  have "sync_step E p fn (f, w) = (Raise e, (f1, w2))"
    using assms
    by (simp add: sync_step_def py_bind_eval next_attempt_eq try_attempt_def in_world_def)
  then show ?thesis by (subst while_true.simps) simp
qed

lemma base_exception_propagates_example:
  "\<exists>f1 w2. while_true (sync_step ex_env ex_policy (\<lambda>w. (Raise (new_exn KeyboardInterrupt_t []), w)))
      (\<lparr>fw_runtime = runtime_init ''task'' 0 None None, fw_attempt_started_at = 0\<rparr>, ex_world)
    = Some (Raise (new_exn KeyboardInterrupt_t []), (f1, w2))"
proof -
  let ?fn = "\<lambda>w. (Raise (new_exn KeyboardInterrupt_t []), w) :: pyval res \<times> world"
  have "pol_handlers ex_policy = []" by (simp add: ex_policy_def default_policy_def)
  note enter = plain_enter [OF this]
  have "\<not> is_exception (new_exn KeyboardInterrupt_t [])"
    by (simp add: isinstance_exn_def new_exn_def exc_type_defs)
  from base_exception_propagates [OF enter, of ?fn _ _ _ _, OF refl this] show ?thesis by blast
qed

text \<open>
  C21: the asynchronous executor behaves like the synchronous one on a function that returns an
  awaitable with the same effects, when the two sleepers correspond.
\<close>

theorem sync_async_equivalent:
  assumes "\<And>seconds. invoke_async_sleep E (pol_async_sleep p) seconds
    = invoke_sync_sleep E (pol_sleep p) seconds"
  shows "execute_async E p name (\<lambda>w. (Ok (Awaitable m), w)) = execute_sync E p name m"
proof -
  have sleep: "async_sleep_before_retry E p = sleep_before_retry E p"
    by (simp add: fun_eq_iff async_sleep_before_retry_def sleep_before_retry_def assms)
  have "try_attempt (\<lambda>w. (Ok (Awaitable m), w)) (after_exception E p) (\<lambda>candidate.
        py_bind (py_lift (ensure_awaitable_result candidate)) (\<lambda>awaitable.
          try_attempt awaitable (after_exception E p) (\<lambda>v. after_value E p v True)))
      = try_attempt m (after_exception E p) (\<lambda>v. after_value E p v True)"
    by (simp add: fun_eq_iff try_attempt_def in_world_def py_bind_def py_lift_def)
  then have "async_step E p (\<lambda>w. (Ok (Awaitable m), w)) = sync_step E p m"
    by (simp add: async_step_def sync_step_def sleep)
  then show ?thesis by (intro ext) (simp add: execute_async_def execute_sync_def flow_init_eq)
qed

theorem sync_async_equivalent_witness:
  "execute_async ex_env ex_policy ''task'' (\<lambda>w. (Ok (Awaitable (py_return (VInt 7))), w)) ex_world
    = execute_sync ex_env ex_policy ''task'' (py_return (VInt 7)) ex_world"
  by (subst sync_async_equivalent)
    (simp_all add: ex_policy_def default_policy_def invoke_async_sleep_def invoke_sync_sleep_def)

end
