(* ===== verification/History.thy ===== *)
theory History
  imports Main Executors
begin

text \<open>
  The bounded history of an execution. The full history is the list of what its turns leave, written from the attempts themselves
  (\<open>sync_attempt\<close>, \<open>async_attempt\<close>); the runtime keeps the last entries in a deque and counts all of them. \<open>keeps_history\<close> is the
  abstraction relation between the two; every step of the executors preserves it.
\<close>

section \<open>The bounded history\<close>

definition keep_last :: "nat option \<Rightarrow> 'a list \<Rightarrow> 'a list" where
  "keep_last limit H = (case limit of None \<Rightarrow> H | Some m \<Rightarrow> drop (length H - m) H)"

lemma deque_append_keep_last: "deque_append limit (keep_last limit H) x = keep_last limit (H @ [x])"
proof (cases limit)
  case (Some m)
  show ?thesis
  proof (cases "m \<le> length H")
    case True
    then have "Suc (length H) - (length H - m + m) + (length H - m) = Suc (length H) - m" by simp
    with True show ?thesis
      by (cases m) (simp_all add: Some deque_append_def keep_last_def Suc_diff_le)
  qed (simp add: Some deque_append_def keep_last_def)
qed (simp add: deque_append_def keep_last_def)

lemma length_keep_last:
  "length (keep_last limit H) = (case limit of None \<Rightarrow> length H | Some m \<Rightarrow> min m (length H))"
  by (auto simp: keep_last_def split: option.splits)

definition keeps_history :: "nat option \<Rightarrow> runtime \<Rightarrow> attempt list \<Rightarrow> bool" where
  "keeps_history limit rt H \<longleftrightarrow>
     rn_history_limit rt = limit \<and>
     rn_attempts rt = keep_last limit H \<and>
     rn_failed rt = count_attempts attempt_failed H \<and>
     rn_success rt = count_attempts attempt_succeeded H \<and>
     sorted_wrt (<) (map ar_number H) \<and>
     (\<forall>a\<in>set H. 1 \<le> ar_number a \<and> ar_number a \<le> rn_attempt_number rt)"

text \<open>The attempt that is running has no record yet.\<close>

definition unrecorded :: "runtime \<Rightarrow> attempt list \<Rightarrow> bool" where
  "unrecorded rt H \<longleftrightarrow> 1 \<le> rn_attempt_number rt \<and> (\<forall>a\<in>set H. ar_number a < rn_attempt_number rt)"

lemma keeps_history_init: "keeps_history limit (runtime_init name t limit pname) []"
  by (auto simp: keeps_history_def runtime_init_def keep_last_def count_attempts_def split: option.splits)

lemma keeps_history_begin:
  assumes "keeps_history limit rt H"
  shows "keeps_history limit (begin_attempt rt) H" "unrecorded (begin_attempt rt) H"
  using assms by (force simp: keeps_history_def begin_attempt_def unrecorded_def)+

lemma keeps_history_record:
  assumes "keeps_history limit rt H" "unrecorded rt H"
  shows "keeps_history limit (record_failure s t e rt)
      (H @ [AttemptRecord (rn_attempt_number rt) s t VNone (Some e) False])"
    and "keeps_history limit (record_success s t v h rt)
      (H @ [AttemptRecord (rn_attempt_number rt) s t v None h])"
  using assms
  by (simp_all add: keeps_history_def unrecorded_def record_failure_def record_success_def
      deque_append_keep_last count_attempts_def attempt_failed_def attempt_succeeded_def
      sorted_wrt_append)

section \<open>What one turn records\<close>

text \<open>
  The record an attempt leaves, written from what the attempt does and not from the code that records: attempt \<open>n\<close>,
  which started at \<open>t0\<close>, leaves a success with the value when the function returned one, and a failure with the error when it
  raised an \<open>Exception\<close>, after the retry condition was asked. It leaves nothing when it raised anything else
  or when the condition itself raised.
\<close>

definition success_of :: "'u pyenv \<Rightarrow> pyval \<Rightarrow> nat \<Rightarrow> flt \<Rightarrow> 'u world_scheme \<Rightarrow> attempt list" where
  "success_of E v n t0 w = [AttemptRecord n t0 (env_clock E (w_reads w)) v None True]"

definition failure_of :: "'u pyenv \<Rightarrow> 'u world_scheme policy \<Rightarrow> exn \<Rightarrow> nat \<Rightarrow> flt \<Rightarrow> 'u world_scheme \<Rightarrow> attempt list" where
  "failure_of E p e n t0 w =
     (case (if is_try_again e then (Ok True, w) else should_retry_exception (pol_condition p) e w) of
        (Ok _, w') \<Rightarrow> [AttemptRecord n t0 (env_clock E (w_reads w')) VNone (Some e) False]
      | (Raise _, _) \<Rightarrow> [])"

definition call_of ::
    "'u pyenv \<Rightarrow> 'u world_scheme policy \<Rightarrow> ('a \<Rightarrow> nat \<Rightarrow> flt \<Rightarrow> 'u world_scheme \<Rightarrow> attempt list)
      \<Rightarrow> ('u, 'a) io \<Rightarrow> nat \<Rightarrow> flt \<Rightarrow> 'u world_scheme \<Rightarrow> attempt list" where
  "call_of E p returned m n t0 w =
     (case m w of
        (Ok v, w') \<Rightarrow> returned v n t0 w'
      | (Raise e, w') \<Rightarrow> if is_exception e then failure_of E p e n t0 w' else [])"

text \<open>The turn that starts in a state: \<open>before_attempt\<close> handlers may raise, and then there is no attempt.\<close>

definition entered_of ::
    "'u pyenv \<Rightarrow> 'u world_scheme policy \<Rightarrow> (nat \<Rightarrow> flt \<Rightarrow> 'u world_scheme \<Rightarrow> attempt list)
      \<Rightarrow> flow \<times> 'u world_scheme \<Rightarrow> attempt list" where
  "entered_of E p rec s =
     (case py_bind next_attempt (\<lambda>_. enter_attempt E p) s of
        (Ok _, (f, w)) \<Rightarrow> rec (Suc (rn_attempt_number (fw_runtime (fst s)))) (fw_attempt_started_at f) w
      | (Raise _, _) \<Rightarrow> [])"

definition sync_attempt where
  "sync_attempt E p fn = entered_of E p (call_of E p (success_of E) fn)"

text \<open>The asynchronous executor calls the function and then awaits what it returned.\<close>

definition async_attempt where
  "async_attempt E p fn = entered_of E p (call_of E p
     (\<lambda>candidate n t0 w. case ensure_awaitable_result candidate of
        Ok awaitable \<Rightarrow> call_of E p (success_of E) awaitable n t0 w
      | Raise _ \<Rightarrow> []) fn)"

section \<open>Every turn keeps the history\<close>

definition records ::
    "nat option \<Rightarrow> ('u, 'a) fio \<Rightarrow> (nat \<Rightarrow> flt \<Rightarrow> 'u world_scheme \<Rightarrow> attempt list) \<Rightarrow> bool" where
  "records limit m rec \<longleftrightarrow> (\<forall>f w r f' w' H. m (f, w) = (r, (f', w')) \<longrightarrow>
     keeps_history limit (fw_runtime f) H \<longrightarrow> unrecorded (fw_runtime f) H \<longrightarrow>
     keeps_history limit (fw_runtime f')
       (H @ rec (rn_attempt_number (fw_runtime f)) (fw_attempt_started_at f) w))"

lemma records_after_exception: "records limit (after_exception E p e) (failure_of E p e)"
  unfolding records_def
proof (intro allI impI)
  fix f w r f' w' H
  assume m: "after_exception E p e (f, w) = (r, (f', w'))"
    and H: "keeps_history limit (fw_runtime f) H" "unrecorded (fw_runtime f) H"
  from m show "keeps_history limit (fw_runtime f')
      (H @ failure_of E p e (rn_attempt_number (fw_runtime f)) (fw_attempt_started_at f) w)"
  proof (cases rule: after_exception_cases)
    case (decided b wc)
    from decided(1) have "(if is_try_again e then (Ok True, w) else should_retry_exception (pol_condition p) e w) = (Ok b, wc)"
      by (auto simp: in_world_def py_return_def split: if_splits prod.splits)
    then show ?thesis unfolding decided(3) using keeps_history_record(1) [OF H] by (simp add: failure_of_def)
  next
    case (cond_raised x)
    from cond_raised(3) have "should_retry_exception (pol_condition p) e w = (Raise x, w')"
      by (auto simp: in_world_def split: prod.splits)
    with H(1) cond_raised(2,4) show ?thesis by (simp add: failure_of_def)
  qed
qed

lemma records_after_value: "records limit (after_value E p v True) (success_of E v)"
  unfolding records_def
proof (intro allI impI)
  fix f w r f' w' H
  assume m: "after_value E p v True (f, w) = (r, (f', w'))"
    and H: "keeps_history limit (fw_runtime f) H" "unrecorded (fw_runtime f) H"
  show "keeps_history limit (fw_runtime f')
      (H @ success_of E v (rn_attempt_number (fw_runtime f)) (fw_attempt_started_at f) w)"
    unfolding after_value_cases(1) [OF m] with_success_def success_of_def
    using keeps_history_record(2) [OF H] by simp
qed

lemma records_try:
  assumes "\<And>v. records limit (on_val v) (rec v)"
  shows "records limit (try_attempt m (after_exception E p) on_val) (call_of E p rec m)"
  unfolding records_def
proof (intro allI impI)
  fix f w r f' w' H
  assume t: "try_attempt m (after_exception E p) on_val (f, w) = (r, (f', w'))"
    and H: "keeps_history limit (fw_runtime f) H" "unrecorded (fw_runtime f) H"
  obtain rm wm where m: "m w = (rm, wm)" by (metis prod.exhaust)
  show "keeps_history limit (fw_runtime f')
      (H @ call_of E p rec m (rn_attempt_number (fw_runtime f)) (fw_attempt_started_at f) w)"
  proof (cases rm)
    case (Ok v)
    with t m have "on_val v (f, wm) = (r, (f', w'))" by (simp add: try_attempt_def in_world_def)
    with assms [of v] H show ?thesis by (simp add: records_def call_of_def m Ok)
  next
    case (Raise e)
    then show ?thesis
      using t m H records_after_exception [of limit E p e]
      by (auto simp: records_def call_of_def try_attempt_def in_world_def split: if_splits)
  qed
qed

lemma records_lift_bind:
  assumes "\<And>x. records limit (k x) (rec x)"
  shows "records limit (py_bind (py_lift c) k) (\<lambda>n t0 w. case c of Ok x \<Rightarrow> rec x n t0 w | Raise _ \<Rightarrow> [])"
  using assms by (cases c) (auto simp: records_def py_bind_def py_lift_def)

lemma turn_history:
  assumes "records limit attempt rec" and t: "turn E p attempt sleep (f, w) = (r, (f', w'))"
    and H: "keeps_history limit (fw_runtime f) H"
  shows "keeps_history limit (fw_runtime f') (H @ entered_of E p rec (f, w))"
proof -
  let ?f1 = "f\<lparr>fw_runtime := begin_attempt (fw_runtime f)\<rparr>"
  obtain r2 f2 w2 where e: "enter_attempt E p (?f1, w) = (r2, (f2, w2))" by (metis prod.exhaust)
  have f2: "fw_runtime f2 = begin_attempt (fw_runtime f)" using enter_attempt_runtime [OF e] by simp
  have H2: "keeps_history limit (fw_runtime f2) H" "unrecorded (fw_runtime f2) H"
    using keeps_history_begin [OF H] by (simp_all add: f2)
  have t2: "py_bind (enter_attempt E p) (\<lambda>_. py_bind attempt (finish_turn p sleep)) (?f1, w) = (r, (f', w'))"
    using t unfolding turn_def by (simp add: py_bind_eval next_attempt_eq)
  have entered: "py_bind next_attempt (\<lambda>_. enter_attempt E p) (f, w) = (r2, (f2, w2))"
    by (simp add: py_bind_eval next_attempt_eq e)
  show ?thesis
  proof (cases r2)
    case (Ok u)
    obtain r3 f3 w3 where a: "attempt (f2, w2) = (r3, (f3, w3))" by (metis prod.exhaust)
    have "keeps_history limit (fw_runtime f3) (H @ rec (rn_attempt_number (fw_runtime f2)) (fw_attempt_started_at f2) w2)"
      using assms(1) a H2 unfolding records_def by blast
    then have H3: "keeps_history limit (fw_runtime f3) (H @ entered_of E p rec (f, w))"
      by (simp add: entered_of_def entered Ok f2 begin_attempt_def)
    have t3: "py_bind attempt (finish_turn p sleep) (f2, w2) = (r, (f', w'))"
      using t2 by (simp add: py_bind_eval e Ok)
    have "f' = f3"
    proof (cases r3)
      case (Ok d)
      then have "finish_turn p sleep d (f3, w3) = (r, (f', w'))" using t3 by (simp add: py_bind_eval a)
      then show ?thesis by (rule keeps_flowD [OF keeps_flow_finish_turn])
    qed (use t3 a in \<open>auto simp: py_bind_def\<close>)
    with H3 show ?thesis by blast
  qed (use t2 e entered H2 in \<open>auto simp: py_bind_def entered_of_def\<close>)
qed

lemma sync_step_history:
  assumes "sync_step E p fn (f, w) = (r, (f', w'))" "keeps_history limit (fw_runtime f) H"
  shows "keeps_history limit (fw_runtime f') (H @ sync_attempt E p fn (f, w))"
  unfolding sync_attempt_def
  by (rule turn_history [OF _ assms(1) [unfolded sync_step_turn] assms(2)]) (intro records_try records_after_value)

lemma async_step_history:
  assumes "async_step E p fn (f, w) = (r, (f', w'))" "keeps_history limit (fw_runtime f) H"
  shows "keeps_history limit (fw_runtime f') (H @ async_attempt E p fn (f, w))"
  unfolding async_attempt_def
  by (rule turn_history [OF _ assms(1) [unfolded async_step_turn] assms(2)])
    (intro records_try records_lift_bind records_after_value)

section \<open>The turns of a loop\<close>

text \<open>\<open>loop_run step s ss y\<close>: from \<open>s\<close> the loop makes the turns that start in the states \<open>ss\<close>, and ends with \<open>y\<close>.\<close>

inductive loop_run :: "('s, 'a option) py \<Rightarrow> 's \<Rightarrow> 's list \<Rightarrow> 'a res \<times> 's \<Rightarrow> bool" for step where
  loop_returns: "step s = (Ok (Some x), t) \<Longrightarrow> loop_run step s [s] (Ok x, t)"
| loop_raises: "step s = (Raise e, t) \<Longrightarrow> loop_run step s [s] (Raise e, t)"
| loop_again: "step s = (Ok None, t) \<Longrightarrow> loop_run step t ss y \<Longrightarrow> loop_run step s (s # ss) y"

lemma loop_run_exists: "while_true step s = Some y \<Longrightarrow> \<exists>ss. loop_run step s ss y"
proof -
  have "\<exists>ss. loop_run step s ss y" if "while_true st s = Some y" "st = step" for st
    using that
  proof (induction rule: while_true.raw_induct [rotated, consumes 1, case_names step])
    case (step loop st s y)
    obtain r t where st: "st s = (r, t)" by (metis prod.exhaust)
    show ?case
    proof (cases r)
      case (Ok x)
      show ?thesis
      proof (cases x)
        case None
        with step.hyps step.prems st Ok have "loop st t = Some y" by simp
        with step.IH step.prems obtain ss where "loop_run step t ss y" by blast
        with st step.prems Ok None show ?thesis by (blast intro: loop_again)
      next
        case (Some v)
        then have "y = (Ok v, t)" using step.hyps step.prems st Ok by simp
        with st step.prems Ok Some show ?thesis by (blast intro: loop_returns)
      qed
    next
      case (Raise e)
      then have "y = (Raise e, t)" using step.hyps step.prems st by simp
      with st step.prems Raise show ?thesis by (blast intro: loop_raises)
    qed
  qed
  then show "while_true step s = Some y \<Longrightarrow> \<exists>ss. loop_run step s ss y" by blast
qed

lemma loop_history:
  assumes "loop_run step s ss y" "keeps_history limit (fw_runtime (fst s)) H"
    and "\<And>f w r f' w' H. step (f, w) = (r, (f', w')) \<Longrightarrow> keeps_history limit (fw_runtime f) H
      \<Longrightarrow> keeps_history limit (fw_runtime f') (H @ rec (f, w))"
    and "\<And>f w r f' w'. step (f, w) = (r, (f', w')) \<Longrightarrow>
      rn_attempt_number (fw_runtime f') = Suc (rn_attempt_number (fw_runtime f))"
  shows "keeps_history limit (fw_runtime (fst (snd y))) (H @ concat (map rec ss))
    \<and> rn_attempt_number (fw_runtime (fst (snd y))) = rn_attempt_number (fw_runtime (fst s)) + length ss"
  using assms(1,2)
proof (induction arbitrary: H rule: loop_run.induct)
  case (loop_returns s x t)
  then show ?case using assms(3,4) [of "fst s" "snd s" _ "fst t" "snd t"] by simp
next
  case (loop_raises s e t)
  then show ?case using assms(3,4) [of "fst s" "snd s" _ "fst t" "snd t"] by simp
next
  case (loop_again s t ss y)
  then show ?case using assms(3,4) [of "fst s" "snd s" _ "fst t" "snd t"] by fastforce
qed

section \<open>Properties\<close>

text \<open>
  C22: the bounded history of an execution refines its full history. When the loop of either executor
  ends, however it ends, the full history is the list of what its turns leave, in their order: one success or failure
  for each attempt that ended with a value or an \<open>Exception\<close>, as \<open>sync_attempt\<close> and \<open>async_attempt\<close> say. The runtime
  keeps exactly the last \<open>history_limit\<close> entries of it, while its counters count the failures and the
  successes of all of them; the entries are numbered in strictly increasing order, and the attempt number is the number of turns.
\<close>

theorem bounded_history:
  assumes "flow_init E p name w = (Ok f, w1)"
  shows "(while_true (sync_step E p fn) (f, w1) = Some (r, (f', w')) \<longrightarrow>
      (\<exists>ss H. loop_run (sync_step E p fn) (f, w1) ss (r, (f', w')) \<and> H = concat (map (sync_attempt E p fn) ss)
        \<and> rn_attempts (fw_runtime f') = keep_last (pol_history_limit p) H
        \<and> rn_failed (fw_runtime f') = count_attempts attempt_failed H
        \<and> rn_success (fw_runtime f') = count_attempts attempt_succeeded H
        \<and> sorted_wrt (<) (map ar_number H) \<and> rn_attempt_number (fw_runtime f') = length ss
        \<and> (\<forall>a\<in>set H. 1 \<le> ar_number a \<and> ar_number a \<le> length ss)))
    \<and> (while_true (async_step E p afn) (f, w1) = Some (r, (f', w')) \<longrightarrow>
      (\<exists>ss H. loop_run (async_step E p afn) (f, w1) ss (r, (f', w')) \<and> H = concat (map (async_attempt E p afn) ss)
        \<and> rn_attempts (fw_runtime f') = keep_last (pol_history_limit p) H
        \<and> rn_failed (fw_runtime f') = count_attempts attempt_failed H
        \<and> rn_success (fw_runtime f') = count_attempts attempt_succeeded H
        \<and> sorted_wrt (<) (map ar_number H) \<and> rn_attempt_number (fw_runtime f') = length ss
        \<and> (\<forall>a\<in>set H. 1 \<le> ar_number a \<and> ar_number a \<le> length ss)))"
proof -
  have f: "keeps_history (pol_history_limit p) (fw_runtime f) []" "rn_attempt_number (fw_runtime f) = 0"
    using assms(1) by (auto simp: flow_init_eq keeps_history_init, auto simp: runtime_init_def)
  have sync: "keeps_history (pol_history_limit p) (fw_runtime f') (concat (map (sync_attempt E p fn) ss))
      \<and> rn_attempt_number (fw_runtime f') = length ss"
    if "loop_run (sync_step E p fn) (f, w1) ss (r, (f', w'))" for ss
  proof -
    note run = loop_history [where limit = "pol_history_limit p" and H = "[]" and rec = "sync_attempt E p fn", OF that]
    have "keeps_history (pol_history_limit p) (fw_runtime (fst (snd (r, (f', w')))))
          ([] @ concat (map (sync_attempt E p fn) ss))
        \<and> rn_attempt_number (fw_runtime (fst (snd (r, (f', w'))))) = rn_attempt_number (fw_runtime (fst (f, w1))) + length ss"
      by (rule run) (use f in simp, erule sync_step_history, assumption, erule sync.counts)
    with f show ?thesis by simp
  qed
  have async: "keeps_history (pol_history_limit p) (fw_runtime f') (concat (map (async_attempt E p afn) ss))
      \<and> rn_attempt_number (fw_runtime f') = length ss"
    if "loop_run (async_step E p afn) (f, w1) ss (r, (f', w'))" for ss
  proof -
    note run = loop_history [where limit = "pol_history_limit p" and H = "[]" and rec = "async_attempt E p afn", OF that]
    have "keeps_history (pol_history_limit p) (fw_runtime (fst (snd (r, (f', w')))))
          ([] @ concat (map (async_attempt E p afn) ss))
        \<and> rn_attempt_number (fw_runtime (fst (snd (r, (f', w'))))) = rn_attempt_number (fw_runtime (fst (f, w1))) + length ss"
      by (rule run) (use f in simp, erule async_step_history, assumption, erule async.counts)
    with f show ?thesis by simp
  qed
  show ?thesis
    using loop_run_exists [of "sync_step E p fn" "(f, w1)" "(r, (f', w'))"] sync
      loop_run_exists [of "async_step E p afn" "(f, w1)" "(r, (f', w'))"] async
    unfolding keeps_history_def by metis
qed

theorem bounded_history_witness:
  "\<exists>f w1 r f' w' ss. flow_init ex_env (ex_policy\<lparr>pol_history_limit := Some 2\<rparr>) ''task'' ex_world = (Ok f, w1)
    \<and> while_true (sync_step ex_env (ex_policy\<lparr>pol_history_limit := Some 2\<rparr>)
        (py_raise (new_exn TimeoutError_t ''slow''))) (f, w1) = Some (r, (f', w'))
    \<and> rn_attempts (fw_runtime f') = keep_last (Some 2) (concat (map (sync_attempt (ex_env :: unit pyenv)
        (ex_policy\<lparr>pol_history_limit := Some 2\<rparr>) (py_raise (new_exn TimeoutError_t ''slow''))) ss))
    \<and> rn_attempt_number (fw_runtime f') = length ss"
proof -
  let ?p = "ex_policy\<lparr>pol_history_limit := Some 2\<rparr>"
  let ?fn = "py_raise (new_exn TimeoutError_t ''slow'') :: (unit, pyval) io"
  obtain f w1 where i: "flow_init ex_env ?p ''task'' ex_world = (Ok f, w1)" by (simp add: flow_init_eq)
  have "known_attempt_limit (pol_stop ?p) = Some 3" by (simp add: ex_policy_def default_policy_def)
  from sync.bounded [OF this, of ex_env ?fn f w1] obtain r f' w' where
    l: "while_true (sync_step ex_env ?p ?fn) (f, w1) = Some (r, (f', w'))" by blast
  have limit: "pol_history_limit ?p = Some 2" by simp
  obtain ss where "rn_attempts (fw_runtime f') = keep_last (Some 2) (concat (map (sync_attempt ex_env ?p ?fn) ss))"
    "rn_attempt_number (fw_runtime f') = length ss"
    using conjunct1 [OF bounded_history [OF i, of ?fn r f' w' "\<lambda>w. (Ok (NotAwaitable VNone), w)"]] l
    unfolding limit by blast
  with i l have "flow_init ex_env ?p ''task'' ex_world = (Ok f, w1)
      \<and> while_true (sync_step ex_env ?p ?fn) (f, w1) = Some (r, (f', w'))
      \<and> rn_attempts (fw_runtime f') = keep_last (Some 2) (concat (map (sync_attempt ex_env ?p ?fn) ss))
      \<and> rn_attempt_number (fw_runtime f') = length ss" by simp
  then show ?thesis by (intro exI)
qed

end
