(* ===== verification/PlainRuns.thy ===== *)
theory PlainRuns
  imports Main History
begin

text \<open>
  Executions of functions that fail a while and then return: what a turn of the loop does under a policy
  with an attempt limit and no handlers, and the loop itself, once for every such function (the locale
  \<open>flaky_function\<close>) and every way to wait that does not end the execution (\<open>retries\<close>).
\<close>

section \<open>Built-in delays only draw\<close>

definition draws_only :: "('u, 'a) io \<Rightarrow> bool" where
  "draws_only m \<longleftrightarrow> (\<forall>w r w'. m w = (r, w') \<longrightarrow> (\<exists>k. w' = w\<lparr>w_draws := k\<rparr>))"

lemma draws_only_basic [simp]:
  "draws_only (py_return x)" "draws_only (py_lift c)" "draws_only (draw_uniform E seed n a b)"
  by (auto simp: draws_only_def py_return_def py_lift_def draw_uniform_def split: option.splits
      intro: exI [of _ "w_draws w" for w])
    (metis world.surjective world.update_convs(2))+

lemma draws_only_bind [intro!]:
  assumes "draws_only m" "\<And>x. draws_only (f x)"
  shows "draws_only (py_bind m f)"
  unfolding draws_only_def
proof (intro allI impI)
  fix w r w'
  assume b: "py_bind m f w = (r, w')"
  obtain r1 w1 where m: "m w = (r1, w1)" by (metis prod.exhaust)
  then obtain k where w1: "w1 = w\<lparr>w_draws := k\<rparr>" using assms(1) unfolding draws_only_def by blast
  show "\<exists>k. w' = w\<lparr>w_draws := k\<rparr>"
  proof (cases r1)
    case (Ok x)
    with b m have "f x w1 = (r, w')" by (simp add: py_bind_def)
    with assms(2) [of x] obtain j where "w' = w1\<lparr>w_draws := j\<rparr>" unfolding draws_only_def by blast
    then show ?thesis by (auto simp: w1)
  qed (use b m w1 in \<open>auto simp: py_bind_def\<close>)
qed

lemma draws_only_map: "(\<And>x. x \<in> set xs \<Longrightarrow> draws_only (f x)) \<Longrightarrow> draws_only (py_map f xs)"
  by (induction xs) auto

lemma leaf_draws_only: "delay_wf d \<Longrightarrow> draws_only (leaf_next E d n)"
  by (cases d) (auto simp: random_next_def random_exponential_next_def Let_def)

lemma tree_draws_only: "delay_wf d \<Longrightarrow> draws_only (tree_value E None n d)"
proof (induction d)
  case (AdditiveDelay ds)
  then have "draws_only (py_map (tree_value E None n) ds)"
    by (intro draws_only_map) (auto simp: list_all_iff)
  then show ?case by auto
qed (auto simp: resolve_leaf_def simp del: leaf_next.simps intro!: leaf_draws_only)

lemma wf_delay_total:
  assumes "env_ok E" "delay_wf d" "n < 2 ^ 50"
  obtains v k x where "resolve_delay E d n state w = (Ok v, w\<lparr>w_draws := k\<rparr>)"
    "ensure_resolved_delay v = Ok x" "safe_delay x"
proof -
  have stateless: "\<not> contains_stateful d"
    using assms(2) by (induction d) (auto simp: list_all_iff list_ex_iff)
  have same: "resolve_delay E d n state = next_delay E d n"
    using tree_value_stateless [OF stateless, of E state n] stateless
    by (cases d; cases state) (auto simp: resolve_delay_def next_delay_def additive_parts_def
        resolve_additive_tree_value simp del: tree_value.simps)
  obtain v w' x where v: "next_delay E d n w = (Ok v, w')" "ensure_resolved_delay v = Ok x"
    using next_delay_total [OF assms, of w] by blast
  have "draws_only (next_delay E d n)"
    using assms(2) tree_draws_only [OF assms(2), of E n] leaf_draws_only [OF assms(2), of E n]
    by (cases d) (auto simp: next_delay_def additive_parts_def resolve_additive_tree_value
        simp del: tree_value.simps leaf_next.simps)
  with v(1) obtain k where "w' = w\<lparr>w_draws := k\<rparr>" unfolding draws_only_def by blast
  with v ensure_resolved_delay_safe [OF v(2)] show thesis using that by (simp add: same)
qed

section \<open>Planning a retry under a plain policy\<close>

text \<open>An accepted built-in delay, no handlers and no budget, under an attempt limit.\<close>

definition plain_policy :: "'u pyenv \<Rightarrow> nat \<Rightarrow> exc_type list \<Rightarrow> 'u world_scheme policy \<Rightarrow> bool" where
  "plain_policy E n types p \<longleftrightarrow> env_ok E \<and> int n < 2 ^ 50 \<and> pol_stop p = StopAfterAttempt (int n) \<and>
     pol_condition p = ExceptionCondition types \<and> delay_wf (pol_delay p) \<and> pol_handlers p = [] \<and>
     pol_budget p = None"

lemma plain_wait:
  assumes "env_ok E" "delay_wf (pol_delay p)" "pol_budget p = None" "int n < 2 ^ 50"
  obtains k plan where "plan_retry_wait E p n st w = (Ok (Some plan), w\<lparr>w_draws := k\<rparr>)"
    "wp_reservation plan = None"
proof -
  obtain v k x where "resolve_delay E (pol_delay p) (int n) st w = (Ok v, w\<lparr>w_draws := k\<rparr>)"
    "ensure_resolved_delay v = Ok x"
    by (rule wf_delay_total [OF assms(1,2,4)])
  then have "plan_retry_wait E p n st w = (Ok (Some \<lparr>wp_policy_delay = x, wp_budget_delay = 0,
      wp_total_delay = x, wp_reservation = None, wp_budget = None\<rparr>), w\<lparr>w_draws := k\<rparr>)"
    using assms(3) by (simp add: plan_retry_wait_def py_bind_def py_eval)
  then show thesis by (rule that) simp
qed

text \<open>The worlds that differ in clock readings and draws only.\<close>

definition same_but_time :: "'u world_scheme \<Rightarrow> 'u world_scheme \<Rightarrow> bool" where
  "same_but_time w w' \<longleftrightarrow> w_budgets w' = w_budgets w \<and> world.more w' = world.more w"

lemma same_but_time_intros [simp]:
  "same_but_time w w" "same_but_time w (v\<lparr>w_reads := i\<rparr>) = same_but_time w v"
  "same_but_time w (v\<lparr>w_draws := k\<rparr>) = same_but_time w v"
  by (simp_all add: same_but_time_def)

lemma same_but_time_trans: "same_but_time a b \<Longrightarrow> same_but_time b c \<Longrightarrow> same_but_time a c"
  by (simp add: same_but_time_def)

text \<open>Below the attempt limit a planned wait is a retry, whatever the plan has made of the world.\<close>

lemma plan_retry_waits:
  assumes p: "pol_stop p = StopAfterAttempt (int n)" "pol_handlers p = []"
    and n: "rn_attempt_number (fw_runtime f) < n"
    and wait: "\<And>st w1. same_but_time w w1 \<Longrightarrow>
      \<exists>plan w2. plan_retry_wait E p (rn_attempt_number (fw_runtime f)) st w1 = (Ok (Some plan), w2) \<and> Q w2"
    and later: "\<And>v i. Q v \<Longrightarrow> Q (v\<lparr>w_reads := i\<rparr>)"
  obtains plan w' where "plan_retry E p a (f, w) = (Ok (Wait plan), (f, w'))" "Q w'"
proof -
  have stop: "py_bind (sleep_would_stop E p plan) k (f, v) = k False (f, v\<lparr>w_reads := w_reads v + 1\<rparr>)"
    for plan v and k :: "bool \<Rightarrow> ('a, decision) fio"
    using p n
    by (simp add: py_bind_def sleep_would_stop_def bind_fio in_world_def clock_now_eq
        should_stop_before_sleep_def py_return_def fio_eval)
  let ?pre = "if delay_needs_state (pol_delay p) \<or> has_handler p BeforeSleep
    then py_bind (in_world (runtime_state E (fw_runtime f) (no_fields\<lparr>sf_last_value := ao_value a,
        sf_last_error := ao_error a, sf_has_value := ao_has_value a,
        sf_retry_cause := Some (ao_cause a), sf_will_retry := True\<rparr>))) (\<lambda>st. py_return (Some st))
    else py_return None"
  obtain st w1 where st: "?pre (f, w) = (Ok st, (f, w1))" "same_but_time w w1"
  proof (cases "delay_needs_state (pol_delay p) \<or> has_handler p BeforeSleep")
    case True
    show thesis
      by (rule that, simp add: True runtime_state_def in_world_eq py_bind_eval clock_now_eq py_return_def) simp
  qed (use that in \<open>auto simp: py_return_def\<close>)
  from wait [OF st(2)] obtain plan w2 where
    plan: "plan_retry_wait E p (rn_attempt_number (fw_runtime f)) st w1 = (Ok (Some plan), w2)" "Q w2"
    by blast
  have "plan_retry E p a (f, w) = (Ok (Wait plan), (f, w2\<lparr>w_reads := w_reads w2 + 1 + 1\<rparr>))"
    using p unfolding plan_retry_def bind_fio
    by (subst py_bind_eval(1) [of ?pre "(f, w)" st "(f, w1)", OF st(1)])
      (simp add: py_bind_eval in_world_eq plan stop no_handlers on_error_def py_catch_eval py_eval)
  then show thesis using later [OF plan(2)] by (rule that)
qed

lemma plain_plan_retry:
  assumes P: "plain_policy E n types p" and n: "rn_attempt_number (fw_runtime f) < n"
  obtains plan w' where "plan_retry E p a (f, w) = (Ok (Wait plan), (f, w'))" "same_but_time w w'"
proof (rule plan_retry_waits [where Q = "same_but_time w"])
  note p = P [unfolded plain_policy_def]
  show "pol_stop p = StopAfterAttempt (int n)" "pol_handlers p = []" using p by auto
  have lt: "int (rn_attempt_number (fw_runtime f)) < 2 ^ 50" using p n by linarith
  show "\<exists>plan w2. plan_retry_wait E p (rn_attempt_number (fw_runtime f)) st w1 = (Ok (Some plan), w2)
      \<and> same_but_time w w2" if "same_but_time w w1" for st w1
  proof -
    obtain k plan where
      "plan_retry_wait E p (rn_attempt_number (fw_runtime f)) st w1 = (Ok (Some plan), w1\<lparr>w_draws := k\<rparr>)"
      by (rule plain_wait [of E p, OF _ _ _ lt]) (use p in auto)
    with that show ?thesis by auto
  qed
qed (use n that in auto)

section \<open>A turn\<close>

text \<open>
  A policy under which an execution goes on until its attempt limit: below the limit a retry is planned and
  waited for, while \<open>J\<close> holds of the attempt number and the budgets; user state is left alone.
\<close>

definition retries ::
    "'u pyenv \<Rightarrow> nat \<Rightarrow> exc_type list \<Rightarrow> (wait_plan \<Rightarrow> ('u, unit) io) \<Rightarrow> (nat \<Rightarrow> (nat \<Rightarrow> retry_budget) \<Rightarrow> bool)
      \<Rightarrow> 'u world_scheme policy \<Rightarrow> bool" where
  "retries E n types sleep J p \<longleftrightarrow>
     pol_stop p = StopAfterAttempt (int n) \<and> pol_condition p = ExceptionCondition types \<and> pol_handlers p = [] \<and>
     (\<forall>f w a. rn_attempt_number (fw_runtime f) < n \<longrightarrow> J (rn_attempt_number (fw_runtime f)) (w_budgets w) \<longrightarrow>
       (\<exists>plan w' w''. plan_retry E p a (f, w) = (Ok (Wait plan), (f, w')) \<and> sleep plan w' = (Ok (), w'') \<and>
         world.more w'' = world.more w \<and> J (Suc (rn_attempt_number (fw_runtime f))) (w_budgets w'')))"

lemma retries_below:
  assumes "retries E n types sleep J p" "rn_attempt_number (fw_runtime f) < n"
    and "J (rn_attempt_number (fw_runtime f)) (w_budgets w)"
  shows "\<exists>plan w' w''. plan_retry E p a (f, w) = (Ok (Wait plan), (f, w')) \<and> sleep plan w' = (Ok (), w'') \<and>
    world.more w'' = world.more w \<and> J (Suc (rn_attempt_number (fw_runtime f))) (w_budgets w'')"
  using assms unfolding retries_def by blast

text \<open>A computation that returns, and changes no more than the clock.\<close>

definition quiet :: "('u, unit) io \<Rightarrow> bool" where
  "quiet m \<longleftrightarrow> (\<forall>w. \<exists>w'. m w = (Ok (), w') \<and> same_but_time w w')"

lemma quiet_on_error:
  assumes "quiet m"
  shows "quiet (on_error m cleanup_code)"
  unfolding quiet_def
proof
  fix w
  obtain w' where "m w = (Ok (), w')" "same_but_time w w'" using assms unfolding quiet_def by blast
  then show "\<exists>w'. on_error m cleanup_code w = (Ok (), w') \<and> same_but_time w w'"
    by (simp add: on_error_def py_catch_def)
qed

lemma quiet_sleep:
  "(\<And>seconds. quiet (invoke_sync_sleep E (pol_sleep p) seconds)) \<Longrightarrow> quiet (sleep_before_retry E p plan)"
  "(\<And>seconds. quiet (invoke_async_sleep E (pol_async_sleep p) seconds)) \<Longrightarrow> quiet (async_sleep_before_retry E p plan)"
  by (simp_all add: sleep_before_retry_def async_sleep_before_retry_def quiet_on_error)

lemma plain_policy_retries:
  assumes P: "plain_policy E n types p" and "\<And>plan. quiet (sleep plan)"
  shows "retries E n types sleep (\<lambda>_ _. True) p"
proof -
  have "\<exists>plan w' w''. plan_retry E p a (f, w) = (Ok (Wait plan), (f, w')) \<and> sleep plan w' = (Ok (), w'')
      \<and> world.more w'' = world.more w" if n: "rn_attempt_number (fw_runtime f) < n" for f w a
  proof -
    obtain plan w' where plan: "plan_retry E p a (f, w) = (Ok (Wait plan), (f, w'))" "same_but_time w w'"
      by (rule plain_plan_retry [OF P n])
    moreover obtain w'' where "sleep plan w' = (Ok (), w'')" "same_but_time w' w''"
      using assms(2) [of plan] unfolding quiet_def by blast
    ultimately show ?thesis by (auto simp: same_but_time_def)
  qed
  with P show ?thesis by (simp add: retries_def plain_policy_def)
qed

lemma plain_attempt_raises:
  assumes P: "retries E n types sleep J p" and e: "list_ex (isinstance_exn e) types" "\<not> is_try_again e"
  shows "after_exception E p e (f, w) =
    (let t = env_clock E (w_reads w);
         g = f\<lparr>fw_runtime := record_failure (fw_attempt_started_at f) t e (fw_runtime f)\<rparr>;
         v = w\<lparr>w_reads := w_reads w + 1\<rparr>
     in if n \<le> rn_attempt_number (fw_runtime f) then exhaust E p (exception_outcome e) (g, v)
        else plan_retry E p (exception_outcome e) (g, v))"
  using assms
  by (simp add: after_exception_def retries_def bind_fio decide_exception_def no_handlers Let_def
      record_failure_def)

lemma plain_attempt_returns:
  assumes P: "retries E n types sleep J p"
  shows "after_value E p v True (f, w) =
    (let g = with_success E v True f w
     in (Ok (Final Accept (runtime_result (fw_runtime g) (env_clock E (w_reads w + 1)) v None False None)),
         (g, w\<lparr>w_reads := w_reads w + 2\<rparr>)))"
  using assms
  by (simp add: after_value_def retries_def bind_fio decide_value_def no_handlers Let_def
      with_success_def record_success_def py_return_def py_bind_eval)

lemma plain_finish:
  "pol_return_result p \<Longrightarrow> finish_turn p sleep (Final kind r) s = (Ok (Some (Tracked r)), s)"
  by (simp add: finish_turn_def finish_decision_def finish_exhausted_def py_return_def py_bind_eval)

lemma plain_sleep:
  "sleep plan w = (Ok (), w') \<Longrightarrow> finish_turn p sleep (Wait plan) (f, w) = (Ok None, (f, w'))"
  by (simp add: finish_turn_def py_return_def py_bind_def in_world_def)

text \<open>The flow object at the start of an attempt.\<close>

definition entered :: "'u pyenv \<Rightarrow> flow \<Rightarrow> 'u world_scheme \<Rightarrow> flow" where
  "entered E f w = f\<lparr>fw_runtime := begin_attempt (fw_runtime f),
     fw_attempt_started_at := env_clock E (w_reads w)\<rparr>"

lemma plain_turn_eq:
  assumes "pol_handlers p = []"
  shows "turn E p attempt sleep (f, w) =
    py_bind attempt (finish_turn p sleep) (entered E f w, w\<lparr>w_reads := w_reads w + 1\<rparr>)"
  by (simp add: turn_def py_bind_eval next_attempt_eq plain_enter [OF assms] entered_def)

lemma plain_step:
  assumes "pol_handlers p = []"
  shows "sync_step E p fn (f, w) =
    py_bind (try_attempt fn (after_exception E p) (\<lambda>v. after_value E p v True))
      (finish_turn p (sleep_before_retry E p)) (entered E f w, w\<lparr>w_reads := w_reads w + 1\<rparr>)"
  by (simp add: sync_step_def py_bind_eval next_attempt_eq plain_enter [OF assms] entered_def)

section \<open>Functions that fail a while\<close>

text \<open>
  A function that raises or returns as the state it has seen of its own calls says: \<open>seen\<close> reads that state
  off the world, \<open>step\<close> is what a call makes of it.
\<close>

locale flaky_function =
  fixes fn :: "('u, pyval) io" and after :: "'u world_scheme \<Rightarrow> 'u world_scheme"
    and seen :: "'u world_scheme \<Rightarrow> 'o" and step :: "'o \<Rightarrow> 'o" and fails :: "'o \<Rightarrow> bool"
    and v :: pyval and e :: exn
  assumes answer: "fn w = (if fails (seen w) then Raise e else Ok v, after w)"
    and seen_after: "seen (after w) = step (seen w)"
    and budgets_after: "w_budgets (after w) = w_budgets w"
    and seen_user: "world.more w' = world.more w \<Longrightarrow> seen w' = seen w"
begin

lemma seen_reads [simp]: "seen (w\<lparr>w_reads := i\<rparr>) = seen w"
  by (rule seen_user) simp

text \<open>\<open>k\<close> failures are left after \<open>j\<close> failed attempts, and \<open>j + k\<close> or \<open>n\<close> decides.\<close>

lemma loop:
  assumes P: "retries E n types sleep J p" and q: "pol_handlers q = []" "pol_return_result q"
    and e: "list_ex (isinstance_exn e) types" "is_exception e" "\<not> is_try_again e"
  shows "rn_attempt_number (fw_runtime f) = j \<Longrightarrow> rn_failed (fw_runtime f) = j \<Longrightarrow>
    rn_success (fw_runtime f) = 0 \<Longrightarrow> j < n \<Longrightarrow> J (Suc j) (w_budgets w) \<Longrightarrow>
    (\<And>i. i < k \<Longrightarrow> fails ((step ^^ i) (seen w))) \<Longrightarrow> \<not> fails ((step ^^ k) (seen w)) \<Longrightarrow>
    \<exists>r g t. while_true (turn E q (try_attempt fn (after_exception E p) (\<lambda>v. after_value E p v True)) sleep) (f, w)
        = Some (Ok (Tracked r), (g, t)) \<and>
      seen t = (step ^^ min (Suc k) (n - j)) (seen w) \<and>
      rr_exhausted r = (n \<le> j + k) \<and>
      rr_total_attempts r = min (j + k + 1) n \<and>
      rr_total_failed r = Some (min (j + k) n) \<and>
      rr_total_successful r = Some (if n \<le> j + k then 0 else 1) \<and>
      rr_value r = (if n \<le> j + k then VNone else v) \<and>
      rr_error r = (if n \<le> j + k then Some e else None)"
proof (induction k arbitrary: f w j)
  case 0
  have fn: "fn (w\<lparr>w_reads := Suc (w_reads w)\<rparr>) = (Ok v, after (w\<lparr>w_reads := Suc (w_reads w)\<rparr>))"
    using 0 by (simp add: answer)
  show ?case
    using 0 q
    by (subst while_true.simps)
      (simp add: plain_turn_eq py_bind_def try_attempt_def in_world_eq fn plain_attempt_returns [OF P]
        plain_finish Let_def runtime_result_def with_success_def record_success_def entered_def
        begin_attempt_def seen_after)
next
  case (Suc k)
  let ?w1 = "w\<lparr>w_reads := Suc (w_reads w)\<rparr>"
  let ?w2 = "after ?w1"
  let ?turn = "turn E q (try_attempt fn (after_exception E p) (\<lambda>v. after_value E p v True)) sleep"
  have fn: "fn ?w1 = (Raise e, ?w2)" using Suc.prems(6) [of 0] by (simp add: answer)
  let ?g = "(entered E f w)\<lparr>fw_runtime := record_failure (env_clock E (w_reads w))
    (env_clock E (w_reads ?w2)) e (begin_attempt (fw_runtime f))\<rparr>"
  let ?w3 = "?w2\<lparr>w_reads := Suc (w_reads ?w2)\<rparr>"
  have step: "?turn (f, w) =
      py_bind (\<lambda>_. if n \<le> Suc j then exhaust E p (exception_outcome e) (?g, ?w3)
          else plan_retry E p (exception_outcome e) (?g, ?w3)) (finish_turn q sleep) (entered E f w, ?w1)"
    using q Suc.prems(1) e
    by (simp add: plain_turn_eq py_bind_def try_attempt_def in_world_eq fn plain_attempt_raises [OF P]
        Let_def entered_def begin_attempt_def)
  have seen3: "seen ?w3 = step (seen w)" by (simp add: seen_after)
  show ?case
  proof (cases "n \<le> Suc j")
    case True
    then have "n - j = Suc 0" using Suc.prems(4) by simp
    with True P q e(3) Suc.prems(1-4) seen3 show ?thesis
      by (subst while_true.simps)
        (simp add: step py_bind_def plain_exhaust retries_def plain_finish runtime_result_def exception_outcome_def
          resolve_final_error_def record_failure_def begin_attempt_def min_absorb2)
  next
    case False
    have n: "rn_attempt_number (fw_runtime ?g) = Suc j"
      using Suc.prems(1) by (simp add: record_failure_def begin_attempt_def)
    obtain plan w' w'' where plan: "plan_retry E p (exception_outcome e) (?g, ?w3) = (Ok (Wait plan), (?g, w'))"
      "sleep plan w' = (Ok (), w'')" and w'': "world.more w'' = world.more ?w3" "J (Suc (Suc j)) (w_budgets w'')"
    proof -
      have "rn_attempt_number (fw_runtime ?g) < n" "J (rn_attempt_number (fw_runtime ?g)) (w_budgets ?w3)"
        using n False Suc.prems(5) by (simp_all add: budgets_after)
      with retries_below [OF P, of ?g ?w3 "exception_outcome e"] that show thesis by (metis n)
    qed
    have s: "?turn (f, w) = (Ok None, (?g, w''))"
      using False by (simp add: step py_bind_def plan plain_sleep)
    have seen: "seen w'' = step (seen w)" using seen_user [OF w''(1)] seen3 by simp
    have later: "(step ^^ i) (seen w'') = (step ^^ Suc i) (seen w)" for i
      by (simp add: seen funpow_swap1)
    have min: "min (Suc (Suc k)) (n - j) = Suc (min (Suc k) (n - Suc j))" using False by simp
    have "rn_failed (fw_runtime ?g) = Suc j" "rn_success (fw_runtime ?g) = 0" "Suc j < n"
      using Suc.prems False by (simp_all add: record_failure_def begin_attempt_def)
    note IH = Suc.IH [OF n this w''(2), unfolded later, OF Suc.prems(6,7)]
    have "while_true ?turn (f, w) = while_true ?turn (?g, w'')" by (subst while_true.simps) (simp add: s)
    with IH show ?thesis by (simp add: min)
  qed
qed

end

end
