(* ===== verification/TestTasks.thy ===== *)
theory TestTasks
  imports Main PlainRuns
begin

text \<open>
  \<open>testing/fake_task.py\<close>, and what a policy does with such a task: how many attempts are made, and
  what is returned.
\<close>

section \<open>\<open>FailingTask\<close>\<close>

text \<open>The one mutable attribute of the task object is part of the world.\<close>

record task_world = world +
  tw_failures_left :: int

type_synonym 'v task_io = "('v task_world_ext, pyval) io"

text \<open>\<open>FailingTask.__call__\<close>\<close>

definition failing_task :: "pyval \<Rightarrow> exn \<Rightarrow> 'v task_io" where
  "failing_task final_value error w =
     (if 0 < tw_failures_left w
      then (Raise error, w\<lparr>tw_failures_left := tw_failures_left w - 1\<rparr>)
      else (Ok final_value, w))"

text \<open>\<open>fail_times(times, error)\<close>; the second argument is \<open>Inr\<close> for an object that is no exception.\<close>

definition fail_times :: "pyval \<Rightarrow> (exn + pyval) option \<Rightarrow> (int \<times> exn) res" where
  "fail_times times_arg error =
     (case times_arg of
        VInt n \<Rightarrow>
          if n < 0 then Raise (config_error ''times must be a non-negative integer'')
          else (case error of
                  None \<Rightarrow> Ok (n, new_exn RuntimeError_t ''planned failure'')
                | Some (Inl e) \<Rightarrow> Ok (n, e)
                | Some (Inr v) \<Rightarrow>
                    Raise (config_error (''error must be an exception instance, got '' @ type_name v)))
      | _ \<Rightarrow> Raise (config_error ''times must be a non-negative integer''))"

text \<open>\<open>no_sleep\<close> and \<open>no_sleep_async\<close>: both sleepers ignore the seconds.\<close>

definition no_sleep :: "'s policy \<Rightarrow> 's policy res" where
  "no_sleep p =
     with_sleep (SleepFun (Function PlainFunction) (\<lambda>seconds. py_return VNone))
       (Some (AsyncSleepFun (Function CoroutineFunction) (\<lambda>seconds. py_return (Awaitable (py_return VNone))))) p"

section \<open>The task as a flaky function\<close>

definition count_down :: "int \<Rightarrow> int" where
  "count_down i = (if 0 < i then i - 1 else i)"

lemma count_down_funpow: "i \<le> k \<Longrightarrow> (count_down ^^ i) (int k) = int (k - i)"
  by (induction i) (auto simp: count_down_def)

lemma task_of_user: "world.more w' = world.more w \<Longrightarrow> tw_failures_left w' = tw_failures_left w"
  by (cases w; cases w') simp

interpretation task: flaky_function "failing_task v e"
    "\<lambda>w. if 0 < tw_failures_left w then w\<lparr>tw_failures_left := tw_failures_left w - 1\<rparr> else w"
    tw_failures_left count_down "\<lambda>i. 0 < i" v e for v e
  by unfold_locales (auto simp: failing_task_def count_down_def intro: task_of_user)

section \<open>Properties\<close>

text \<open>
  C23: how often a task is tried. Under an attempt limit \<open>n\<close>, a task that fails \<open>k\<close> times with a retried
  exception and then returns is attempted \<open>min (k + 1) n\<close> times, whatever built-in delay is configured and
  however the sleeper waits: below the limit the value comes back, otherwise the execution is exhausted with the
  last exception, the counters of the result say so, and the task has used up that many of its failures.
\<close>

theorem failing_task_attempts:
  assumes "plain_policy E n types p" "0 < n" "pol_return_result p"
    and "\<And>seconds. quiet (invoke_sync_sleep E (pol_sleep p) seconds)"
    and "list_ex (isinstance_exn e) types" "is_exception e" "\<not> is_try_again e"
    and "tw_failures_left w = int k"
  shows "\<exists>r w'. execute_sync E p name (failing_task v e) w = Some (Ok (Tracked r), w') \<and>
      tw_failures_left w' = int (k - min k n) \<and>
      rr_exhausted r = (n \<le> k) \<and>
      rr_total_attempts r = min (k + 1) n \<and>
      rr_total_failed r = Some (min k n) \<and>
      rr_total_successful r = Some (if n \<le> k then 0 else 1) \<and>
      rr_value r = (if n \<le> k then VNone else v) \<and>
      rr_error r = (if n \<le> k then Some e else None)"
proof -
  let ?f = "\<lparr>fw_runtime = runtime_init name (env_clock E (w_reads w)) (pol_history_limit p) (pol_name p),
         fw_attempt_started_at = env_clock E (w_reads w)\<rparr>"
  let ?w = "w\<lparr>w_reads := w_reads w + 1\<rparr>"
  have f: "rn_attempt_number (fw_runtime ?f) = 0" "rn_failed (fw_runtime ?f) = 0" "rn_success (fw_runtime ?f) = 0"
    by (simp_all add: runtime_init_def)
  have h: "pol_handlers p = []" using assms(1) by (simp add: plain_policy_def)
  have k: "\<And>i. i < k \<Longrightarrow> 0 < (count_down ^^ i) (tw_failures_left ?w)" "\<not> 0 < (count_down ^^ k) (tw_failures_left ?w)"
    by (simp_all add: assms(8) count_down_funpow)
  have left: "(count_down ^^ min (Suc k) n) (int k) = int (k - min k n)"
    using count_down_funpow [of "min (Suc k) n" k] count_down_funpow [of k k]
    by (cases "n \<le> k") (auto simp: count_down_def min_absorb1 min_absorb2)
  have P: "retries E n types (sleep_before_retry E p) (\<lambda>_ _. True) p"
    by (rule plain_policy_retries [OF assms(1)], rule quiet_sleep(1), rule assms(4))
  obtain r g t where "while_true (sync_step E p (failing_task v e)) (?f, ?w) = Some (Ok (Tracked r), (g, t))"
    and "tw_failures_left t = int (k - min k n)"
    and "rr_exhausted r = (n \<le> k) \<and> rr_total_attempts r = min (k + 1) n \<and> rr_total_failed r = Some (min k n) \<and>
      rr_total_successful r = Some (if n \<le> k then 0 else 1) \<and> rr_value r = (if n \<le> k then VNone else v) \<and>
      rr_error r = (if n \<le> k then Some e else None)"
    using task.loop [OF P h assms(3,5-7) f assms(2) TrueI k, of v] unfolding sync_step_turn
    by (simp add: assms(8) left) blast
  then show ?thesis by (simp add: execute_sync_def flow_init_eq drop_flow_def)
qed

lemma ex_plain_policy: "plain_policy ex_env 3 [Exception_t] ex_policy"
  by (simp add: plain_policy_def ex_env_ok ex_policy_def default_policy_def safe_num_iff)

definition ex_task_world :: "int \<Rightarrow> task_world" where
  "ex_task_world k = \<lparr>w_reads = 0, w_draws = 0, w_budgets = (\<lambda>i. ex_b0), tw_failures_left = k\<rparr>"

theorem failing_task_attempts_witness:
  "\<exists>r w'. execute_sync ex_env ex_policy ''task'' (failing_task (VInt 7) (new_exn TimeoutError_t ''slow''))
      (ex_task_world 2) = Some (Ok (Tracked r), w')
    \<and> tw_failures_left w' = int (2 - min 2 3)
    \<and> rr_exhausted r = (3 \<le> (2::nat)) \<and> rr_total_attempts r = min (2 + 1) 3
    \<and> rr_total_failed r = Some (min 2 3)
    \<and> rr_total_successful r = Some (if 3 \<le> (2::nat) then 0 else 1)
    \<and> rr_value r = (if 3 \<le> (2::nat) then VNone else VInt 7)
    \<and> rr_error r = (if 3 \<le> (2::nat) then Some (new_exn TimeoutError_t ''slow'') else None)"
  by (rule failing_task_attempts [OF ex_plain_policy])
    (simp_all add: isinstance_exn_def new_exn_def exc_type_defs ex_task_world_def ex_policy_def default_policy_def
      quiet_def invoke_sync_sleep_def py_return_def)

end
