(* ===== verification/Outcomes.thy ===== *)
theory Outcomes
  imports Main TestTasks
begin

text \<open>
  The final decisions of an execution: what an accepted, a rejected and an exhausted result look like,
  and the loop of a policy in terms of the loop of its tracking copy \<open>policy.return_result()\<close>, whose
  executions always return their result.
\<close>

section \<open>Final decisions\<close>

definition final_ok :: "final_kind \<Rightarrow> result \<Rightarrow> bool" where
  "final_ok kind r \<longleftrightarrow>
     (case kind of
        Accept \<Rightarrow> \<not> rr_exhausted r \<and> rr_error r = None
      | Reject \<Rightarrow> \<not> rr_exhausted r \<and> rr_error r \<noteq> None
      | Exhaust \<Rightarrow> rr_exhausted r)"

definition decides_ok :: "('s, decision) py \<Rightarrow> bool" where
  "decides_ok m \<longleftrightarrow> (\<forall>s kind r t. m s = (Ok (Final kind r), t) \<longrightarrow> final_ok kind r)"

lemma exhaust_result:
  "exhaust E p a s = (Ok (Final kind r), t) \<Longrightarrow> kind = Exhaust \<and> rr_exhausted r"
  by (auto simp: exhaust_def Let_def runtime_result_def elim!: py_bind_OkD)

lemma plan_retry_result:
  "plan_retry E p a s = (Ok (Final kind r), t) \<Longrightarrow> kind = Exhaust \<and> rr_exhausted r"
  by (auto simp: plan_retry_def elim!: py_bind_OkD dest!: exhaust_result split: option.splits if_splits)

lemma after_exception_final:
  assumes "after_exception E p e s = (Ok (Final kind r), t)"
  shows "final_ok kind r \<and> kind \<noteq> Accept \<and> (kind = Reject \<longrightarrow> rr_error r = Some e)"
  using assms
  by (auto simp: after_exception_def decide_exception_def final_ok_def Let_def runtime_result_def
      elim!: py_bind_OkD split: if_splits dest!: exhaust_result plan_retry_result)

lemma after_value_final:
  assumes "after_value E p v h s = (Ok (Final kind r), t)"
  shows "final_ok kind r \<and> kind \<noteq> Reject"
  using assms
  by (auto simp: after_value_def decide_value_def final_ok_def Let_def runtime_result_def
      elim!: py_bind_OkD split: if_splits dest!: exhaust_result plan_retry_result)

lemma decides_ok_after: "decides_ok (after_exception E p e)" "decides_ok (after_value E p v h)"
  using after_exception_final after_value_final unfolding decides_ok_def by blast+

lemma decides_ok_try:
  assumes "\<And>e. decides_ok (on_exc e)" "\<And>v. decides_ok (on_val v)"
  shows "decides_ok (try_attempt m on_exc on_val)"
  using assms unfolding decides_ok_def try_attempt_def
  by (auto split: prod.splits res.splits if_splits)

lemma decides_ok_lift_bind: "(\<And>x. decides_ok (k x)) \<Longrightarrow> decides_ok (py_bind (py_lift c) k)"
  by (cases c) (auto simp: decides_ok_def py_bind_def py_lift_def)

lemmas decides_ok_rules = decides_ok_after decides_ok_try decides_ok_lift_bind

lemma finish_decision_tracked:
  "final_ok kind r \<Longrightarrow> finish_decision p kind r = resolve_tracked_result p r"
  by (cases kind) (auto simp: finish_decision_def resolve_tracked_result_def final_ok_def
      finish_exhausted_def)

section \<open>The tracking copy\<close>

text \<open>What \<open>policy.return_result()\<close> returns when it does.\<close>

definition tracking :: "'s policy \<Rightarrow> 's policy" where
  "tracking p = p\<lparr>pol_raise_last := False, pol_return_result := True, pol_callback := None,
     pol_factory := None\<rparr>"

lemma return_result_tracking: "return_result p = Ok q \<Longrightarrow> q = tracking p"
  by (auto simp: return_result_def replace_exhaustion_def tracking_def dest: post_init_same)

lemma tracking_fields:
  "pol_stop (tracking p) = pol_stop p" "pol_delay (tracking p) = pol_delay p"
  "pol_condition (tracking p) = pol_condition p" "pol_handlers (tracking p) = pol_handlers p"
  "pol_sleep (tracking p) = pol_sleep p" "pol_async_sleep (tracking p) = pol_async_sleep p"
  "pol_history_limit (tracking p) = pol_history_limit p" "pol_budget (tracking p) = pol_budget p"
  "pol_budget_key (tracking p) = pol_budget_key p" "pol_name (tracking p) = pol_name p"
  by (simp_all add: tracking_def)

text \<open>The flow only reads the fields of a policy that the copy shares.\<close>

lemma tracking_flow [simp]:
  "flow_init E (tracking p) name = flow_init E p name"
  "flow_emit E (tracking p) ev v error sfs = flow_emit E p ev v error sfs"
  "enter_attempt E (tracking p) = enter_attempt E p"
  "exhaust E (tracking p) a = exhaust E p a"
  "plan_retry E (tracking p) a = plan_retry E p a"
  "after_exception E (tracking p) e = after_exception E p e"
  "after_value E (tracking p) v h = after_value E p v h"
  "sleep_before_retry E (tracking p) = sleep_before_retry E p"
  "async_sleep_before_retry E (tracking p) = async_sleep_before_retry E p"
proof -
  have emit: "emit E (tracking p) = emit E p" for E :: "'a pyenv" and p
    by (simp only: fun_eq_iff simp_thms emit_def with_policy_name_def tracking_fields)
  have has: "has_handler (tracking p) = has_handler p" for p :: "'a world_scheme policy"
    by (simp only: fun_eq_iff simp_thms has_handler_def tracking_fields)
  show fe: "flow_emit E (tracking p) ev v error sfs = flow_emit E p ev v error sfs" for ev v error sfs
    by (simp only: flow_emit_def emit has)
  show "flow_init E (tracking p) name = flow_init E p name"
    by (simp only: flow_init_def tracking_fields)
  show "enter_attempt E (tracking p) = enter_attempt E p" by (simp only: enter_attempt_def fe)
  show ex: "exhaust E (tracking p) a = exhaust E p a" for a by (simp only: exhaust_def fe)
  have wait: "plan_retry_wait E (tracking p) = plan_retry_wait E p"
    by (simp only: fun_eq_iff simp_thms plan_retry_wait_def tracking_fields)
  have stop: "sleep_would_stop E (tracking p) = sleep_would_stop E p"
    by (simp only: fun_eq_iff simp_thms sleep_would_stop_def tracking_fields)
  show pr: "plan_retry E (tracking p) a = plan_retry E p a" for a
    by (simp only: plan_retry_def emit has ex wait stop tracking_fields)
  show "after_exception E (tracking p) e = after_exception E p e"
    by (simp only: after_exception_def decide_exception_def fe ex pr tracking_fields)
  show "after_value E (tracking p) v h = after_value E p v h"
    by (simp only: after_value_def decide_value_def fe ex pr tracking_fields)
  show "sleep_before_retry E (tracking p) = sleep_before_retry E p"
    "async_sleep_before_retry E (tracking p) = async_sleep_before_retry E p"
    by (simp_all only: fun_eq_iff simp_thms sleep_before_retry_def async_sleep_before_retry_def tracking_fields)
qed

lemma finish_turn_tracking:
  "finish_turn (tracking p) sleep (Final kind r) = py_return (Some (Tracked r))"
  by (simp add: fun_eq_iff finish_turn_def finish_decision_def finish_exhausted_def tracking_def
      in_world_def py_return_def py_bind_def)

text \<open>One loop from another whose final outcomes are mapped by a computation.\<close>

definition then_resolve :: "('a \<Rightarrow> ('s, 'b) py) \<Rightarrow> 'a option \<Rightarrow> ('s, 'b option) py" where
  "then_resolve g x =
     (case x of None \<Rightarrow> py_return None | Some y \<Rightarrow> py_bind (g y) (\<lambda>z. py_return (Some z)))"

definition resolve_end :: "('a \<Rightarrow> ('s, 'b) py) \<Rightarrow> ('a res \<times> 's) option \<Rightarrow> ('b res \<times> 's) option" where
  "resolve_end g x =
     (case x of None \<Rightarrow> None | Some (Ok y, s) \<Rightarrow> Some (g y s) | Some (Raise e, s) \<Rightarrow> Some (Raise e, s))"

lemma while_true_resolve:
  "while_true (py_bind body (then_resolve g)) s = resolve_end g (while_true body s)"
proof -
  define st where "st = py_bind body (then_resolve g)"
  have eval: "st s = (case body s of
      (Ok None, t) \<Rightarrow> (Ok None, t)
    | (Ok (Some x), t) \<Rightarrow> (case g x t of (Ok y, u) \<Rightarrow> (Ok (Some y), u) | (Raise e, u) \<Rightarrow> (Raise e, u))
    | (Raise e, t) \<Rightarrow> (Raise e, t))" for s
    by (auto simp: st_def py_bind_def then_resolve_def py_return_def split: prod.splits res.splits option.splits)
  have fwd: "resolve_end g (while_true body s) = Some y" if "while_true m s = Some y" "m = st" for m s y
    using that
  proof (induction rule: while_true.raw_induct [rotated, consumes 1, case_names step])
    case (step loop m s y)
    obtain r t where b: "body s = (r, t)" by (metis prod.exhaust)
    have IH: "loop st t = Some y \<Longrightarrow> resolve_end g (while_true body t) = Some y"
      using step(1,3) by blast
    have eq: "(case st s of (Ok None, s') \<Rightarrow> loop st s' | (Ok (Some x), s') \<Rightarrow> Some (Ok x, s')
      | (Raise e, s') \<Rightarrow> Some (Raise e, s')) = Some y"
      using step(2) unfolding step(3) .
    show ?case
      using IH eq eval [of s]
      by (subst while_true.simps, cases r)
        (auto simp: b resolve_end_def split: option.splits res.splits prod.splits)
  qed
  have bwd: "while_true st s = resolve_end g (Some y)" if "while_true m s = Some y" "m = body" for m s y
    using that
  proof (induction rule: while_true.raw_induct [rotated, consumes 1, case_names step])
    case (step loop m s y)
    obtain r t where b: "body s = (r, t)" by (metis prod.exhaust)
    have IH: "loop body t = Some y \<Longrightarrow> while_true st t = resolve_end g (Some y)"
      using step(1,3) by blast
    have eq: "(case body s of (Ok None, s') \<Rightarrow> loop body s' | (Ok (Some x), s') \<Rightarrow> Some (Ok x, s')
      | (Raise e, s') \<Rightarrow> Some (Raise e, s')) = Some y"
      using step(2) unfolding step(3) .
    show ?case
      using IH eq eval [of s]
      by (subst while_true.simps, cases r)
        (auto simp: b resolve_end_def split: option.splits res.splits prod.splits)
  qed
  show ?thesis
  proof (cases "while_true body s")
    case None
    then show ?thesis
      using fwd [OF _ refl, of s] by (cases "while_true st s") (auto simp: resolve_end_def st_def)
  qed (use bwd in \<open>auto simp: st_def\<close>)
qed

section \<open>A policy's loop from its tracking copy's\<close>

definition resolve_tracked :: "'s policy \<Rightarrow> outcome \<Rightarrow> ('s, outcome) py" where
  "resolve_tracked p x =
     (case x of Tracked r \<Rightarrow> resolve_tracked_result p r | Plain v \<Rightarrow> py_return (Plain v))"

definition resolve_outcome :: "'u world_scheme policy \<Rightarrow> outcome \<Rightarrow> ('u, outcome) fio" where
  "resolve_outcome p x = in_world (resolve_tracked p x)"

lemma finish_turn_resolve:
  assumes "\<And>kind r. d = Final kind r \<Longrightarrow> final_ok kind r"
  shows "finish_turn p sleep d = py_bind (finish_turn (tracking p) sleep d) (then_resolve (resolve_outcome p))"
proof (cases d)
  case (Wait plan)
  then show ?thesis
    by (simp add: finish_turn_def py_bind_assoc then_resolve_def)
next
  case (Final kind r)
  then have "finish_decision p kind r = resolve_tracked_result p r"
    using assms by (simp add: finish_decision_tracked)
  then show ?thesis
    by (simp only: Final finish_turn_tracking py_bind_return)
      (simp add: finish_turn_def then_resolve_def resolve_outcome_def resolve_tracked_def)
qed

lemma turn_resolve:
  assumes "decides_ok attempt"
  shows "turn E p attempt sleep =
    py_bind (turn E (tracking p) attempt sleep) (then_resolve (resolve_outcome p))"
proof -
  have "py_bind attempt (finish_turn p sleep) =
      py_bind attempt (\<lambda>d. py_bind (finish_turn (tracking p) sleep d) (then_resolve (resolve_outcome p)))"
  proof
    fix s
    obtain r t where a: "attempt s = (r, t)" by (metis prod.exhaust)
    show "py_bind attempt (finish_turn p sleep) s =
      py_bind attempt (\<lambda>d. py_bind (finish_turn (tracking p) sleep d) (then_resolve (resolve_outcome p))) s"
    proof (cases r)
      case (Ok d)
      then have "\<And>kind r. d = Final kind r \<Longrightarrow> final_ok kind r"
        using assms a unfolding decides_ok_def by blast
      from finish_turn_resolve [where d = d and p = p and sleep = sleep, OF this] show ?thesis by (simp add: py_bind_def a Ok)
    qed (simp add: py_bind_def a)
  qed
  then show ?thesis by (simp add: turn_def py_bind_assoc)
qed

lemma sync_step_resolve:
  "sync_step E p fn = py_bind (sync_step E (tracking p) fn) (then_resolve (resolve_outcome p))"
  unfolding sync_step_turn tracking_flow by (rule turn_resolve) (intro decides_ok_rules)

lemma async_step_resolve:
  "async_step E p fn = py_bind (async_step E (tracking p) fn) (then_resolve (resolve_outcome p))"
  unfolding async_step_turn tracking_flow by (rule turn_resolve) (intro decides_ok_rules)

text \<open>The loop of a tracking copy never returns a plain value.\<close>

lemma while_true_result:
  assumes "while_true step s = Some (Ok x, t)" "\<And>s y t. step s = (Ok (Some y), t) \<Longrightarrow> P y"
  shows "P x"
proof -
  have "fst z = Ok x \<longrightarrow> P x" if "while_true m s = Some z" "m = step" for m s z
    using that
  proof (induction rule: while_true.raw_induct [rotated, consumes 1, case_names step])
    case (step loop m s z)
    then show ?case using assms(2) [of s]
      by (auto split: prod.splits res.splits option.splits)
  qed
  with assms(1) show ?thesis by fastforce
qed

lemma tracked_loop_result:
  assumes "decides_ok attempt"
    and "while_true (turn E (tracking p) attempt sleep) s = Some (Ok x, t)"
  shows "\<exists>r. x = Tracked r"
proof (rule while_true_result [OF assms(2)])
  fix s y t
  assume "turn E (tracking p) attempt sleep s = (Ok (Some y), t)"
  then obtain d s' where "finish_turn (tracking p) sleep d s' = (Ok (Some y), t)"
    by (auto simp: turn_def elim!: py_bind_OkD)
  then show "\<exists>r. y = Tracked r"
    by (cases d) (auto simp: finish_turn_tracking, auto simp: finish_turn_def elim!: py_bind_OkD)
qed

end
