(* ===== verification/Blocks.thy ===== *)
theory Blocks
  imports Main Outcomes
begin

text \<open>
  \<open>context/\<close>: retry blocks. A \<open>for attempt in policy: with attempt: body\<close> loop asks the iterator for
  attempt contexts, enters and exits each of them, and ends when the iterator is finished. The
  iterator object and the world are the state. The two flavours differ in the sleep they use, so the loop is
  one definition with the sleep as an argument; the asynchronous classes are also written out, and agree with it.
\<close>

section \<open>\<open>RetryBlockIterator\<close>\<close>

record block_iterator =
  bi_flow :: flow
  bi_finished :: bool
  bi_result :: "result option"
  bi_outcome :: "outcome option"

text \<open>\<open>has_outcome\<close> is whether \<open>bi_outcome\<close> is set.\<close>

type_synonym ('u, 'a) bio = "(block_iterator \<times> 'u world_scheme, 'a) py"

definition block_init :: "'u pyenv \<Rightarrow> 'u world_scheme policy \<Rightarrow> string \<Rightarrow> ('u, block_iterator) io" where
  "block_init E p name =
     py_bind (flow_init E p name) (\<lambda>f. py_return
       \<lparr>bi_flow = f, bi_finished = False, bi_result = None, bi_outcome = None\<rparr>)"

definition in_flow :: "('u, 'a) fio \<Rightarrow> ('u, 'a) bio" where
  "in_flow m s = (case m (bi_flow (fst s), snd s) of (r, (f, w)) \<Rightarrow> (r, ((fst s)\<lparr>bi_flow := f\<rparr>, w)))"

definition StopIteration_t :: exc_type where
  "StopIteration_t = ExcType ''builtins'' ''StopIteration'' [Exception_t]"

text \<open>\<open>__next__\<close>, with \<open>_begin_attempt\<close>\<close>

definition block_next :: "('u, nat) bio" where
  "block_next s =
     (if bi_finished (fst s) then (Raise (new_exn StopIteration_t []), s) else in_flow next_attempt s)"

text \<open>\<open>_finish\<close>: \<open>True\<close> says that \<open>current_error\<close> is suppressed.\<close>

definition block_finish ::
    "'u world_scheme policy \<Rightarrow> final_kind \<Rightarrow> result \<Rightarrow> exn option \<Rightarrow> ('u, bool) bio" where
  "block_finish p kind r current_error s =
     (let b = (fst s)\<lparr>bi_finished := True, bi_result := Some r\<rparr>
      in if kind \<noteq> Exhaust then (Ok False, (b, snd s))
         else case finish_exhausted p r (snd s) of
                (Ok x, w) \<Rightarrow> (Ok (current_error \<noteq> None), (b\<lparr>bi_outcome := Some x\<rparr>, w))
              | (Raise e, w) \<Rightarrow>
                  if current_error = Some e then (Ok False, (b, w)) else (Raise e, (b, w)))"

section \<open>\<open>RetryAttemptContext\<close>\<close>

record attempt_context =
  ac_started_at :: flt
  ac_has_result :: bool
  ac_value :: pyval

definition set_result :: "pyval \<Rightarrow> attempt_context \<times> 'w \<Rightarrow> pyval res \<times> attempt_context \<times> 'w" where
  "set_result v s = (Ok v, ((fst s)\<lparr>ac_has_result := True, ac_value := v\<rparr>, snd s))"

text \<open>\<open>__enter__\<close>, on a fresh context\<close>

definition context_enter :: "'u pyenv \<Rightarrow> 'u world_scheme policy \<Rightarrow> ('u, attempt_context) bio" where
  "context_enter E p =
     py_bind (in_flow (enter_attempt E p)) (\<lambda>_.
     py_bind (in_flow get_attempt_started_at) (\<lambda>t. py_return
       \<lparr>ac_started_at = t, ac_has_result = False, ac_value = VNone\<rparr>))"

text \<open>\<open>_decide\<close>; \<open>None\<close> lets an exception that is no \<open>Exception\<close> propagate.\<close>

definition context_decide ::
    "'u pyenv \<Rightarrow> 'u world_scheme policy \<Rightarrow> attempt_context \<Rightarrow> exn option \<Rightarrow> ('u, decision option) bio" where
  "context_decide E p c error =
     (case error of
        Some e \<Rightarrow>
          if \<not> is_exception e then py_return None
          else py_bind (in_flow (after_exception E p e)) (\<lambda>d. py_return (Some d))
      | None \<Rightarrow>
          py_bind (in_flow (after_value E p (ac_value c) (ac_has_result c))) (\<lambda>d. py_return (Some d)))"

definition in_block_world :: "('u, 'a) io \<Rightarrow> ('u, 'a) bio" where
  "in_block_world m s = (case m (snd s) of (r, w) \<Rightarrow> (r, (fst s, w)))"

text \<open>\<open>__exit__\<close>: whether the exception of the body is suppressed.\<close>

definition context_exit ::
    "'u pyenv \<Rightarrow> 'u world_scheme policy \<Rightarrow> (wait_plan \<Rightarrow> ('u, unit) io) \<Rightarrow> attempt_context
      \<Rightarrow> exn option \<Rightarrow> ('u, bool) bio" where
  "context_exit E p sleep c error =
     py_bind (context_decide E p c error) (\<lambda>decided.
       case decided of
         None \<Rightarrow> py_return False
       | Some (Wait plan) \<Rightarrow>
           py_bind (in_block_world (sleep plan)) (\<lambda>_. py_return (error \<noteq> None))
       | Some (Final kind r) \<Rightarrow> block_finish p kind r error)"

section \<open>The block\<close>

text \<open>
  The body of a block may set the result of its context; it answers whether it ends with a \<open>break\<close> (or a
  \<open>return\<close>) out of the loop.
\<close>

type_synonym 'u block_body = "(attempt_context \<times> 'u world_scheme, bool) py"

text \<open>
  \<open>with attempt: body\<close>. A \<open>break\<close> leaves the context as the end of the body does, without an exception, and is
  carried out after \<open>__exit__\<close>.
\<close>

definition with_attempt ::
    "'u pyenv \<Rightarrow> 'u world_scheme policy \<Rightarrow> (wait_plan \<Rightarrow> ('u, unit) io) \<Rightarrow> 'u block_body
      \<Rightarrow> ('u, bool) bio" where
  "with_attempt E p sleep body =
     py_bind (context_enter E p) (\<lambda>c0 (b, w).
       case body (c0, w) of
         (Ok broke, (c, w')) \<Rightarrow> py_bind (context_exit E p sleep c None) (\<lambda>_. py_return broke) (b, w')
       | (Raise e, (c, w')) \<Rightarrow>
           py_bind (context_exit E p sleep c (Some e))
             (\<lambda>suppressed. if suppressed then py_return False else py_raise e) (b, w'))"

text \<open>One round of \<open>for attempt in policy\<close>: \<open>StopIteration\<close> of the iterator ends the loop.\<close>

definition block_turn ::
    "'u pyenv \<Rightarrow> 'u world_scheme policy \<Rightarrow> (wait_plan \<Rightarrow> ('u, unit) io) \<Rightarrow> 'u block_body
      \<Rightarrow> ('u, unit option) bio" where
  "block_turn E p sleep body s =
     (case block_next s of
        (Raise e, s') \<Rightarrow> (Ok (Some ()), s')
      | (Ok number, s') \<Rightarrow>
          py_bind (with_attempt E p sleep body) (\<lambda>broke. py_return (if broke then Some () else None)) s')"

definition run_block ::
    "'u pyenv \<Rightarrow> 'u world_scheme policy \<Rightarrow> (wait_plan \<Rightarrow> ('u, unit) io) \<Rightarrow> string \<Rightarrow> 'u block_body
      \<Rightarrow> 'u world_scheme \<Rightarrow> (unit res \<times> block_iterator option \<times> 'u world_scheme) option" where
  "run_block E p sleep name body w =
     (case block_init E p name w of
        (Raise e, w') \<Rightarrow> Some (Raise e, None, w')
      | (Ok b, w') \<Rightarrow>
          map_option (\<lambda>(r, b', w''). (r, Some b', w'')) (while_true (block_turn E p sleep body) (b, w')))"

text \<open>\<open>for attempt in policy\<close> and \<open>async for attempt in policy\<close>\<close>

definition sync_block where
  "sync_block E p = run_block E p (sleep_before_retry E p)"

definition async_block where
  "async_block E p = run_block E p (async_sleep_before_retry E p)"

section \<open>The asynchronous classes\<close>

text \<open>\<open>AsyncRetryBlockIterator.__anext__\<close>, and \<open>AsyncRetryAttemptContext\<close> with \<open>__aenter__\<close> and \<open>__aexit__\<close>\<close>

definition StopAsyncIteration_t :: exc_type where
  "StopAsyncIteration_t = ExcType ''builtins'' ''StopAsyncIteration'' [Exception_t]"

definition async_block_next :: "('u, nat) bio" where
  "async_block_next s =
     (if bi_finished (fst s) then (Raise (new_exn StopAsyncIteration_t []), s) else in_flow next_attempt s)"

definition context_aexit ::
    "'u pyenv \<Rightarrow> 'u world_scheme policy \<Rightarrow> attempt_context \<Rightarrow> exn option \<Rightarrow> ('u, bool) bio" where
  "context_aexit E p c error =
     py_bind (context_decide E p c error) (\<lambda>decision.
       case decision of
         None \<Rightarrow> py_return False
       | Some (Wait plan) \<Rightarrow>
           py_bind (in_block_world (async_sleep_before_retry E p plan)) (\<lambda>_. py_return (error \<noteq> None))
       | Some (Final kind r) \<Rightarrow> block_finish p kind r error)"

definition async_with_attempt :: "'u pyenv \<Rightarrow> 'u world_scheme policy \<Rightarrow> 'u block_body \<Rightarrow> ('u, bool) bio" where
  "async_with_attempt E p body =
     py_bind (context_enter E p) (\<lambda>c0 (b, w).
       case body (c0, w) of
         (Ok broke, (c, w')) \<Rightarrow> py_bind (context_aexit E p c None) (\<lambda>_. py_return broke) (b, w')
       | (Raise e, (c, w')) \<Rightarrow>
           py_bind (context_aexit E p c (Some e))
             (\<lambda>suppressed. if suppressed then py_return False else py_raise e) (b, w'))"

definition async_block_turn ::
    "'u pyenv \<Rightarrow> 'u world_scheme policy \<Rightarrow> 'u block_body \<Rightarrow> ('u, unit option) bio" where
  "async_block_turn E p body s =
     (case async_block_next s of
        (Raise e, s') \<Rightarrow> (Ok (Some ()), s')
      | (Ok number, s') \<Rightarrow>
          py_bind (async_with_attempt E p body) (\<lambda>broke. py_return (if broke then Some () else None)) s')"

lemma context_aexit_eq: "context_aexit E p = context_exit E p (async_sleep_before_retry E p)"
  by (simp add: fun_eq_iff context_aexit_def context_exit_def)

lemma async_block_turn_eq: "async_block_turn E p body = block_turn E p (async_sleep_before_retry E p) body"
proof -
  have eq: "async_with_attempt E p body = with_attempt E p (async_sleep_before_retry E p) body"
    unfolding async_with_attempt_def with_attempt_def context_aexit_eq by (rule refl)
  show ?thesis
    by (rule ext) (auto simp: async_block_turn_def block_turn_def async_block_next_def block_next_def eq
        split: prod.splits res.splits)
qed

lemma async_block_loop:
  "async_block E p name body w =
     (case block_init E p name w of
        (Raise e, w') \<Rightarrow> Some (Raise e, None, w')
      | (Ok b, w') \<Rightarrow>
          map_option (\<lambda>(r, b', w''). (r, Some b', w'')) (while_true (async_block_turn E p body) (b, w')))"
  unfolding async_block_def run_block_def async_block_turn_eq by (rule refl)

section \<open>A block that computes a function\<close>

text \<open>\<open>attempt.set_result(function())\<close>, alone and with a \<open>break\<close> after it\<close>

definition setting_result :: "bool \<Rightarrow> ('u, pyval) io \<Rightarrow> 'u block_body" where
  "setting_result broke m s =
     (case m (snd s) of
        (Ok v, w) \<Rightarrow> (Ok broke, snd (set_result v (fst s, w)))
      | (Raise e, w) \<Rightarrow> (Raise e, (fst s, w)))"

abbreviation body_of :: "('u, pyval) io \<Rightarrow> 'u block_body" where
  "body_of \<equiv> setting_result False"

abbreviation breaking_body_of :: "('u, pyval) io \<Rightarrow> 'u block_body" where
  "breaking_body_of \<equiv> setting_result True"

text \<open>What the block does with a final result.\<close>

definition block_end ::
    "'u world_scheme policy \<Rightarrow> result \<Rightarrow> block_iterator \<Rightarrow> 'u world_scheme
      \<Rightarrow> unit res \<times> block_iterator \<times> 'u world_scheme" where
  "block_end p r b w =
     (let b' = b\<lparr>bi_finished := True, bi_result := Some r\<rparr>
      in if rr_exhausted r
         then case finish_exhausted p r w of
                (Ok x, w') \<Rightarrow> (Ok (), (b'\<lparr>bi_outcome := Some x\<rparr>, w'))
              | (Raise e, w') \<Rightarrow> (Raise e, (b', w'))
         else case rr_error r of None \<Rightarrow> (Ok (), (b', w)) | Some e \<Rightarrow> (Raise e, (b', w)))"

lemma finish_turn_wait:
  "finish_turn q sleep (Wait plan) (f, w) =
    (case sleep plan w of (Ok _, w') \<Rightarrow> (Ok None, (f, w')) | (Raise e, w') \<Rightarrow> (Raise e, (f, w')))"
  by (auto simp: finish_turn_def py_bind_def in_world_def py_return_def split: prod.splits res.splits)

text \<open>The end of an attempt in a block and in the loop of the tracking copy.\<close>

definition turn_end ::
    "'u world_scheme policy \<Rightarrow> block_iterator \<Rightarrow> outcome option res \<times> flow \<times> 'u world_scheme
      \<Rightarrow> unit res \<times> block_iterator \<times> 'u world_scheme" where
  "turn_end p b x =
     (case x of
        (Raise e, (f, w)) \<Rightarrow> (Raise e, (b\<lparr>bi_flow := f\<rparr>, w))
      | (Ok None, (f, w)) \<Rightarrow> (Ok (), (b\<lparr>bi_flow := f\<rparr>, w))
      | (Ok (Some (Tracked r)), (f, w)) \<Rightarrow> block_end p r (b\<lparr>bi_flow := f\<rparr>) w
      | (Ok (Some (Plain v)), (f, w)) \<Rightarrow> (Ok (), (b\<lparr>bi_flow := f\<rparr>, w)))"

definition giving :: "'a \<Rightarrow> unit res \<times> 's \<Rightarrow> 'a res \<times> 's" where
  "giving y x = (case x of (Ok _, s) \<Rightarrow> (Ok y, s) | (Raise e, s) \<Rightarrow> (Raise e, s))"

lemma giving_simps [simp]: "giving y (Ok u, s) = (Ok y, s)" "giving y (Raise e, s) = (Raise e, s)"
  by (simp_all add: giving_def)

lemma giving_bind: "py_bind (\<lambda>s. giving y (m s)) g s = (case m s of (Ok _, t) \<Rightarrow> g y t | (Raise e, t) \<Rightarrow> (Raise e, t))"
  by (auto simp: giving_def py_bind_def split: prod.splits res.splits)

lemma context_exit_value:
  "py_bind (context_exit E p sleep c None) (\<lambda>_. py_return y) (b, w) =
    giving y (turn_end p b (py_bind (after_value E p (ac_value c) (ac_has_result c)) (finish_turn (tracking p) sleep)
      (bi_flow b, w)))"
proof -
  obtain r f w' where a: "after_value E p (ac_value c) (ac_has_result c) (bi_flow b, w) = (r, (f, w'))"
    by (metis prod.exhaust)
  show ?thesis
  proof (cases r)
    case (Ok d)
    show ?thesis
    proof (cases d)
      case (Wait plan)
      with a Ok show ?thesis
        by (auto simp: context_exit_def context_decide_def in_flow_def py_bind_def py_return_def
            in_block_world_def finish_turn_wait turn_end_def split: prod.splits res.splits)
    next
      case (Final kind r')
      with a Ok after_value_final have "final_ok kind r' \<and> kind \<noteq> Reject" by metis
      with a Ok Final show ?thesis
        by (cases kind) (auto simp: context_exit_def context_decide_def in_flow_def py_bind_def py_return_def
            block_finish_def finish_turn_tracking turn_end_def block_end_def final_ok_def Let_def
            split: prod.splits res.splits)
    qed
  qed (simp add: a context_exit_def context_decide_def in_flow_def py_bind_def turn_end_def)
qed

lemma context_exit_error:
  assumes e: "is_exception e"
  shows "py_bind (context_exit E p sleep c (Some e))
      (\<lambda>suppressed. if suppressed then py_return y else py_raise e) (b, w) =
    giving y (turn_end p b (py_bind (after_exception E p e) (finish_turn (tracking p) sleep) (bi_flow b, w)))"
proof -
  obtain r f w' where a: "after_exception E p e (bi_flow b, w) = (r, (f, w'))" by (metis prod.exhaust)
  show ?thesis
  proof (cases r)
    case (Ok d)
    show ?thesis
    proof (cases d)
      case (Wait plan)
      with a Ok e show ?thesis
        by (auto simp: context_exit_def context_decide_def in_flow_def py_bind_def py_return_def
            in_block_world_def finish_turn_wait turn_end_def split: prod.splits res.splits)
    next
      case (Final kind r')
      with a Ok after_exception_final
      have "final_ok kind r' \<and> kind \<noteq> Accept \<and> (kind = Reject \<longrightarrow> rr_error r' = Some e)" by metis
      with a Ok Final e show ?thesis
        by (cases kind) (auto simp: context_exit_def context_decide_def in_flow_def py_bind_def py_return_def
            py_raise_def block_finish_def finish_turn_tracking turn_end_def block_end_def final_ok_def Let_def
            split: prod.splits res.splits)
    qed
  qed (use e in \<open>simp add: a context_exit_def context_decide_def in_flow_def py_bind_def turn_end_def\<close>)
qed

text \<open>A round of the block against a turn of the loop.\<close>

abbreviation tracked_turn where
  "tracked_turn E p sleep m \<equiv>
     turn E (tracking p) (try_attempt m (after_exception E p) (\<lambda>v. after_value E p v True)) sleep"

lemma turn_end_flow [simp]: "turn_end p (b\<lparr>bi_flow := f\<rparr>) x = turn_end p b x"
  by (auto simp: turn_end_def block_end_def Let_def split: prod.splits res.splits option.splits outcome.splits)

lemma with_attempt_eq:
  "with_attempt E p sleep (body_of m) (b, w) =
    giving False (turn_end p b (py_bind (enter_attempt E (tracking p)) (\<lambda>_.
      py_bind (try_attempt m (after_exception E p) (\<lambda>v. after_value E p v True))
        (finish_turn (tracking p) sleep)) (bi_flow b, w)))"
proof -
  obtain r1 f1 w1 where e: "enter_attempt E p (bi_flow b, w) = (r1, (f1, w1))" by (metis prod.exhaust)
  let ?b = "b\<lparr>bi_flow := f1\<rparr>"
  let ?c = "\<lparr>ac_started_at = fw_attempt_started_at f1, ac_has_result = False, ac_value = VNone\<rparr>"
  show ?thesis
  proof (cases r1)
    case (Ok u)
    have ctx: "context_enter E p (b, w) = (Ok ?c, (?b, w1))"
      by (simp add: context_enter_def in_flow_def py_bind_def e Ok fio_eval py_return_def)
    obtain rm wm where m: "m w1 = (rm, wm)" by (metis prod.exhaust)
    show ?thesis
    proof (cases rm)
      case v: (Ok v)
      have "with_attempt E p sleep (body_of m) (b, w) =
          py_bind (context_exit E p sleep (?c\<lparr>ac_has_result := True, ac_value := v\<rparr>) None)
            (\<lambda>_. py_return False) (?b, wm)"
        by (simp add: with_attempt_def py_bind_def [of "context_enter E p"] ctx setting_result_def m v set_result_def)
      then show ?thesis
        by (simp add: context_exit_value py_bind_def [of "enter_attempt E p"] e Ok
            py_bind_def [of "try_attempt m g h" for g h] try_attempt_def in_world_def m v)
          (simp add: py_bind_def)
    next
      case x: (Raise x)
      show ?thesis
      proof (cases "is_exception x")
        case True
        have "with_attempt E p sleep (body_of m) (b, w) =
            py_bind (context_exit E p sleep ?c (Some x))
              (\<lambda>suppressed. if suppressed then py_return False else py_raise x) (?b, wm)"
          by (simp add: with_attempt_def py_bind_def [of "context_enter E p"] ctx setting_result_def m x)
        with True show ?thesis
          by (simp add: context_exit_error py_bind_def [of "enter_attempt E p"] e Ok
              py_bind_def [of "try_attempt m g h" for g h] try_attempt_def in_world_def m x)
            (simp add: py_bind_def)
      next
        case False
        then show ?thesis
          by (simp add: with_attempt_def py_bind_def ctx setting_result_def m x e Ok try_attempt_def in_world_def
              context_exit_def context_decide_def py_return_def py_raise_def turn_end_def)
      qed
    qed
  next
    case (Raise x)
    then show ?thesis
      by (simp add: with_attempt_def context_enter_def py_bind_def in_flow_def e turn_end_def)
  qed
qed

lemma block_turn_eq:
  assumes "\<not> bi_finished b"
  shows "block_turn E p sleep (body_of m) (b, w) = giving None (turn_end p b (tracked_turn E p sleep m (bi_flow b, w)))"
proof -
  let ?f = "(bi_flow b)\<lparr>fw_runtime := begin_attempt (fw_runtime (bi_flow b))\<rparr>"
  have next_eq: "next_attempt (bi_flow b, w) = (Ok (Suc (rn_attempt_number (fw_runtime (bi_flow b)))), (?f, w))"
    by (simp add: next_attempt_eq)
  let ?b = "b\<lparr>bi_flow := ?f\<rparr>"
  let ?t = "turn_end p b (tracked_turn E p sleep m (bi_flow b, w))"
  have "with_attempt E p sleep (body_of m) (?b, w) = giving False ?t"
    by (simp add: with_attempt_eq turn_def py_bind_def [of next_attempt] next_eq)
  moreover have "block_turn E p sleep (body_of m) (b, w) =
      py_bind (with_attempt E p sleep (body_of m)) (\<lambda>broke. py_return (if broke then Some () else None)) (?b, w)"
    using assms by (simp add: block_turn_def block_next_def in_flow_def next_eq)
  ultimately show ?thesis
    by (simp add: py_bind_def py_return_def giving_def split: prod.splits res.splits)
qed

section \<open>The loop of the block\<close>

text \<open>The end of the tracked loop, as the block ends on it.\<close>

definition loop_end ::
    "'u world_scheme policy \<Rightarrow> block_iterator \<Rightarrow> outcome res \<times> flow \<times> 'u world_scheme
      \<Rightarrow> unit res \<times> block_iterator \<times> 'u world_scheme" where
  "loop_end p b x =
     (case x of
        (Raise e, (f, w)) \<Rightarrow> (Raise e, (b\<lparr>bi_flow := f\<rparr>, w))
      | (Ok (Tracked r), (f, w)) \<Rightarrow> block_end p r (b\<lparr>bi_flow := f\<rparr>) w
      | (Ok (Plain v), (f, w)) \<Rightarrow> (Ok (), (b\<lparr>bi_flow := f\<rparr>, w)))"

lemma loop_end_flow [simp]: "loop_end p (b\<lparr>bi_flow := f\<rparr>) x = loop_end p b x"
  by (auto simp: loop_end_def block_end_def Let_def split: prod.splits res.splits option.splits outcome.splits)

lemma block_finished: "bi_finished b \<Longrightarrow> while_true (block_turn E p sleep body) (b, w) = Some (Ok (), (b, w))"
  by (subst while_true.simps) (simp add: block_turn_def block_next_def)

lemma block_end_finished: "block_end p r b w = (Ok u, (b', w')) \<Longrightarrow> bi_finished b'"
  by (auto simp: block_end_def Let_def split: prod.splits res.splits option.splits if_splits)

lemma tracked_turn_final:
  "tracked_turn E p sleep m s = (Ok (Some x), t) \<Longrightarrow> \<exists>r. x = Tracked r"
proof -
  assume "tracked_turn E p sleep m s = (Ok (Some x), t)"
  then obtain d s' where "finish_turn (tracking p) sleep d s' = (Ok (Some x), t)"
    by (auto simp: turn_def elim!: py_bind_OkD)
  then show ?thesis
    by (cases d) (auto simp: finish_turn_tracking, auto simp: finish_turn_def elim!: py_bind_OkD)
qed

lemma block_loop_forward:
  assumes "while_true st s = Some y" "st = tracked_turn E p sleep m" "\<not> bi_finished b" "bi_flow b = fst s"
  shows "while_true (block_turn E p sleep (body_of m)) (b, snd s) = Some (loop_end p b y)"
  using assms
proof (induction arbitrary: b rule: while_true.raw_induct [rotated, consumes 1, case_names step])
  case (step loop st s y)
  let ?T = "tracked_turn E p sleep m"
  obtain r f w where t: "?T s = (r, (f, w))" by (metis prod.exhaust)
  have round: "block_turn E p sleep (body_of m) (b, snd s) = giving None (turn_end p b (r, (f, w)))"
    using block_turn_eq [OF step.prems(2), of E p sleep m "snd s"] by (simp add: step.prems(3) t)
  show ?case
  proof (cases r)
    case (Ok x)
    show ?thesis
    proof (cases x)
      case None
      have "loop ?T (f, w) = Some y" using step.hyps step.prems(1) t Ok None by simp
      from step.IH [OF this [folded step.prems(1)] step.prems(1), of "b\<lparr>bi_flow := f\<rparr>"] step.prems(2)
      have "while_true (block_turn E p sleep (body_of m)) (b\<lparr>bi_flow := f\<rparr>, w) = Some (loop_end p b y)"
        by simp
      then show ?thesis by (subst while_true.simps) (simp add: round Ok None giving_def turn_end_def)
    next
      case (Some x')
      from t Ok Some obtain rr where x': "x' = Tracked rr" using tracked_turn_final by blast
      have y: "y = (Ok x', (f, w))" using step.hyps step.prems(1) t Ok Some by simp
      obtain r3 b3 w3 where e: "block_end p rr (b\<lparr>bi_flow := f\<rparr>) w = (r3, (b3, w3))" by (metis prod.exhaust)
      show ?thesis
        using block_finished [OF block_end_finished [of p rr "b\<lparr>bi_flow := f\<rparr>" w _ b3 w3]]
        by (subst while_true.simps, cases r3)
          (auto simp: round Ok Some x' y turn_end_def loop_end_def giving_def e)
    qed
  next
    case (Raise e)
    then have "y = (Raise e, (f, w))" using step.hyps step.prems(1) t by simp
    then show ?thesis
      by (subst while_true.simps) (simp add: round Raise turn_end_def giving_def loop_end_def)
  qed
qed

lemma block_loop_backward:
  assumes "while_true st s = Some y" "st = block_turn E p sleep (body_of m)" "\<not> bi_finished (fst s)"
  shows "\<exists>z. while_true (tracked_turn E p sleep m) (bi_flow (fst s), snd s) = Some z"
  using assms
proof (induction rule: while_true.raw_induct [rotated, consumes 1, case_names step])
  case (step loop st s y)
  let ?T = "tracked_turn E p sleep m"
  obtain r f w where t: "?T (bi_flow (fst s), snd s) = (r, (f, w))" by (metis prod.exhaust)
  have round: "block_turn E p sleep (body_of m) s = giving None (turn_end p (fst s) (r, (f, w)))"
    using block_turn_eq [OF step.prems(2), of E p sleep m "snd s"] by (simp add: t)
  show ?case
  proof (cases "r = Ok None")
    case True
    then have "loop st ((fst s)\<lparr>bi_flow := f\<rparr>, w) = Some y"
      using step.hyps step.prems(1) by (simp add: round giving_def turn_end_def)
    from step.IH [OF this step.prems(1)] step.prems(2) show ?thesis
      by (subst while_true.simps) (simp add: t True)
  next
    case False
    then show ?thesis
      by (subst while_true.simps, cases r) (auto simp: t split: option.splits)
  qed
qed

lemma block_loop:
  assumes "\<not> bi_finished b"
  shows "while_true (block_turn E p sleep (body_of m)) (b, w) =
    map_option (loop_end p b) (while_true (tracked_turn E p sleep m) (bi_flow b, w))"
proof (cases "while_true (tracked_turn E p sleep m) (bi_flow b, w)")
  case None
  with block_loop_backward [OF _ refl, of E p sleep m "(b, w)"] assms show ?thesis
    by (cases "while_true (block_turn E p sleep (body_of m)) (b, w)") auto
next
  case (Some y)
  from block_loop_forward [OF Some refl assms] Some show ?thesis by simp
qed

section \<open>Breaking out of a block\<close>

text \<open>
  A turn may end the loop early where the loop would go round once more only to end; the loops agree.
\<close>

definition ends_early :: "('s, 'a option) py \<Rightarrow> ('s, 'a option) py \<Rightarrow> 's \<Rightarrow> bool" where
  "ends_early st1 st2 s \<longleftrightarrow>
     st1 s = st2 s \<or> (\<exists>x t. st1 s = (Ok (Some x), t) \<and> st2 s = (Ok None, t) \<and> st2 t = (Ok (Some x), t))"

lemma early_end_forward:
  assumes "while_true st s = Some y" "st = st1" "\<And>s. ends_early st1 st2 s"
  shows "while_true st2 s = Some y"
  using assms(1,2)
proof (induction rule: while_true.raw_induct [rotated, consumes 1, case_names step])
  case (step loop st s y)
  from assms(3) [of s] show ?case
    unfolding ends_early_def
  proof (elim disjE exE conjE)
    assume "st1 s = st2 s"
    with step.hyps step.IH step.prems show ?thesis
      by (subst while_true.simps) (auto split: prod.splits res.splits option.splits)
  next
    fix x t assume "st1 s = (Ok (Some x), t)" "st2 s = (Ok None, t)" "st2 t = (Ok (Some x), t)"
    with step.hyps step.prems show ?thesis
      by (subst while_true.simps, simp, subst while_true.simps) simp
  qed
qed

lemma early_end_backward:
  assumes "while_true st s = Some y" "st = st2" "\<And>s. ends_early st1 st2 s"
  shows "while_true st1 s = Some y \<and> while_true st2 s = Some y"
  using assms(1,2)
proof (induction rule: while_true.raw_induct [rotated, consumes 1, case_names step])
  case (step loop st s y)
  from assms(3) [of s] show ?case
    unfolding ends_early_def
  proof (elim disjE exE conjE)
    assume "st1 s = st2 s"
    with step.hyps step.IH step.prems show ?thesis
      by (subst (1 2) while_true.simps) (auto split: prod.splits res.splits option.splits)
  next
    fix x t assume a: "st1 s = (Ok (Some x), t)" "st2 s = (Ok None, t)" "st2 t = (Ok (Some x), t)"
    with step.hyps step.prems have "loop st2 t = Some y" by simp
    with step.IH step.prems have two: "while_true st2 t = Some y" by blast
    with a(3) have "y = (Ok x, t)" by (simp add: while_true.simps [of st2 t])
    with a(1,2) two show ?thesis by (simp add: while_true.simps [of st1 s] while_true.simps [of st2 s])
  qed
qed

lemma early_end: "(\<And>s. ends_early st1 st2 s) \<Longrightarrow> while_true st1 s = while_true st2 s"
  using early_end_forward [OF _ refl, of st1 s _ st2] early_end_backward [OF _ refl, of st2 s _ st1]
  by (cases "while_true st1 s"; cases "while_true st2 s") fastforce+

lemma value_accepted:
  assumes "never True (should_retry_result (pol_condition p) v)" "after_value E p v h s = (Ok d, t)"
  shows "\<exists>r. d = Final Accept r"
proof -
  have "decide_value E p v h False e s' = (Ok d, t) \<Longrightarrow> ?thesis" for e s'
    by (auto simp: decide_value_def Let_def elim!: py_bind_OkD)
  moreover obtain b e s' s'' where "decide_value E p v h b e s' = (Ok d, t)"
    "(if h then in_world (should_retry_result (pol_condition p) v) else py_return False) s'' = (Ok b, s')"
    using assms(2) unfolding after_value_def by (elim py_bind_OkD)
  moreover have "(if h then in_world (should_retry_result (pol_condition p) v) else py_return False) s''
      \<noteq> (Ok True, s')" for s'' s'
    using assms(1) by (auto simp: never_def in_world_def split: prod.splits) (metis fst_conv)
  ultimately show ?thesis by (metis (full_types))
qed

lemma accepting_exit_finishes:
  assumes "never True (should_retry_result (pol_condition p) (ac_value c))"
    and "context_exit E p sleep c None s = (Ok x, t)"
  shows "bi_finished (fst t)"
  using assms(2) value_accepted [OF assms(1)]
  by (fastforce simp: context_exit_def context_decide_def in_flow_def block_finish_def Let_def
      elim!: py_bind_OkD split: prod.splits)

lemma with_attempt_break:
  assumes "\<And>v. never True (should_retry_result (pol_condition p) v)"
  shows "with_attempt E p sleep (breaking_body_of m) s = with_attempt E p sleep (body_of m) s
    \<or> (\<exists>t. with_attempt E p sleep (breaking_body_of m) s = (Ok True, t)
        \<and> with_attempt E p sleep (body_of m) s = (Ok False, t) \<and> bi_finished (fst t))"
proof -
  have exits: "py_bind (context_exit E p sleep c None) (\<lambda>_. py_return True) s'
        = py_bind (context_exit E p sleep c None) (\<lambda>_. py_return False) s'
      \<or> (\<exists>t. py_bind (context_exit E p sleep c None) (\<lambda>_. py_return True) s' = (Ok True, t)
        \<and> py_bind (context_exit E p sleep c None) (\<lambda>_. py_return False) s' = (Ok False, t)
        \<and> bi_finished (fst t))" for c s'
    using accepting_exit_finishes [where p = p and c = c and E = E and sleep = sleep and s = s', OF assms]
    by (auto simp: py_bind_def py_return_def split: prod.splits res.splits)
  obtain r b w where c: "context_enter E p s = (r, (b, w))" by (metis prod.exhaust)
  show ?thesis
    using exits
    by (auto simp: with_attempt_def py_bind_def [of "context_enter E p"] c setting_result_def
        split: prod.splits res.splits)
qed

lemma block_turn_break:
  assumes "\<And>v. never True (should_retry_result (pol_condition p) v)"
  shows "ends_early (block_turn E p sleep (breaking_body_of m)) (block_turn E p sleep (body_of m)) s"
proof -
  obtain r t where n: "block_next s = (r, t)" by (metis prod.exhaust)
  show ?thesis
  proof (cases r)
    case (Ok k)
    let ?g = "\<lambda>broke. py_return (if broke then Some () else None)"
    have turn: "block_turn E p sleep body s = py_bind (with_attempt E p sleep body) ?g t" for body
      by (simp add: block_turn_def n Ok)
    have over: "block_turn E p sleep body u = (Ok (Some ()), u)" if "bi_finished (fst u)" for body u
      using that by (simp add: block_turn_def block_next_def)
    from with_attempt_break [OF assms, of E sleep m t] show ?thesis
      unfolding ends_early_def turn
      by (elim disjE exE conjE) (simp_all add: py_bind_def py_return_def over)
  qed (simp add: ends_early_def block_turn_def n)
qed

text \<open>A \<open>break\<close> on a result that would be retried: the block waits for the retry, and then ends without it.\<close>

lemma break_abandons_retry:
  assumes "context_enter E p s = (Ok c, (b, w))" "m w = (Ok v, w1)"
    and "after_value E p v True (bi_flow b, w1) = (Ok (Wait plan), (f, w2))" "sleep plan w2 = (Ok (), w3)"
  shows "with_attempt E p sleep (breaking_body_of m) s = (Ok True, (b\<lparr>bi_flow := f\<rparr>, w3))"
  using assms by (simp add: with_attempt_def py_bind_def setting_result_def set_result_def context_exit_def
      context_decide_def in_flow_def in_block_world_def py_return_def)

section \<open>Properties\<close>

text \<open>The value a finished block stands for.\<close>

definition block_value :: "block_iterator \<Rightarrow> outcome" where
  "block_value b =
     (case bi_outcome b of
        Some x \<Rightarrow> x
      | None \<Rightarrow> Plain (case bi_result b of Some r \<Rightarrow> rr_value r | None \<Rightarrow> VNone))"

definition block_outcome :: "unit res \<times> block_iterator option \<times> 'w \<Rightarrow> outcome res \<times> 'w" where
  "block_outcome x =
     (case x of
        (Raise e, b, w) \<Rightarrow> (Raise e, w)
      | (Ok _, None, w) \<Rightarrow> (Ok (Plain VNone), w)
      | (Ok _, Some b, w) \<Rightarrow> (Ok (block_value b), w))"

text \<open>
  How an outcome of \<open>run\<close> shows in a block: a result object that \<open>return_result()\<close> gives is kept if the retries are
  exhausted, and stands otherwise for the value that was accepted or the exception that was rejected.
\<close>

definition as_block :: "outcome res \<times> 'w \<Rightarrow> outcome res \<times> 'w" where
  "as_block x =
     (case x of
        (Ok (Tracked r), w) \<Rightarrow>
          if rr_exhausted r then (Ok (Tracked r), w)
          else (case rr_error r of None \<Rightarrow> (Ok (Plain (rr_value r)), w) | Some e \<Rightarrow> (Raise e, w))
      | _ \<Rightarrow> x)"

lemma finish_exhausted_plain:
  "\<not> pol_return_result p \<Longrightarrow> finish_exhausted p r w = (Ok x, w') \<Longrightarrow> \<exists>v. x = Plain v"
  by (auto simp: finish_exhausted_def py_return_def py_raise_def elim!: py_bind_OkD split: option.splits if_splits)

lemma run_block_as:
  "map_option block_outcome (run_block E p sleep name (body_of m) w) =
    (case flow_init E p name w of
       (Raise e, w') \<Rightarrow> Some (Raise e, w')
     | (Ok f, w') \<Rightarrow> map_option as_block
         (drop_flow (resolve_end (resolve_outcome p) (while_true (tracked_turn E p sleep m) (f, w')))))"
proof -
  obtain f w' where i: "flow_init E p name w = (Ok f, w')" by (simp add: flow_init_eq)
  let ?b = "\<lparr>bi_flow = f, bi_finished = False, bi_result = None, bi_outcome = None\<rparr>"
  have b: "block_init E p name w = (Ok ?b, w')"
    by (simp add: block_init_def py_bind_def i py_return_def)
  show ?thesis
  proof (cases "while_true (tracked_turn E p sleep m) (f, w')")
    case None
    then show ?thesis
      by (simp add: run_block_def i b block_loop drop_flow_def resolve_end_def)
  next
    case (Some y)
    obtain r g v where y: "y = (r, (g, v))" by (metis prod.exhaust)
    have tracked: "\<exists>rr. x = Tracked rr" if "r = Ok x" for x
      using while_true_result [where P = "\<lambda>x. \<exists>rr. x = Tracked rr"] tracked_turn_final Some y that by metis
    show ?thesis
    proof (cases r)
      case (Ok x)
      with tracked obtain rr where x: "x = Tracked rr" by blast
      note simps = run_block_def i b block_loop Some y Ok x drop_flow_def resolve_end_def loop_end_def
        block_end_def resolve_outcome_def resolve_tracked_def resolve_tracked_result_def in_world_def
        block_outcome_def block_value_def py_raise_def py_return_def Let_def as_block_def
      show ?thesis
      proof (cases "pol_return_result p")
        case True
        then have "finish_exhausted p rr v = (Ok (Tracked rr), v)" by (simp add: finish_exhausted_def py_return_def)
        with True show ?thesis by (simp add: simps split: option.splits)
      next
        case False
        with finish_exhausted_plain [OF False, of rr v] show ?thesis
          by (auto simp: simps split: prod.splits res.splits option.splits outcome.splits)
      qed
    next
      case (Raise e)
      then show ?thesis
        by (simp add: run_block_def i b block_loop Some y drop_flow_def resolve_end_def loop_end_def
            block_outcome_def as_block_def)
    qed
  qed
qed

lemma run_block_eq:
  assumes "\<not> pol_return_result p"
  shows "map_option block_outcome (run_block E p sleep name (body_of m) w) =
    (case flow_init E p name w of
       (Raise e, w') \<Rightarrow> Some (Raise e, w')
     | (Ok f, w') \<Rightarrow>
         drop_flow (resolve_end (resolve_outcome p) (while_true (tracked_turn E p sleep m) (f, w'))))"
proof -
  obtain f w' where i: "flow_init E p name w = (Ok f, w')" by (simp add: flow_init_eq)
  let ?b = "\<lparr>bi_flow = f, bi_finished = False, bi_result = None, bi_outcome = None\<rparr>"
  have b: "block_init E p name w = (Ok ?b, w')"
    by (simp add: block_init_def py_bind_def i py_return_def)
  show ?thesis
  proof (cases "while_true (tracked_turn E p sleep m) (f, w')")
    case None
    then show ?thesis
      by (simp add: run_block_def i b block_loop drop_flow_def resolve_end_def)
  next
    case (Some y)
    obtain r g v where y: "y = (r, (g, v))" by (metis prod.exhaust)
    have tracked: "\<exists>rr. x = Tracked rr" if "r = Ok x" for x
      using while_true_result [where P = "\<lambda>x. \<exists>rr. x = Tracked rr"] tracked_turn_final Some y that by metis
    show ?thesis
    proof (cases r)
      case (Ok x)
      with tracked obtain rr where x: "x = Tracked rr" by blast
      from assms show ?thesis
        by (auto simp: run_block_def i b block_loop Some y Ok x drop_flow_def resolve_end_def loop_end_def
            block_end_def resolve_outcome_def resolve_tracked_def resolve_tracked_result_def in_world_def
            block_outcome_def block_value_def py_raise_def py_return_def Let_def
            split: prod.splits res.splits option.splits)
    next
      case (Raise e)
      then show ?thesis
        by (simp add: run_block_def i b block_loop Some y drop_flow_def resolve_end_def loop_end_def
            block_outcome_def)
    qed
  qed
qed

lemma async_turn_await:
  "async_step E p (\<lambda>w. (Ok (Awaitable m), w)) =
    turn E p (try_attempt m (after_exception E p) (\<lambda>v. after_value E p v True)) (async_sleep_before_retry E p)"
proof -
  have "try_attempt (\<lambda>w. (Ok (Awaitable m), w)) (after_exception E p) (\<lambda>candidate.
        py_bind (py_lift (ensure_awaitable_result candidate)) (\<lambda>awaitable.
          try_attempt awaitable (after_exception E p) (\<lambda>v. after_value E p v True)))
      = try_attempt m (after_exception E p) (\<lambda>v. after_value E p v True)"
    by (simp add: fun_eq_iff try_attempt_def in_world_def py_bind_def py_lift_def)
  then show ?thesis by (simp add: async_step_turn)
qed

lemma run_block_break:
  assumes "broke \<Longrightarrow> \<forall>v. never True (should_retry_result (pol_condition p) v)"
  shows "run_block E p sleep name (setting_result broke m) w = run_block E p sleep name (body_of m) w"
proof (cases broke)
  case True
  have "while_true (block_turn E p sleep (breaking_body_of m)) s = while_true (block_turn E p sleep (body_of m)) s" for s
    by (rule early_end, rule block_turn_break) (use assms True in blast)
  with True show ?thesis by (simp add: run_block_def split: prod.splits res.splits)
qed simp

lemma block_runs:
  assumes "broke \<Longrightarrow> \<forall>v. never True (should_retry_result (pol_condition p) v)"
  shows "map_option block_outcome (sync_block E p name (setting_result broke m) w)
      = map_option as_block (execute_sync E p name m w)"
    and "map_option block_outcome (async_block E p name (setting_result broke m) w)
      = map_option as_block (execute_async E p name (\<lambda>w. (Ok (Awaitable m), w)) w)"
    and "\<not> pol_return_result p \<Longrightarrow> map_option as_block (execute_sync E p name m w) = execute_sync E p name m w"
    and "\<not> pol_return_result p \<Longrightarrow> map_option as_block (execute_async E p name (\<lambda>w. (Ok (Awaitable m), w)) w)
      = execute_async E p name (\<lambda>w. (Ok (Awaitable m), w)) w"
proof -
  have break: "run_block E p sleep name (setting_result broke m) w = run_block E p sleep name (body_of m) w" for sleep
    by (rule run_block_break) (rule assms)
  have same: "after_exception E (tracking p) = after_exception E p" by (rule ext) simp
  have sync: "execute_sync E p name m w = (case flow_init E p name w of (Raise e, w') \<Rightarrow> Some (Raise e, w')
      | (Ok f, w') \<Rightarrow> drop_flow (resolve_end (resolve_outcome p)
          (while_true (tracked_turn E p (sleep_before_retry E p) m) (f, w'))))"
    by (simp add: execute_sync_def flow_init_eq sync_step_resolve [of E p] while_true_resolve
        sync_step_turn [of E "tracking p"] same)
  have "async_step E (tracking p) (\<lambda>w. (Ok (Awaitable m), w)) =
      tracked_turn E p (async_sleep_before_retry E p) m"
    by (simp add: async_turn_await same)
  then have async: "execute_async E p name (\<lambda>w. (Ok (Awaitable m), w)) w
      = (case flow_init E p name w of (Raise e, w') \<Rightarrow> Some (Raise e, w')
      | (Ok f, w') \<Rightarrow> drop_flow (resolve_end (resolve_outcome p)
          (while_true (tracked_turn E p (async_sleep_before_retry E p) m) (f, w'))))"
    by (simp add: execute_async_def flow_init_eq async_step_resolve [of E p] while_true_resolve
        tracking_fields)
  show "map_option block_outcome (sync_block E p name (setting_result broke m) w)
      = map_option as_block (execute_sync E p name m w)"
    unfolding sync_block_def break run_block_as sync by (simp add: flow_init_eq)
  show "map_option block_outcome (async_block E p name (setting_result broke m) w)
      = map_option as_block (execute_async E p name (\<lambda>w. (Ok (Awaitable m), w)) w)"
    unfolding async_block_def break run_block_as async by (simp add: flow_init_eq)
  assume r: "\<not> pol_return_result p"
  show "map_option as_block (execute_sync E p name m w) = execute_sync E p name m w"
    using run_block_as [of E p "sleep_before_retry E p" name m w] unfolding run_block_eq [OF r] sync
    by (simp add: flow_init_eq)
  show "map_option as_block (execute_async E p name (\<lambda>w. (Ok (Awaitable m), w)) w)
      = execute_async E p name (\<lambda>w. (Ok (Awaitable m), w)) w"
    using run_block_as [of E p "async_sleep_before_retry E p" name m w] unfolding run_block_eq [OF r] async
    by (simp add: flow_init_eq)
qed

text \<open>
  C25: a retry block whose body sets the value of a function as its result does what \<open>run\<close> does with
  that function: it ends with the same value or the same exception, after the same effects, or neither
  ends. The asynchronous block does what \<open>run_async\<close> does. With \<open>return_result()\<close> the result object that \<open>run\<close> returns is that
  of the block when the retries are exhausted; otherwise the block ends with the value that was accepted, or raises the exception that was
  rejected. The body may also break out of the loop after it has set its result, provided that the policy retries no
  results.
\<close>

theorem block_equivalent_run:
  assumes "broke \<Longrightarrow> \<forall>v. never True (should_retry_result (pol_condition p) v)"
  shows "map_option block_outcome (sync_block E p name (setting_result broke m) w)
      = map_option as_block (execute_sync E p name m w)
    \<and> map_option block_outcome (async_block E p name (setting_result broke m) w)
      = map_option as_block (execute_async E p name (\<lambda>w. (Ok (Awaitable m), w)) w)
    \<and> (\<not> pol_return_result p \<longrightarrow>
        map_option block_outcome (sync_block E p name (setting_result broke m) w) = execute_sync E p name m w
        \<and> map_option block_outcome (async_block E p name (setting_result broke m) w)
          = execute_async E p name (\<lambda>w. (Ok (Awaitable m), w)) w)"
  using block_runs [OF assms] by simp

theorem block_equivalent_run_witness:
  "map_option block_outcome
      (sync_block ex_env default_policy ''block'' (breaking_body_of (py_return (VInt 7))) ex_world)
    = execute_sync ex_env default_policy ''block'' (py_return (VInt 7)) ex_world"
proof -
  have "never True (should_retry_result (pol_condition (default_policy :: world policy)) v)" for v
    by (simp add: default_policy_def never_def py_return_def)
  moreover have "\<not> pol_return_result (default_policy :: world policy)" by (simp add: default_policy_def)
  ultimately show ?thesis
    using block_equivalent_run [of True "default_policy :: world policy" ex_env "''block''" "py_return (VInt 7)" ex_world]
    by blast
qed

end
