(* ===== verification/Decorator.thy ===== *)
theory Decorator
  imports Main Outcomes
begin

text \<open>
  \<open>internal/decorator.py\<close> and the \<open>retry\<close> decorator of \<open>retry.py\<close>: a decorated function runs the
  tracking copy of its policy, records the result in its statistics, and only then resolves the
  result the way the policy says. The statistics are a component of the state of their own, since only
  the wrapper writes them.
\<close>

section \<open>\<open>make_decorated\<close>\<close>

record 's decorated =
  dc_policy :: "'s policy"
  dc_tracking :: "'s policy"
  dc_stats :: stats
  dc_async :: bool

definition make_decorated :: "'s policy \<Rightarrow> shape \<Rightarrow> 's decorated res" where
  "make_decorated p function =
     res_bind (ensure_retryable_callable function) (\<lambda>_.
     res_bind (return_result p) (\<lambda>tracking_policy.
       Ok \<lparr>dc_policy = p, dc_tracking = tracking_policy, dc_stats = stats_init,
           dc_async = is_async_callable function\<rparr>))"

text \<open>\<open>stats.record\<close> reads attributes that only a \<open>RetryResult\<close> has.\<close>

definition AttributeError_t :: exc_type where
  "AttributeError_t = ExcType ''builtins'' ''AttributeError'' [Exception_t]"

text \<open>The two statements after the run: record, then resolve.\<close>

definition record_and_resolve ::
    "'s decorated \<Rightarrow> (outcome res \<times> 's) option \<Rightarrow> (outcome res \<times> 's decorated \<times> 's) option" where
  "record_and_resolve d finished =
     (case finished of
        None \<Rightarrow> None
      | Some (Raise e, w) \<Rightarrow> Some (Raise e, d, w)
      | Some (Ok (Plain v), w) \<Rightarrow> Some (Raise (new_exn AttributeError_t (type_name v)), d, w)
      | Some (Ok (Tracked r), w) \<Rightarrow>
          (case resolve_tracked_result (dc_policy d) r w of
             (x, w') \<Rightarrow> Some (x, d\<lparr>dc_stats := stats_record r (dc_stats d)\<rparr>, w')))"

definition sync_wrapper ::
    "'u pyenv \<Rightarrow> string \<Rightarrow> ('u, pyval) io pyfun \<Rightarrow> 'u world_scheme decorated \<Rightarrow> 'u world_scheme
      \<Rightarrow> (outcome res \<times> 'u world_scheme decorated \<times> 'u world_scheme) option" where
  "sync_wrapper E name function d w =
     record_and_resolve d (run E (dc_tracking d) name function w)"

definition async_wrapper ::
    "'u pyenv \<Rightarrow> string \<Rightarrow> ('u, 'u world_scheme called) io pyfun \<Rightarrow> 'u world_scheme decorated
      \<Rightarrow> 'u world_scheme \<Rightarrow> (outcome res \<times> 'u world_scheme decorated \<times> 'u world_scheme) option" where
  "async_wrapper E name function d w =
     record_and_resolve d (run_async E (dc_tracking d) name function w)"

text \<open>\<open>retry(attempts=..., delay=..., on=..., return_result=...)\<close>: the policy it builds.\<close>

definition retry_policy_of :: "pyval \<Rightarrow> pyval \<Rightarrow> pyval list \<Rightarrow> bool \<Rightarrow> 's policy res" where
  "retry_policy_of max_attempts delay_seconds types as_result =
     res_bind (attempts max_attempts default_policy) (\<lambda>p.
     res_bind (fixed_delay delay_seconds p) (\<lambda>p.
     res_bind (on types p) (\<lambda>p. if as_result then return_result p else Ok p)))"

section \<open>A decorated call is a run\<close>

lemma record_and_resolve_run:
  assumes "\<And>x t. finished = Some (Ok x, t) \<Longrightarrow> \<exists>r. x = Tracked r"
  shows "map_option (\<lambda>(x, d', w'). (x, w')) (record_and_resolve d finished) =
    resolve_end (resolve_tracked (dc_policy d)) finished"
proof (cases finished)
  case (Some y)
  obtain x t where y: "y = (x, t)" by (metis prod.exhaust)
  show ?thesis
  proof (cases x)
    case (Ok o')
    with assms Some y obtain r where "o' = Tracked r" by blast
    with Some y Ok show ?thesis
      by (simp add: record_and_resolve_def resolve_end_def resolve_tracked_def split: prod.splits)
  qed (simp add: Some y record_and_resolve_def resolve_end_def)
qed (simp add: record_and_resolve_def resolve_end_def)

lemma drop_flow_resolve:
  "drop_flow (resolve_end (resolve_outcome p) x) =
    resolve_end (resolve_tracked p)
      (drop_flow x)"
  by (auto simp: drop_flow_def resolve_end_def resolve_outcome_def in_world_def py_return_def
      split: option.splits res.splits outcome.splits prod.splits)

lemma execute_sync_tracking:
  "execute_sync E p name fn w =
    resolve_end (resolve_tracked p)
      (execute_sync E (tracking p) name fn w)"
  by (simp add: execute_sync_def flow_init_eq [of E p] tracking_fields
      sync_step_resolve [of E p] while_true_resolve drop_flow_resolve)

lemma execute_async_tracking:
  "execute_async E p name fn w =
    resolve_end (resolve_tracked p)
      (execute_async E (tracking p) name fn w)"
  by (simp add: execute_async_def flow_init_eq [of E p] tracking_fields
      async_step_resolve [of E p] while_true_resolve drop_flow_resolve)

lemma drop_flow_Some: "drop_flow x = Some (r, w) \<longleftrightarrow> (\<exists>f. x = Some (r, (f, w)))"
  by (auto simp: drop_flow_def)

lemma execute_tracking_result:
  "execute_sync E (tracking p) name fn w = Some (Ok x, t) \<Longrightarrow> \<exists>r. x = Tracked r"
  "execute_async E (tracking p) name afn w = Some (Ok x, t) \<Longrightarrow> \<exists>r. x = Tracked r"
proof -
  show "\<exists>r. x = Tracked r" if e: "execute_sync E (tracking p) name fn w = Some (Ok x, t)"
  proof -
    have "decides_ok (try_attempt fn (after_exception E (tracking p)) (\<lambda>v. after_value E (tracking p) v True))"
      by (intro decides_ok_rules)
    from tracked_loop_result [OF this] e show ?thesis
      unfolding execute_sync_def flow_init_eq sync_step_turn by (auto simp: drop_flow_Some)
  qed
  show "\<exists>r. x = Tracked r" if e: "execute_async E (tracking p) name afn w = Some (Ok x, t)"
  proof -
    have "decides_ok (try_attempt afn (after_exception E (tracking p)) (\<lambda>candidate.
        py_bind (py_lift (ensure_awaitable_result candidate)) (\<lambda>awaitable.
          try_attempt awaitable (after_exception E (tracking p)) (\<lambda>v. after_value E (tracking p) v True))))"
      by (intro decides_ok_rules)
    from tracked_loop_result [OF this] e show ?thesis
      unfolding execute_async_def flow_init_eq async_step_turn by (auto simp: drop_flow_Some)
  qed
qed

lemma make_decorated_tracking: "make_decorated p s = Ok d \<Longrightarrow> dc_tracking d = tracking p \<and> dc_policy d = p"
  by (auto simp: make_decorated_def res_bind_Ok_iff dest: return_result_tracking)

lemma sync_wrapper_run:
  assumes "dc_tracking d = tracking (dc_policy d)"
  shows "map_option (\<lambda>(x, d', w'). (x, w')) (sync_wrapper E name f d w) = run E (dc_policy d) name f w"
proof -
  have "map_option (\<lambda>(x, d', w'). (x, w')) (sync_wrapper E name f d w) =
      resolve_end (resolve_tracked (dc_policy d)) (run E (dc_tracking d) name f w)"
    unfolding sync_wrapper_def
    by (rule record_and_resolve_run)
      (auto simp: run_def assms dest: execute_tracking_result split: res.splits)
  also have "\<dots> = run E (dc_policy d) name f w"
    by (cases "ensure_sync_retryable_callable (pf_shape f)")
      (simp_all add: run_def assms execute_sync_tracking [of E "dc_policy d"], simp add: resolve_end_def)
  finally show ?thesis .
qed

lemma async_wrapper_run:
  assumes "dc_tracking d = tracking (dc_policy d)"
  shows "map_option (\<lambda>(x, d', w'). (x, w')) (async_wrapper E name f d w) = run_async E (dc_policy d) name f w"
proof -
  have "map_option (\<lambda>(x, d', w'). (x, w')) (async_wrapper E name f d w) =
      resolve_end (resolve_tracked (dc_policy d)) (run_async E (dc_tracking d) name f w)"
    unfolding async_wrapper_def
    by (rule record_and_resolve_run)
      (auto simp: run_async_def assms dest: execute_tracking_result split: res.splits)
  also have "\<dots> = run_async E (dc_policy d) name f w"
    by (cases "ensure_retryable_callable (pf_shape f)")
      (simp_all add: run_async_def assms execute_async_tracking [of E "dc_policy d"], simp add: resolve_end_def)
  finally show ?thesis .
qed

text \<open>
  One call of a decorated function, given how the run of the tracking copy ended: the result of that run is
  recorded, whatever resolving it then does, and a run that raised records nothing.
\<close>

definition counted_call ::
    "'s policy \<Rightarrow> (outcome res \<times> 's) option \<Rightarrow> 's decorated \<Rightarrow> outcome res \<Rightarrow> 's decorated \<Rightarrow> 's \<Rightarrow> bool" where
  "counted_call p tracked d x d' w' \<longleftrightarrow>
     (\<exists>r w1. tracked = Some (Ok (Tracked r), w1) \<and> d' = d\<lparr>dc_stats := stats_record r (dc_stats d)\<rparr>
        \<and> resolve_tracked_result p r w1 = (x, w'))
     \<or> (\<exists>e. tracked = Some (Raise e, w') \<and> d' = d \<and> x = Raise e)"

lemma record_and_resolve_counted:
  assumes "record_and_resolve d finished = Some (x, d', w')"
    and "\<And>y t. finished = Some (Ok y, t) \<Longrightarrow> \<exists>r. y = Tracked r"
  shows "counted_call (dc_policy d) finished d x d' w'"
proof (cases finished)
  case (Some z)
  obtain y t where z: "z = (y, t)" by (metis prod.exhaust)
  show ?thesis
  proof (cases y)
    case (Ok outcome)
    with assms(2) Some z obtain r where "outcome = Tracked r" by blast
    with assms(1) Some z Ok show ?thesis
      by (auto simp: record_and_resolve_def counted_call_def split: prod.splits)
  qed (use assms(1) Some z in \<open>auto simp: record_and_resolve_def counted_call_def\<close>)
qed (use assms(1) in \<open>simp add: record_and_resolve_def\<close>)

lemma wrapper_counted:
  assumes "dc_tracking d = tracking (dc_policy d)"
  shows "sync_wrapper E name f d w = Some (x, d', w') \<Longrightarrow>
      counted_call (dc_policy d) (run E (tracking (dc_policy d)) name f w) d x d' w'"
    and "async_wrapper E name af d w = Some (x, d', w') \<Longrightarrow>
      counted_call (dc_policy d) (run_async E (tracking (dc_policy d)) name af w) d x d' w'"
  unfolding sync_wrapper_def async_wrapper_def assms
  by (erule record_and_resolve_counted,
      auto simp: run_def run_async_def dest: execute_tracking_result split: res.splits)+

section \<open>Properties\<close>

text \<open>
  C24: a decorated function behaves like \<open>policy.run\<close> (or \<open>run_async\<close>) of the policy it was decorated
  with: the same value, result object or exception, after the same effects, or neither returns. And its statistics
  count what happened: when the run of the tracking copy of the policy ends with a result, exactly that result is recorded, once,
  before the policy makes a value or an exception of it; when that run raises, nothing is recorded. Both hold of both
  wrappers.
\<close>

theorem decorated_equivalent_run:
  assumes "make_decorated p shape = Ok d0" and "dc_policy d = dc_policy d0" "dc_tracking d = dc_tracking d0"
  shows "map_option (\<lambda>(x, d', w'). (x, w')) (sync_wrapper E name f d w) = run E p name f w
    \<and> map_option (\<lambda>(x, d', w'). (x, w')) (async_wrapper E name af d w) = run_async E p name af w
    \<and> (\<forall>x d' w'. sync_wrapper E name f d w = Some (x, d', w') \<longrightarrow>
        counted_call p (run E (tracking p) name f w) d x d' w')
    \<and> (\<forall>x d' w'. async_wrapper E name af d w = Some (x, d', w') \<longrightarrow>
        counted_call p (run_async E (tracking p) name af w) d x d' w')"
proof -
  have t: "dc_tracking d = tracking (dc_policy d)" and p: "dc_policy d = p"
    using assms make_decorated_tracking by metis+
  show ?thesis
    using sync_wrapper_run [OF t, of E name f w] async_wrapper_run [OF t, of E name af w]
      wrapper_counted(1) [OF t, of E name f w] wrapper_counted(2) [OF t, of E name af w] unfolding p by blast
qed

text \<open>A decorated function that returns seven at once.\<close>

theorem decorated_equivalent_run_witness:
  "\<exists>d x d' w'. make_decorated default_policy (Function PlainFunction) = Ok d
    \<and> sync_wrapper ex_env ''f'' (PyFun (Function PlainFunction) (py_return (VInt 7))) d ex_world = Some (x, d', w')
    \<and> run ex_env default_policy ''f'' (PyFun (Function PlainFunction) (py_return (VInt 7))) ex_world = Some (x, w')
    \<and> counted_call default_policy
        (run ex_env (tracking default_policy) ''f'' (PyFun (Function PlainFunction) (py_return (VInt 7))) ex_world) d x d' w'"
proof -
  obtain d where d: "make_decorated (default_policy :: unit world_scheme policy) (Function PlainFunction) = Ok d"
    by (simp add: make_decorated_def callable_defs Let_def default_policy_def return_result_def
        replace_exhaustion_def post_init_def explicit_behaviors_def check_sleepers_def)
  let ?f = "PyFun (Function PlainFunction) (py_return (VInt 7)) :: (unit, pyval) io pyfun"
  obtain x w' where run: "run ex_env default_policy ''f'' ?f ex_world = Some (x, w')"
  proof -
    let ?g = "\<lparr>fw_runtime = runtime_init ''f'' (env_clock (ex_env :: unit pyenv) (w_reads ex_world)) (pol_history_limit (default_policy :: world policy))
        (pol_name (default_policy :: world policy)), fw_attempt_started_at = env_clock (ex_env :: unit pyenv) (w_reads ex_world)\<rparr>"
    have n: "known_attempt_limit (pol_stop (default_policy :: world policy)) = Some 3" by (simp add: default_policy_def)
    have "rn_attempt_number (fw_runtime ?g) = 0" by (simp add: runtime_init_def)
    with sync.bounded [OF n, of ex_env "py_return (VInt 7)" ?g "ex_world\<lparr>w_reads := w_reads ex_world + 1\<rparr>"] that
    show thesis by (fastforce simp: run_def callable_defs execute_sync_def flow_init_eq drop_flow_def)
  qed
  note same = decorated_equivalent_run [OF d refl refl, of ex_env "''f''" ?f ex_world
      "PyFun (Function PlainFunction) (py_return (NotAwaitable VNone))"]
  obtain d' where d': "sync_wrapper ex_env ''f'' ?f d ex_world = Some (x, d', w')"
    using conjunct1 [OF same] run by (auto simp: map_option_eq_Some)
  have "counted_call default_policy (run ex_env (tracking default_policy) ''f'' ?f ex_world) d x d' w'"
    using same d' by blast
  with d run d' show ?thesis by blast
qed

end
