(* ===== verification/Simulation.thy ===== *)
theory Simulation
  imports Main Policy
begin

text \<open>
  \<open>diagnostics.py\<close> and the simulating half of \<open>internal/policy_simulation.py\<close>: the simulated delay
  timeline, its reports, and the worst-case load estimate. A simulation runs the policy's stop and delay
  strategies, so it is a computation on the world; a delay tree with user callbacks is refused.
\<close>

section \<open>Walking a tree of delays\<close>

text \<open>
  The loop \<open>while stack: current = stack.pop()\<close> that several analyses share: it ends at the first node
  that passes the test, and otherwise goes into sums.
\<close>

function stack_any :: "('s delay \<Rightarrow> bool) \<Rightarrow> 's delay list \<Rightarrow> bool" where
  "stack_any test stack =
     (if stack = [] then False
      else let current = last stack; rest = butlast stack
           in if test current then True
              else case additive_parts current of
                     Some ds \<Rightarrow> stack_any test (rest @ ds)
                   | None \<Rightarrow> stack_any test rest)"
  by pat_completeness auto
termination
proof (relation "measure (\<lambda>(test, stack). sum_list (map delay_weight stack))")
  show "wf (measure (\<lambda>(test, stack). sum_list (map delay_weight stack)))" by simp
next
  fix test :: "'s delay \<Rightarrow> bool" and stack rest :: "'s delay list" and current ds
  assume "stack \<noteq> []" "current = last stack" "rest = butlast stack" "additive_parts current = Some ds"
  then have "stack = rest @ [current]" "delay_weight current = 2 + sum_list (map delay_weight ds)"
    by (simp_all add: additive_parts_weight del: additive_parts_Some)
  then show "((test, rest @ ds), (test, stack)) \<in> measure (\<lambda>(test, stack). sum_list (map delay_weight stack))"
    by simp
next
  fix test :: "'s delay \<Rightarrow> bool" and stack rest :: "'s delay list" and current
  assume "stack \<noteq> []" "current = last stack" "rest = butlast stack"
  then have "stack = rest @ [current]" by simp
  then show "((test, rest), (test, stack)) \<in> measure (\<lambda>(test, stack). sum_list (map delay_weight stack))"
    using delay_weight_pos [of current] by simp
qed

declare stack_any.simps [simp del]

text \<open>\<open>_has_user_callback\<close>\<close>

definition is_callback_delay :: "'s delay \<Rightarrow> bool" where
  "is_callback_delay d = (case d of CustomDelay _ \<Rightarrow> True | StatefulCustomDelay _ \<Rightarrow> True | _ \<Rightarrow> False)"

definition has_user_callback :: "'s delay \<Rightarrow> bool" where
  "has_user_callback strategy = stack_any is_callback_delay [strategy]"

section \<open>Simulation\<close>

record simulation_attempt =
  sa_attempt_number :: nat
  sa_delay :: flt
  sa_stops :: bool
  sa_cumulative :: flt

definition simulation_callback_error :: exn where
  "simulation_callback_error =
     config_error ''Simulation is not supported for policies with custom delay callbacks''"

definition safe_next_delay :: "'u pyenv \<Rightarrow> 'u world_scheme policy \<Rightarrow> nat \<Rightarrow> ('u, flt) io" where
  "safe_next_delay E p attempt_number =
     (if has_user_callback (pol_delay p) then py_raise simulation_callback_error
      else py_bind (next_delay E (pol_delay p) (int attempt_number)) (\<lambda>raw_delay.
        py_lift (ensure_resolved_delay raw_delay)))"

text \<open>The body of the loop: the delay after an attempt, and whether the simulation stops there.\<close>

definition simulate_attempt ::
    "'u pyenv \<Rightarrow> 'u world_scheme policy \<Rightarrow> nat \<Rightarrow> flt \<Rightarrow> ('u, flt \<times> bool) io" where
  "simulate_attempt E p attempt_number elapsed =
     py_bind (should_stop (pol_stop p) (int attempt_number) elapsed) (\<lambda>stop_now.
       if stop_now then py_return (0, True)
       else py_bind (safe_next_delay E p attempt_number) (\<lambda>delay.
            py_bind (should_stop (pol_stop p) (int attempt_number) (fl_add elapsed delay)) (\<lambda>stop_then.
              py_return (if stop_then then (0, True) else (delay, False)))))"

text \<open>\<open>for attempt_number in range(...)\<close>, with the attempts that are left.\<close>

fun simulate_loop ::
    "'u pyenv \<Rightarrow> 'u world_scheme policy \<Rightarrow> nat \<Rightarrow> nat \<Rightarrow> flt \<Rightarrow> flt
      \<Rightarrow> ('u, simulation_attempt list) io" where
  "simulate_loop E p attempt_number 0 elapsed cumulative = py_return []"
| "simulate_loop E p attempt_number (Suc left) elapsed cumulative =
     py_bind (simulate_attempt E p attempt_number elapsed) (\<lambda>(delay, stop_now).
       let cumulative' = fl_add cumulative delay;
           attempt = \<lparr>sa_attempt_number = attempt_number, sa_delay = delay, sa_stops = stop_now,
                      sa_cumulative = cumulative'\<rparr>
       in if stop_now then py_return [attempt]
          else py_bind (simulate_loop E p (attempt_number + 1) left (fl_add elapsed delay) cumulative')
                 (\<lambda>later. py_return (attempt # later)))"

definition simulate_policy ::
    "'u pyenv \<Rightarrow> 'u world_scheme policy \<Rightarrow> pyval \<Rightarrow> ('u, simulation_attempt list) io" where
  "simulate_policy E p max_attempts =
     py_bind (py_lift (ensure_positive_int ''attempts'' max_attempts)) (\<lambda>_.
       simulate_loop E p 1 (nat (int_of max_attempts)) 0 0)"

text \<open>The properties of \<open>RetrySimulation\<close>.\<close>

definition simulation_attempt_count :: "simulation_attempt list \<Rightarrow> nat" where
  "simulation_attempt_count s = length s"

definition simulation_total_sleep :: "'u pyenv \<Rightarrow> simulation_attempt list \<Rightarrow> flt" where
  "simulation_total_sleep E s = env_sum E (map sa_delay s)"

definition simulation_max_delay :: "simulation_attempt list \<Rightarrow> flt" where
  "simulation_max_delay s =
     (case map sa_delay s of [] \<Rightarrow> 0 | d # ds \<Rightarrow> fold max ds d)"

definition simulation_stops_early :: "simulation_attempt list \<Rightarrow> bool" where
  "simulation_stops_early s = list_ex sa_stops s"

definition simulation_to_dict :: "'u pyenv \<Rightarrow> simulation_attempt list \<Rightarrow> pyval" where
  "simulation_to_dict E s = py_dict
     [(''attempt_count'', VNat (simulation_attempt_count s)),
      (''total_sleep'', VFloat (simulation_total_sleep E s)),
      (''max_delay'', VFloat (simulation_max_delay s)),
      (''stops_early'', VBool (simulation_stops_early s)),
      (''attempts'', VList (map (\<lambda>a. py_dict
         [(''attempt_number'', VNat (sa_attempt_number a)),
          (''delay_before_next_attempt'', VFloat (sa_delay a)),
          (''cumulative_sleep'', VFloat (sa_cumulative a)),
          (''stops_after_attempt'', VBool (sa_stops a))]) s))]"

definition simulation_to_json ::
    "'u pyenv \<Rightarrow> (int option \<Rightarrow> pyval \<Rightarrow> string res) \<Rightarrow> int option \<Rightarrow> simulation_attempt list \<Rightarrow> string res" where
  "simulation_to_json E dumps indent s = dumps indent (simulation_to_dict E s)"

definition simulation_describe :: "'u pyenv \<Rightarrow> simulation_attempt list \<Rightarrow> string" where
  "simulation_describe E s = py_join newline
     ([''Relinker simulation'', [],
       ''Attempts simulated: '' @ nat_str (simulation_attempt_count s),
       ''Total simulated sleep: '' @ fmt_fixed 4 (simulation_total_sleep E s) @ ''s'',
       ''Max single delay: '' @ fmt_fixed 4 (simulation_max_delay s) @ ''s'', []]
      @ map (\<lambda>a. ''Attempt '' @ nat_str (sa_attempt_number a) @ '': wait ''
               @ fmt_fixed 4 (sa_delay a) @ ''s (cumulative: '' @ fmt_fixed 4 (sa_cumulative a) @ ''s)''
               @ (if sa_stops a then '' [stop]'' else [])) s)"

text \<open>\<open>RetryPolicy.timeline\<close>\<close>

definition timeline :: "'u pyenv \<Rightarrow> 'u world_scheme policy \<Rightarrow> pyval \<Rightarrow> ('u, string) io" where
  "timeline E p max_attempts =
     py_bind (simulate_policy E p max_attempts) (\<lambda>s. py_return (simulation_describe E s))"

section \<open>Load estimates\<close>

text \<open>\<open>_estimate_attempts\<close>: the maximum, whether it is unbounded, whether the estimate is partial.\<close>

fun estimate_attempts :: "'s stop \<Rightarrow> int option \<times> bool \<times> bool" where
  "estimate_attempts (StopAfterAttempt maximum) = (Some maximum, False, False)"
| "estimate_attempts StopForever = (None, True, False)"
| "estimate_attempts (AnyStop strategies) =
     (let estimates = map estimate_attempts strategies;
          bounded = known_limits (map (\<lambda>(maximum, unbounded, partial).
            if unbounded then None else maximum) estimates)
      in if bounded \<noteq> [] then (Some (fold min (tl bounded) (hd bounded)), False, False)
         else if list_all (\<lambda>(maximum, unbounded, partial). unbounded) estimates
         then (None, True, False) else (None, False, True))"
| "estimate_attempts (AllStop strategies) =
     (let estimates = map estimate_attempts strategies
      in if list_ex (\<lambda>(maximum, unbounded, partial). unbounded) estimates then (None, True, False)
         else if list_all (\<lambda>(maximum, unbounded, partial). maximum \<noteq> None) estimates
         then let maxima = known_limits (map fst estimates)
              in (Some (fold max (tl maxima) (hd maxima)), False, False)
         else (None, False, True))"
| "estimate_attempts strategy = (None, False, True)"

record load_estimate =
  le_concurrent_executions :: int
  le_maximum_attempts :: "int option"
  le_original_calls :: int
  le_maximum_additional_retries :: "int option"
  le_maximum_total_calls :: "int option"
  le_unbounded :: bool
  le_budget_configured :: bool
  le_budget_capacity :: "int option"
  le_budget_period :: "flt option"
  le_partial :: bool

text \<open>It reads the capacity and period of the policy's budget in the heap.\<close>

definition estimate_policy_load ::
    "'s policy \<Rightarrow> (nat \<Rightarrow> retry_budget) \<Rightarrow> pyval \<Rightarrow> load_estimate res" where
  "estimate_policy_load p budgets concurrent_executions =
     (case concurrent_executions of
        VInt n \<Rightarrow>
          if n \<le> 0 then Raise (config_error ''concurrent_executions must be a positive integer'')
          else (case estimate_attempts (pol_stop p) of (maximum, unbounded, partial) \<Rightarrow>
            let additional = map_option (\<lambda>m. n * max 0 (m - 1)) maximum;
                budget = map_option budgets (pol_budget p)
            in Ok \<lparr>le_concurrent_executions = n, le_maximum_attempts = maximum, le_original_calls = n,
                   le_maximum_additional_retries = additional,
                   le_maximum_total_calls = map_option (\<lambda>a. n + a) additional,
                   le_unbounded = unbounded, le_budget_configured = budget \<noteq> None,
                   le_budget_capacity = map_option (\<lambda>b. int (bg_max_retries b)) budget,
                   le_budget_period = map_option bg_per budget,
                   le_partial = partial\<rparr>)
      | _ \<Rightarrow> Raise (config_error ''concurrent_executions must be a positive integer''))"

end
