(* ===== verification/Diagnostics.thy ===== *)
theory Diagnostics
  imports Main Simulation
begin

text \<open>
  \<open>internal/policy_diagnostics.py\<close>: the advisory warnings of a policy and its health report. The
  analyses are functions of the stop, delay and condition trees; the check for a long total sleep
  simulates the policy, and an exception of the simulation makes it a skipped check.
\<close>

section \<open>Analyses of delay trees\<close>

abbreviation is_zero :: "pynum \<Rightarrow> bool" where
  "is_zero a \<equiv> num_eq a (PInt 0)"

abbreviation is_positive :: "pynum \<Rightarrow> bool" where
  "is_positive a \<equiv> num_less (PInt 0) a"

text \<open>\<open>maximum == 0\<close>, where the maximum may be \<open>None\<close>\<close>

definition zero_maximum :: "pynum option \<Rightarrow> bool" where
  "zero_maximum m = (case m of None \<Rightarrow> False | Some a \<Rightarrow> is_zero a)"

text \<open>The nodes at which \<open>_delay_is_always_zero\<close> goes on.\<close>

fun zero_node :: "'s delay \<Rightarrow> bool" where
  "zero_node (AdditiveDelay _) = True"
| "zero_node (FixedDelay seconds) = is_zero seconds"
| "zero_node (LinearDelay start step maximum) =
     (zero_maximum maximum \<or> (is_zero start \<and> is_zero step))"
| "zero_node (ExponentialDelay base factor maximum) = (is_zero base \<or> zero_maximum maximum)"
| "zero_node (ChainDelay delays) = list_all is_zero delays"
| "zero_node (RandomDelay minimum maximum seed) = (is_zero minimum \<and> is_zero maximum)"
| "zero_node (RandomExponentialDelay base factor minimum maximum seed) =
     (is_zero minimum \<and> (is_zero base \<or> zero_maximum maximum))"
| "zero_node _ = False"

definition delay_is_always_zero :: "'s delay \<Rightarrow> bool" where
  "delay_is_always_zero strategy = (\<not> stack_any (\<lambda>d. \<not> zero_node d) [strategy])"

text \<open>\<open>_random_exponential_can_vary\<close>; the limit is \<open>None\<close> when there is no known one.\<close>

definition random_exponential_can_vary ::
    "'u pyenv \<Rightarrow> pynum \<Rightarrow> pynum \<Rightarrow> pynum \<Rightarrow> pynum option \<Rightarrow> int option \<Rightarrow> bool" where
  "random_exponential_can_vary E base factor minimum maximum limit =
     (if limit = Some 0 \<or> num_le base (PInt 0) then False
      else if (case maximum of None \<Rightarrow> False | Some m \<Rightarrow> num_le m minimum) then False
      else let largest_cap =
                 (if num_le factor (PInt 1) \<or> limit = Some 1 then base
                  else case limit of
                         None \<Rightarrow> PFlt fl_inf
                       | Some n \<Rightarrow> exponential_value E base factor n);
               capped = (case maximum of None \<Rightarrow> largest_cap | Some m \<Rightarrow> num_min largest_cap m)
           in num_less minimum capped)"

definition varies_with_seed :: "bool option \<Rightarrow> bool \<Rightarrow> int option \<Rightarrow> bool" where
  "varies_with_seed seeded can_vary seed \<longleftrightarrow>
     can_vary \<and> (case seeded of None \<Rightarrow> True | Some b \<Rightarrow> (seed \<noteq> None) = b)"

fun random_node :: "'u pyenv \<Rightarrow> int option \<Rightarrow> bool option \<Rightarrow> 's delay \<Rightarrow> bool" where
  "random_node E limit seeded (RandomDelay minimum maximum seed) =
     varies_with_seed seeded (num_less minimum maximum) seed"
| "random_node E limit seeded (RandomExponentialDelay base factor minimum maximum seed) =
     varies_with_seed seeded (random_exponential_can_vary E base factor minimum maximum limit) seed"
| "random_node E limit seeded _ = False"

definition has_effective_random_delay ::
    "'u pyenv \<Rightarrow> 's delay \<Rightarrow> int option \<Rightarrow> bool option \<Rightarrow> bool" where
  "has_effective_random_delay E strategy limit seeded =
     (if limit = Some 0 then False else stack_any (random_node E limit seeded) [strategy])"

fun positive_node :: "'s delay \<Rightarrow> bool" where
  "positive_node (FixedDelay seconds) = is_positive seconds"
| "positive_node (LinearDelay start step maximum) =
     ((case maximum of None \<Rightarrow> True | Some m \<Rightarrow> is_positive m) \<and> (is_positive start \<or> is_positive step))"
| "positive_node (ExponentialDelay base factor maximum) =
     ((case maximum of None \<Rightarrow> True | Some m \<Rightarrow> is_positive m) \<and> is_positive base)"
| "positive_node _ = False"

definition has_positive_deterministic_delay :: "'s delay \<Rightarrow> bool" where
  "has_positive_deterministic_delay strategy = stack_any positive_node [strategy]"

text \<open>The delays of a \<open>ChainDelay\<close> are numbers, so the loop never goes into one.\<close>

fun unbounded_exponential_node :: "'s delay \<Rightarrow> bool" where
  "unbounded_exponential_node (ExponentialDelay base factor maximum) =
     (maximum = None \<and> is_positive base \<and> num_less (PInt 1) factor)"
| "unbounded_exponential_node (RandomExponentialDelay base factor minimum maximum seed) =
     (maximum = None \<and> is_positive base \<and> num_less (PInt 1) factor)"
| "unbounded_exponential_node _ = False"

definition has_unbounded_exponential :: "'s delay \<Rightarrow> bool" where
  "has_unbounded_exponential strategy = stack_any unbounded_exponential_node [strategy]"

section \<open>Analyses of a policy\<close>

definition is_no_delay :: "'s policy \<Rightarrow> bool" where
  "is_no_delay p = delay_is_always_zero (pol_delay p)"

definition uses_implicit_default_policy :: "'s policy \<Rightarrow> bool" where
  "uses_implicit_default_policy p =
     ((case pol_stop p of StopAfterAttempt n \<Rightarrow> n = 3 | _ \<Rightarrow> False) \<and>
      (case pol_delay p of FixedDelay d \<Rightarrow> is_zero d | _ \<Rightarrow> False) \<and>
      (case pol_condition p of ExceptionCondition types \<Rightarrow> types = [Exception_t] | _ \<Rightarrow> False))"

definition is_forever :: "'s policy \<Rightarrow> bool" where
  "is_forever p = stop_is_infinite (pol_stop p)"

definition high_attempt_count :: "'s policy \<Rightarrow> bool" where
  "high_attempt_count p = (case known_attempt_limit (pol_stop p) of None \<Rightarrow> False | Some n \<Rightarrow> 10 \<le> n)"

definition many_attempts :: "'s policy \<Rightarrow> bool" where
  "many_attempts p = (case known_attempt_limit (pol_stop p) of None \<Rightarrow> False | Some n \<Rightarrow> 10 < n)"

definition has_giveup_observer :: "'s policy \<Rightarrow> bool" where
  "has_giveup_observer p = list_ex (\<lambda>entry. entry_name entry = AfterGiveup) (pol_handlers p)"

definition can_retry :: "'s policy \<Rightarrow> bool" where
  "can_retry p = (\<not> stops_after_first_attempt (pol_stop p))"

text \<open>\<open>maximum_delay_attempts\<close>\<close>

definition maximum_delay_attempts :: "'s policy \<Rightarrow> int option" where
  "maximum_delay_attempts p =
     (if \<not> can_retry p then Some 0
      else map_option (\<lambda>n. max 0 (n - 1)) (known_attempt_limit (pol_stop p)))"

section \<open>Warnings\<close>

datatype severity = Advisory | Warning | Critical

record policy_warning =
  pw_code :: string
  pw_message :: string
  pw_hint :: "string option"
  pw_severity :: severity

definition warning :: "string \<Rightarrow> string \<Rightarrow> string \<Rightarrow> severity \<Rightarrow> policy_warning" where
  "warning code message hint s =
     \<lparr>pw_code = code, pw_message = message, pw_hint = Some hint, pw_severity = s\<rparr>"

text \<open>\<open>if condition: warnings.append(...)\<close>\<close>

definition warn_if :: "bool \<Rightarrow> policy_warning \<Rightarrow> policy_warning list" where
  "warn_if b w = (if b then [w] else [])"

text \<open>The warnings before the simulation, in the order they are appended.\<close>

definition warnings_before :: "'s policy \<Rightarrow> policy_warning list" where
  "warnings_before p =
     warn_if (uses_implicit_default_policy p)
       (warning ''implicit_default_policy''
         (''This policy uses the implicit retry defaults: all Exception subclasses, three '' @
          ''attempts, and no delay.'')
         ''Specify exception types and a delay explicitly, or use a preset.''
         Advisory) @
     warn_if (is_forever p)
       (warning ''forever''
         ''This policy can retry forever.''
         ''Use forever() only when the caller controls cancellation or shutdown.''
         Critical) @
     warn_if (can_retry p \<and> is_no_delay p)
       (warning ''no_delay''
         ''This policy has no delay between attempts.''
         ''Consider jitter or backoff for external services.''
         Warning) @
     warn_if (is_forever p \<and> is_no_delay p)
       (warning ''tight_loop_risk''
         ''This policy can retry forever without sleeping.''
         (''A tight retry loop can consume CPU and overload downstream services. Add a '' @
          ''delay, max_time(), or a cancellation-aware caller.'')
         Critical) @
     warn_if (is_forever p \<and> has_unbounded_exponential (pol_delay p))
       (warning ''unbounded_exponential_with_forever''
         ''This policy uses forever() with exponential backoff and no maximum delay cap.''
         (''Without maximum=, the delay saturates at a large finite ceiling once the '' @
          ''exponent overflows. Set maximum= explicitly to control the sleep ceiling.'')
         Advisory) @
     warn_if (is_forever p \<and> pol_history_limit p = None)
       (warning ''unbounded_history''
         ''This policy can retry indefinitely while retaining every attempt record.''
         (''Use keep_history(n) to bound memory, or keep unlimited history only when the '' @
          ''caller guarantees prompt cancellation.'')
         Critical) @
     warn_if (can_retry p \<and> has_broad_exception (pol_condition p))
       (warning ''broad_exception''
         ''This policy retries all Exception subclasses.''
         ''Prefer specific exception types when possible.''
         Warning) @
     warn_if (\<not> (can_retry p \<and> has_broad_exception (pol_condition p)) \<and> can_retry p \<and>
        has_broad_os_error (pol_condition p))
       (warning ''broad_os_error''
         (''This policy explicitly retries OSError, which includes non-transport '' @
          ''operating-system failures.'')
         (''Prefer the dependency's documented transient exceptions, or use TimeoutError '' @
          ''and ConnectionError when appropriate.'')
         Warning) @
     warn_if (can_retry p \<and> many_attempts p)
       (warning ''many_attempts''
         (''This policy uses '' @ int_str (the (known_attempt_limit (pol_stop p))) @ '' attempts.'')
         ''High attempt counts increase load on downstream services during incidents.''
         Warning)"

definition high_total_sleep :: "flt \<Rightarrow> int \<Rightarrow> policy_warning" where
  "high_total_sleep total_sleep sim_count =
     warning ''high_total_sleep''
         (''Simulated total sleep is '' @ fmt_fixed 1 total_sleep @ ''s across '' @ int_str sim_count @
          '' attempts.'')
         (''Verify that upstream services and callers can wait this long before adding a '' @
          ''stricter time limit.'')
         Advisory"

text \<open>The check that simulates; an \<open>Exception\<close> of the simulation skips it.\<close>

definition total_sleep_check ::
    "'u pyenv \<Rightarrow> 'u world_scheme policy \<Rightarrow> ('u, policy_warning list \<times> string list) io" where
  "total_sleep_check E p =
     (if can_retry p \<and> \<not> is_forever p
      then
        let sim_count = (case known_attempt_limit (pol_stop p) of Some n \<Rightarrow> n | None \<Rightarrow> 10)
        in py_catch
             (py_bind (simulate_policy E p (VInt sim_count)) (\<lambda>simulation.
                let total = simulation_total_sleep E simulation
                in py_return (warn_if (sec 300 < total) (high_total_sleep total sim_count), [])))
             (\<lambda>e. if is_exception e then py_return ([], [''high_total_sleep'']) else py_raise e)
      else py_return ([], []))"

definition warnings_after :: "'u pyenv \<Rightarrow> 'u world_scheme policy \<Rightarrow> policy_warning list" where
  "warnings_after E p =
     warn_if (can_retry p \<and> has_result_condition (pol_condition p) \<and> \<not> pol_return_result p \<and>
        pol_callback p = None \<and> pol_factory p = None \<and> pol_result_exhausted p \<noteq> RaiseExhausted)
       (warning ''result_retry_without_observation''
         (''Result-based retry is configured without return_result(), fallback, or '' @
          ''raise-on-exhausted behavior.'')
         (''Add .return_result(), .fallback(...), or .raise_on_result_exhausted() to '' @
          ''observe when result retry is exhausted.'')
         Warning) @
     warn_if (can_retry p \<and> high_attempt_count p \<and> has_positive_deterministic_delay (pol_delay p) \<and>
        \<not> has_effective_random_delay E (pol_delay p) (maximum_delay_attempts p) None)
       (warning ''missing_jitter''
         ''This policy may synchronize retries across concurrent executions.''
         ''Consider adding jitter.''
         Advisory) @
     warn_if (\<not> pol_testing p \<and>
        has_effective_random_delay E (pol_delay p) (maximum_delay_attempts p) (Some True) \<and>
        \<not> has_effective_random_delay E (pol_delay p) (maximum_delay_attempts p) (Some False))
       (warning ''seeded_random_delay''
         (''This policy uses a seeded random delay, so executions that reuse the same seed '' @
          ''receive the same per-attempt delays.'')
         (''Use seed=None when randomness should spread production retries; keep fixed '' @
          ''seeds for reproducible tests and simulations.'')
         Advisory) @
     warn_if (can_retry p \<and> (is_forever p \<or> high_attempt_count p) \<and> pol_budget p = None)
       (warning ''missing_retry_budget''
         ''Under high concurrency, this policy may multiply load on a degraded service.''
         ''Consider a Retry Budget.''
         Warning) @
     warn_if (can_retry p \<and> pol_callback p \<noteq> None \<and> \<not> has_giveup_observer p \<and> \<not> pol_return_result p)
       (warning ''silent_fallback''
         (''The fallback may hide repeated failures because no give-up observer is '' @
          ''configured.'')
         ''Add on_giveup(), logging, or return_result() when you need visibility.''
         Warning) @
     warn_if (is_forever p \<and> pol_budget p \<noteq> None)
       (warning ''infinite_retry_with_budget''
         ''Retry Budget controls retry rate, but does not limit total operation duration.''
         ''Add a time or attempt limit if the operation must eventually stop.''
         Warning) @
     warn_if (pol_testing p \<and> has_max_time (pol_stop p))
       (warning ''for_testing_with_max_time''
         ''for_testing() removes real sleeps but does not advance time.''
         ''max_time() behavior may differ from production.''
         Advisory) @
     warn_if (can_retry p \<and> has_broad_exception (pol_condition p) \<and> (is_forever p \<or> high_attempt_count p))
       (warning ''background_broad_exception''
         ''Broad exception handling is combined with many attempts or forever retry.''
         (''Background jobs catching all exceptions can mask bugs and amplify load. '' @
          ''Consider narrowing the exception types or adding a circuit breaker.'')
         Critical)"

definition compute_diagnostics ::
    "'u pyenv \<Rightarrow> 'u world_scheme policy \<Rightarrow> ('u, policy_warning list \<times> string list) io" where
  "compute_diagnostics E p =
     py_bind (total_sleep_check E p) (\<lambda>(simulated, skipped).
       py_return (warnings_before p @ simulated @ warnings_after E p, skipped))"

definition compute_warnings :: "'u pyenv \<Rightarrow> 'u world_scheme policy \<Rightarrow> ('u, policy_warning list) io" where
  "compute_warnings E p = py_bind (compute_diagnostics E p) (\<lambda>(warnings, skipped). py_return warnings)"

section \<open>Health reports\<close>

record health_report =
  hr_warnings :: "policy_warning list"
  hr_complete :: bool
  hr_skipped_checks :: "string list"

definition doctor_policy :: "'u pyenv \<Rightarrow> 'u world_scheme policy \<Rightarrow> ('u, health_report) io" where
  "doctor_policy E p =
     py_bind (compute_diagnostics E p) (\<lambda>(warnings, skipped). py_return
       \<lparr>hr_warnings = warnings, hr_complete = (length skipped = 0), hr_skipped_checks = skipped\<rparr>)"

definition report_ok :: "health_report \<Rightarrow> bool" where
  "report_ok h \<longleftrightarrow> hr_complete h \<and> hr_warnings h = []"

definition report_has_warnings :: "health_report \<Rightarrow> bool" where
  "report_has_warnings h \<longleftrightarrow> hr_warnings h \<noteq> []"

definition report_has_critical :: "health_report \<Rightarrow> bool" where
  "report_has_critical h \<longleftrightarrow> list_ex (\<lambda>w. pw_severity w = Critical) (hr_warnings h)"

definition report_critical_count :: "health_report \<Rightarrow> nat" where
  "report_critical_count h = length (filter (\<lambda>w. pw_severity w = Critical) (hr_warnings h))"

definition risk_level :: "health_report \<Rightarrow> string" where
  "risk_level h =
     (if report_has_critical h then ''risky''
      else if hr_warnings h \<noteq> [] \<or> \<not> hr_complete h then ''warning'' else ''ok'')"

definition severity_str :: "severity \<Rightarrow> string" where
  "severity_str s = (case s of Advisory \<Rightarrow> ''advisory'' | Warning \<Rightarrow> ''warning'' | Critical \<Rightarrow> ''critical'')"

definition warning_to_dict :: "policy_warning \<Rightarrow> pyval" where
  "warning_to_dict w = py_dict
     [(''code'', VStr (pw_code w)), (''message'', VStr (pw_message w)),
      (''hint'', opt_str (pw_hint w)), (''severity'', VStr (severity_str (pw_severity w)))]"

definition report_to_dict :: "health_report \<Rightarrow> pyval" where
  "report_to_dict h = py_dict
     [(''ok'', VBool (report_ok h)), (''risk_level'', VStr (risk_level h)),
      (''warning_count'', VNat (length (hr_warnings h))),
      (''warnings'', VList (map warning_to_dict (hr_warnings h))),
      (''complete'', VBool (hr_complete h)),
      (''skipped_checks'', VList (map VStr (hr_skipped_checks h)))]"

definition report_to_json :: "(int option \<Rightarrow> pyval \<Rightarrow> string res) \<Rightarrow> int option \<Rightarrow> health_report \<Rightarrow> string res" where
  "report_to_json dumps indent h = dumps indent (report_to_dict h)"

text \<open>The two lines of a warning; an empty hint counts as none.\<close>

definition warning_lines :: "policy_warning \<Rightarrow> string list" where
  "warning_lines w =
     [''- '' @ pw_code w @ '': '' @ pw_message w]
     @ (case pw_hint w of None \<Rightarrow> [] | Some h \<Rightarrow> if h = [] then [] else [''  Hint: '' @ h])"

definition report_describe :: "health_report \<Rightarrow> string" where
  "report_describe h = py_join newline
     ([''Relinker policy health'', [], ''Risk level: '' @ risk_level h]
      @ (if hr_warnings h = [] then [[], ''No warnings found.'']
         else [[], ''Warnings:''] @ concat (map warning_lines (hr_warnings h)))
      @ (if \<not> hr_complete h
         then [[], ''Diagnostics complete: no'', ''Skipped checks:'']
              @ map (\<lambda>c. ''- '' @ c) (hr_skipped_checks h)
         else []))"

end
