(* ===== verification/Previews.thy ===== *)
theory Previews
  imports Main Diagnostics
begin

text \<open>
  The reporting half of \<open>internal/policy_simulation.py\<close>: \<open>explain\<close>, \<open>preview\<close> and the description of a
  load estimate. The class names of strategies and conditions that are user objects are a parameter.
\<close>

section \<open>Names of user objects\<close>

text \<open>What \<open>getattr\<close> finds of \<open>__name__\<close>, \<open>__module__\<close> and \<open>__qualname__\<close> of a callable.\<close>

record callable_attrs =
  ca_name :: "string option"
  ca_module :: "string option"
  ca_qualname :: "string option"

record 's names =
  nm_stop_class :: "(int \<Rightarrow> flt \<Rightarrow> ('s, bool) py) \<Rightarrow> string"
  nm_condition_class :: "(exn \<Rightarrow> ('s, bool) py) \<Rightarrow> (pyval \<Rightarrow> ('s, bool) py) \<Rightarrow> string"
  nm_delay_class :: "(int \<Rightarrow> ('s, pyval) py) \<Rightarrow> string"
  nm_predicate :: "(pyval \<Rightarrow> ('s, bool) py) \<Rightarrow> callable_attrs"
  nm_condition_callback :: "(exn option \<Rightarrow> pyval \<Rightarrow> ('s, bool) py) \<Rightarrow> callable_attrs"
  nm_delay_callback :: "(int \<Rightarrow> ('s, pyval) py) \<Rightarrow> callable_attrs"
  nm_state_callback :: "(retry_state \<Rightarrow> ('s, pyval) py) \<Rightarrow> callable_attrs"
  nm_exhausted_callback :: "(result \<Rightarrow> ('s, pyval) py) \<Rightarrow> callable_attrs"
  nm_exception_factory :: "(result \<Rightarrow> ('s, exn option) py) \<Rightarrow> callable_attrs"
  nm_handler :: "'s handler \<Rightarrow> callable_attrs"
  nm_exception_qualname :: "exc_type \<Rightarrow> string"

text \<open>\<open>_class_name\<close>\<close>

fun stop_class_name :: "'s names \<Rightarrow> 's stop \<Rightarrow> string" where
  "stop_class_name N (StopAfterAttempt _) = ''StopAfterAttempt''"
| "stop_class_name N (StopAfterDelay _) = ''StopAfterDelay''"
| "stop_class_name N StopForever = ''StopForever''"
| "stop_class_name N (AnyStop _) = ''AnyStopStrategy''"
| "stop_class_name N (AllStop _) = ''AllStopStrategy''"
| "stop_class_name N (UserStop f) = nm_stop_class N f"

fun condition_class_name :: "'s names \<Rightarrow> 's condition \<Rightarrow> string" where
  "condition_class_name N (ExceptionCondition _) = ''ExceptionCondition''"
| "condition_class_name N (ResultCondition _) = ''ResultCondition''"
| "condition_class_name N (CustomCondition _) = ''CustomCondition''"
| "condition_class_name N (AnyCondition _) = ''AnyCondition''"
| "condition_class_name N (AllCondition _) = ''AllCondition''"
| "condition_class_name N (UserCondition f g) = nm_condition_class N f g"

fun delay_class_name :: "'s names \<Rightarrow> 's delay \<Rightarrow> string" where
  "delay_class_name N (FixedDelay _) = ''FixedDelay''"
| "delay_class_name N (LinearDelay _ _ _) = ''LinearDelay''"
| "delay_class_name N (ExponentialDelay _ _ _) = ''ExponentialDelay''"
| "delay_class_name N (ChainDelay _) = ''ChainDelay''"
| "delay_class_name N (RandomDelay _ _ _) = ''RandomDelay''"
| "delay_class_name N (RandomExponentialDelay _ _ _ _ _) = ''RandomExponentialDelay''"
| "delay_class_name N (CustomDelay _) = ''CustomDelay''"
| "delay_class_name N (StatefulCustomDelay _) = ''StatefulCustomDelay''"
| "delay_class_name N (AdditiveDelay _) = ''AdditiveDelay''"
| "delay_class_name N (UserDelay f) = nm_delay_class N f"

section \<open>\<open>explain\<close>\<close>

text \<open>\<open>_format_seconds\<close> of a configured number: without a fraction when it is whole.\<close>

definition format_seconds :: "pynum \<Rightarrow> string" where
  "format_seconds a =
     (case a of
        PInt n \<Rightarrow> int_str n @ ''s''
      | PFlt x \<Rightarrow>
          if x = sec (x div 2 ^ 1074) then int_str (x div 2 ^ 1074) @ ''s'' else fmt_g x @ ''s'')"

definition describe_stop :: "'s names \<Rightarrow> 's policy \<Rightarrow> string" where
  "describe_stop N p =
     (case pol_stop p of
        StopAfterAttempt maximum \<Rightarrow> ''try up to '' @ int_str maximum @ '' times''
      | StopAfterDelay seconds \<Rightarrow> ''keep trying until '' @ format_seconds seconds @ '' has elapsed''
      | StopForever \<Rightarrow> ''keep trying until the caller stops it''
      | AnyStop _ \<Rightarrow> ''stop using a composed strategy (any stop conditions)''
      | AllStop _ \<Rightarrow> ''stop using a composed strategy (all stop conditions)''
      | strategy \<Rightarrow> ''stop using '' @ stop_class_name N strategy)"

definition describe_condition :: "'s names \<Rightarrow> 's policy \<Rightarrow> string" where
  "describe_condition N p =
     (case pol_condition p of
        ExceptionCondition types \<Rightarrow>
          (let labels = py_join '', '' (map et_name types)
           in ''retry on '' @ (if labels = [] then ''configured exceptions'' else labels))
      | ResultCondition _ \<Rightarrow> ''retry when a returned value is rejected by the configured predicate''
      | CustomCondition _ \<Rightarrow> ''retry using a custom condition callback''
      | AnyCondition _ \<Rightarrow> ''retry when any configured condition matches''
      | AllCondition _ \<Rightarrow> ''retry only when all configured conditions match''
      | condition \<Rightarrow> ''retry using '' @ condition_class_name N condition)"

definition capped :: "pynum option \<Rightarrow> string" where
  "capped maximum = (case maximum of None \<Rightarrow> [] | Some m \<Rightarrow> '', capped at '' @ format_seconds m)"

definition describe_delay :: "'s names \<Rightarrow> 's policy \<Rightarrow> string" where
  "describe_delay N p =
     (case pol_delay p of
        FixedDelay seconds \<Rightarrow> ''wait '' @ format_seconds seconds @ '' between attempts''
      | LinearDelay start step maximum \<Rightarrow>
          ''wait with linear delay starting at '' @ format_seconds start @ capped maximum
      | ExponentialDelay base factor maximum \<Rightarrow>
          ''wait with exponential backoff from '' @ format_seconds base @ capped maximum
      | RandomDelay minimum maximum seed \<Rightarrow>
          ''wait using a random delay between '' @ format_seconds minimum @ '' and ''
            @ format_seconds maximum
      | RandomExponentialDelay base factor minimum maximum seed \<Rightarrow>
          ''wait using randomized exponential backoff from '' @ format_seconds base @ capped maximum
      | ChainDelay _ \<Rightarrow> ''wait using a predefined delay chain''
      | AdditiveDelay _ \<Rightarrow> ''wait using composed delay strategies''
      | StatefulCustomDelay _ \<Rightarrow> ''wait using a state-aware delay callback''
      | CustomDelay _ \<Rightarrow> ''wait using a custom delay callback''
      | delay \<Rightarrow> ''wait using '' @ delay_class_name N delay)"

definition describe_exhaustion :: "'s policy \<Rightarrow> string" where
  "describe_exhaustion p =
     (if pol_return_result p
      then ''return a RetryResult object instead of raising or returning the raw value''
      else if pol_callback p \<noteq> None then ''call a fallback when retry attempts are exhausted''
      else if pol_factory p \<noteq> None then ''raise a custom exception when retry attempts are exhausted''
      else if pol_raise_last p then ''raise the last exception when retry attempts are exhausted''
      else ''return None when an unaccepted exception is not re-raised'')"

definition explain_lines ::
    "'u world_scheme names \<Rightarrow> 'u world_scheme policy \<Rightarrow> (nat \<Rightarrow> retry_budget) \<Rightarrow> policy_warning list
      \<Rightarrow> string list" where
  "explain_lines N p budgets warnings =
     [''Relinker policy'', []]
     @ (case pol_name p of None \<Rightarrow> [] | Some n \<Rightarrow> [''Name: '' @ n, []])
     @ [''This policy will:'', ''- '' @ describe_stop N p, ''- '' @ describe_condition N p,
        ''- '' @ describe_delay N p, ''- '' @ describe_exhaustion p]
     @ (case pol_budget p of None \<Rightarrow> []
        | Some b \<Rightarrow>
            [''- share at most '' @ nat_str (bg_max_retries (budgets b)) @ '' retries every ''
              @ format_seconds (PFlt (bg_per (budgets b))) @ '' under the budget key \"''
              @ (case pol_budget_key p of None \<Rightarrow> ''None'' | Some k \<Rightarrow> k) @ ''\"''])
     @ [[], ''Technical details:'', ''- Stop strategy: '' @ stop_class_name N (pol_stop p),
        ''- Delay strategy: '' @ delay_class_name N (pol_delay p),
        ''- Condition: '' @ condition_class_name N (pol_condition p)]
     @ (if pol_budget p = None then [] else [''- Retry budget: RetryBudget''])
     @ (if warnings = [] then [] else [[], ''Warnings:''] @ concat (map warning_lines warnings))"

definition explain_policy ::
    "'u pyenv \<Rightarrow> 'u world_scheme names \<Rightarrow> 'u world_scheme policy \<Rightarrow> ('u, string) io" where
  "explain_policy E N p =
     py_bind (compute_warnings E p) (\<lambda>warnings w.
       (Ok (py_join newline (explain_lines N p (w_budgets w) warnings)), w))"

section \<open>\<open>preview\<close>\<close>

definition opt_int_str :: "int option \<Rightarrow> string" where
  "opt_int_str n = (case n of None \<Rightarrow> ''None'' | Some k \<Rightarrow> int_str k)"

text \<open>The lines of \<open>RetryLoadEstimate.describe\<close>.\<close>

definition estimate_lines :: "load_estimate \<Rightarrow> string list" where
  "estimate_lines e =
     [''Relinker load worst-case estimate'', [],
      ''Concurrent executions: '' @ int_str (le_concurrent_executions e),
      ''Original calls: '' @ int_str (le_original_calls e)]
     @ (if le_unbounded e then [''Maximum total calls: unbounded'']
        else if le_partial e then [''Maximum total calls: unknown (partial estimate)'']
        else [''Maximum attempts per execution: '' @ opt_int_str (le_maximum_attempts e),
              ''Maximum additional retries: '' @ opt_int_str (le_maximum_additional_retries e),
              ''Maximum total calls: '' @ opt_int_str (le_maximum_total_calls e)])
     @ (if le_budget_configured e
        then [''Retry Budget configured: '' @ opt_int_str (le_budget_capacity e) @ '' retries per ''
               @ (case le_budget_period e of None \<Rightarrow> [] | Some x \<Rightarrow> fmt_g x) @ '' seconds'']
        else [])"

definition estimate_describe :: "load_estimate \<Rightarrow> string" where
  "estimate_describe e = py_join newline (estimate_lines e)"

definition opt_int :: "int option \<Rightarrow> pyval" where
  "opt_int n = (case n of None \<Rightarrow> VNone | Some k \<Rightarrow> VInt k)"

definition estimate_to_dict :: "load_estimate \<Rightarrow> pyval" where
  "estimate_to_dict e = py_dict
     [(''concurrent_executions'', VInt (le_concurrent_executions e)),
      (''maximum_attempts_per_execution'', opt_int (le_maximum_attempts e)),
      (''original_calls'', VInt (le_original_calls e)),
      (''maximum_additional_retries'', opt_int (le_maximum_additional_retries e)),
      (''maximum_total_calls'', opt_int (le_maximum_total_calls e)),
      (''unbounded'', VBool (le_unbounded e)),
      (''retry_budget_configured'', VBool (le_budget_configured e)),
      (''retry_budget_capacity'', opt_int (le_budget_capacity e)),
      (''retry_budget_period'',
        (case le_budget_period e of None \<Rightarrow> VNone | Some x \<Rightarrow> VFloat x)),
      (''partial'', VBool (le_partial e))]"

text \<open>
  The preview takes the lines of the description from the third on that are not empty; they contain
  no line break themselves.
\<close>

definition preview_lines ::
    "'u pyenv \<Rightarrow> 'u world_scheme policy \<Rightarrow> simulation_attempt list \<Rightarrow> load_estimate option
      \<Rightarrow> policy_warning list \<Rightarrow> string list" where
  "preview_lines E p simulation estimate warnings =
     [''Relinker preview'', [],
      ''Attempts previewed: '' @ nat_str (simulation_attempt_count simulation),
      ''Estimated total sleep: '' @ fmt_fixed 4 (simulation_total_sleep E simulation) @ ''s'', [],
      ''Timeline:'']
     @ map (\<lambda>a. ''- Attempt '' @ nat_str (sa_attempt_number a) @ '': wait ''
              @ fmt_fixed 4 (sa_delay a) @ ''s'' @ (if sa_stops a then '' -> stop'' else [])) simulation
     @ (if pol_budget p = None then []
        else [[], ''Shared retry-budget waiting is not included because it depends '' @
                  ''on runtime activity.''])
     @ (case estimate of None \<Rightarrow> []
        | Some e \<Rightarrow> [[], ''Load worst-case estimate:'']
            @ map (\<lambda>line. ''- '' @ line) (filter (\<lambda>line. line \<noteq> []) (drop 2 (estimate_lines e))))
     @ (if warnings = [] then []
        else [[], ''Warnings:''] @ map (\<lambda>w. ''- '' @ pw_code w @ '': '' @ pw_message w) warnings)"

definition preview_policy ::
    "'u pyenv \<Rightarrow> 'u world_scheme policy \<Rightarrow> pyval \<Rightarrow> pyval option \<Rightarrow> ('u, string) io" where
  "preview_policy E p max_attempts concurrent_executions =
     py_bind (simulate_policy E p max_attempts) (\<lambda>simulation.
     py_bind
       (case concurrent_executions of
          None \<Rightarrow> py_return None
        | Some n \<Rightarrow> (\<lambda>w. (case estimate_policy_load p (w_budgets w) n of
            Ok e \<Rightarrow> (Ok (Some e), w) | Raise x \<Rightarrow> (Raise x, w))))
       (\<lambda>estimate.
     py_bind (compute_warnings E p) (\<lambda>warnings.
       py_return (py_join newline (preview_lines E p simulation estimate warnings)))))"

end
