(* ===== verification/Serialization.thy ===== *)
theory Serialization
  imports Main Previews
begin

text \<open>
  \<open>internal/policy_serialization.py\<close>: \<open>RetryPolicy.to_dict()\<close>. The tree of delays is written without
  recursion: a stack of sums that are still to be filled, next to the dictionary object each of them
  became. The dictionaries are shared objects, so the model has a store of them.
\<close>

section \<open>Names\<close>

definition callable_name :: "callable_attrs \<Rightarrow> string" where
  "callable_name a =
     (case ca_name a of
        None \<Rightarrow> ''<anonymous>''
      | Some name \<Rightarrow>
          if name = ''<lambda>'' then ''<anonymous>''
          else let qualname = (case ca_qualname a of None \<Rightarrow> name | Some q \<Rightarrow> q)
               in (case ca_module a of
                     None \<Rightarrow> qualname
                   | Some m \<Rightarrow> if m = [] then qualname else m @ ''.'' @ qualname))"

definition exception_name :: "'s names \<Rightarrow> exc_type \<Rightarrow> string" where
  "exception_name N c = et_module c @ ''.'' @ nm_exception_qualname N c"

fun event_handler_to_dict :: "'s names \<Rightarrow> 's handler_entry \<Rightarrow> pyval" where
  "event_handler_to_dict N (Registration n h m) = py_dict
     [(''event'', VStr (event_str n)), (''callable'', VStr (callable_name (nm_handler N h))),
      (''failure_mode'', VStr (case m of Propagate \<Rightarrow> ''propagate'' | Isolate \<Rightarrow> ''isolate''))]"
| "event_handler_to_dict N (HandlerTuple n h) = py_dict
     [(''event'', VStr (event_str n)), (''callable'', VStr (callable_name (nm_handler N h))),
      (''failure_mode'', VStr ''propagate'')]"

section \<open>Stop strategies and conditions\<close>

fun stop_to_dict :: "'s names \<Rightarrow> 's stop \<Rightarrow> pyval" where
  "stop_to_dict N (StopAfterAttempt maximum) =
     py_dict [(''type'', VStr ''attempts''), (''maximum'', VInt maximum)]"
| "stop_to_dict N (StopAfterDelay seconds) =
     py_dict [(''type'', VStr ''max_time''), (''seconds'', val_of_num seconds)]"
| "stop_to_dict N StopForever = py_dict [(''type'', VStr ''forever'')]"
| "stop_to_dict N (AnyStop strategies) =
     py_dict [(''type'', VStr ''any''), (''strategies'', VList (map (stop_to_dict N) strategies))]"
| "stop_to_dict N (AllStop strategies) =
     py_dict [(''type'', VStr ''all''), (''strategies'', VList (map (stop_to_dict N) strategies))]"
| "stop_to_dict N (UserStop f) =
     py_dict [(''type'', VStr ''custom''), (''class'', VStr (stop_class_name N (UserStop f)))]"

fun condition_to_dict :: "'s names \<Rightarrow> 's condition \<Rightarrow> pyval" where
  "condition_to_dict N (ExceptionCondition types) =
     py_dict [(''type'', VStr ''exceptions''),
       (''exceptions'', VList (map (\<lambda>c. VStr (exception_name N c)) types))]"
| "condition_to_dict N (ResultCondition predicate) =
     py_dict [(''type'', VStr ''result''), (''predicate'', VStr (callable_name (nm_predicate N predicate)))]"
| "condition_to_dict N (CustomCondition callback) =
     py_dict [(''type'', VStr ''custom''),
       (''callable'', VStr (callable_name (nm_condition_callback N callback)))]"
| "condition_to_dict N (AnyCondition conditions) =
     py_dict [(''type'', VStr ''any''), (''conditions'', VList (map (condition_to_dict N) conditions))]"
| "condition_to_dict N (AllCondition conditions) =
     py_dict [(''type'', VStr ''all''), (''conditions'', VList (map (condition_to_dict N) conditions))]"
| "condition_to_dict N (UserCondition f g) =
     py_dict [(''type'', VStr ''custom''), (''class'', VStr (condition_class_name N (UserCondition f g)))]"

section \<open>Delays\<close>

definition opt_num :: "pynum option \<Rightarrow> pyval" where
  "opt_num m = (case m of None \<Rightarrow> VNone | Some a \<Rightarrow> val_of_num a)"

text \<open>
  A dictionary object: the finished dictionary of a delay that is no sum, or that of a sum with
  references to the dictionaries in its list of strategies.
\<close>

datatype dict_obj = LeafDict pyval | SumDict "nat list"

fun delay_to_shallow_dict :: "'s names \<Rightarrow> 's delay \<Rightarrow> dict_obj" where
  "delay_to_shallow_dict N (FixedDelay seconds) =
     LeafDict (py_dict [(''type'', VStr ''fixed''), (''seconds'', val_of_num seconds)])"
| "delay_to_shallow_dict N (LinearDelay start step maximum) =
     LeafDict (py_dict [(''type'', VStr ''linear''), (''start'', val_of_num start),
       (''step'', val_of_num step), (''maximum'', opt_num maximum)])"
| "delay_to_shallow_dict N (ExponentialDelay base factor maximum) =
     LeafDict (py_dict [(''type'', VStr ''exponential''), (''base'', val_of_num base),
       (''factor'', val_of_num factor), (''maximum'', opt_num maximum)])"
| "delay_to_shallow_dict N (RandomDelay minimum maximum seed) =
     LeafDict (py_dict [(''type'', VStr ''random''), (''minimum'', val_of_num minimum),
       (''maximum'', val_of_num maximum), (''seed'', opt_int seed)])"
| "delay_to_shallow_dict N (RandomExponentialDelay base factor minimum maximum seed) =
     LeafDict (py_dict [(''type'', VStr ''random_exponential''), (''base'', val_of_num base),
       (''factor'', val_of_num factor), (''minimum'', val_of_num minimum),
       (''maximum'', opt_num maximum), (''seed'', opt_int seed)])"
| "delay_to_shallow_dict N (ChainDelay delays) =
     LeafDict (py_dict [(''type'', VStr ''chain''), (''delays'', VList (map val_of_num delays))])"
| "delay_to_shallow_dict N (AdditiveDelay strategies) = SumDict []"
| "delay_to_shallow_dict N (CustomDelay callback) =
     LeafDict (py_dict [(''type'', VStr ''custom''),
       (''callable'', VStr (callable_name (nm_delay_callback N callback)))])"
| "delay_to_shallow_dict N (StatefulCustomDelay callback) =
     LeafDict (py_dict [(''type'', VStr ''stateful_custom''),
       (''callable'', VStr (callable_name (nm_state_callback N callback)))])"
| "delay_to_shallow_dict N (UserDelay f) =
     LeafDict (py_dict [(''type'', VStr ''custom''), (''class'', VStr (delay_class_name N (UserDelay f)))])"

text \<open>\<open>child_data_list.append(child_data)\<close>\<close>

definition append_child :: "nat \<Rightarrow> nat \<Rightarrow> dict_obj list \<Rightarrow> dict_obj list" where
  "append_child parent child store =
     (case store ! parent of
        SumDict children \<Rightarrow> store[parent := SumDict (children @ [child])]
      | LeafDict v \<Rightarrow> store)"

text \<open>The inner loop, over the strategies of the sum whose dictionary is \<open>current\<close>.\<close>

fun fill_children ::
    "'s names \<Rightarrow> nat \<Rightarrow> 's delay list \<Rightarrow> dict_obj list \<Rightarrow> ('s delay list \<times> nat) list
      \<Rightarrow> dict_obj list \<times> ('s delay list \<times> nat) list" where
  "fill_children N current [] store stack = (store, stack)"
| "fill_children N current (child # rest) store stack =
     (let child_data = length store;
          store' = append_child current child_data (store @ [delay_to_shallow_dict N child])
      in fill_children N current rest store'
           (case additive_parts child of Some ds \<Rightarrow> stack @ [(ds, child_data)] | None \<Rightarrow> stack))"

definition stack_weight :: "('s delay list \<times> nat) list \<Rightarrow> nat" where
  "stack_weight stack = sum_list (map (\<lambda>(ds, i). 1 + sum_list (map delay_weight ds)) stack)"

lemma stack_weight_append [simp]: "stack_weight (xs @ ys) = stack_weight xs + stack_weight ys"
  by (simp add: stack_weight_def)

lemma stack_weight_single: "stack_weight [(ds, i)] = 1 + sum_list (map delay_weight ds)"
  by (simp add: stack_weight_def)

lemma fill_children_weight:
  "stack_weight (snd (fill_children N current ds store stack)) \<le> stack_weight stack + sum_list (map delay_weight ds)"
proof (induction ds arbitrary: store stack)
  case (Cons d ds)
  have "stack_weight (case additive_parts d of Some cs \<Rightarrow> stack @ [(cs, length store)] | None \<Rightarrow> stack)
      \<le> stack_weight stack + delay_weight d"
    by (auto simp: stack_weight_single additive_parts_weight simp del: additive_parts_Some split: option.splits)
  then show ?case
    using Cons [of "append_child current (length store) (store @ [delay_to_shallow_dict N d])"
        "case additive_parts d of Some cs \<Rightarrow> stack @ [(cs, length store)] | None \<Rightarrow> stack"]
    by (simp add: Let_def)
qed simp

text \<open>The outer loop.\<close>

function delay_dict_loop ::
    "'s names \<Rightarrow> dict_obj list \<Rightarrow> ('s delay list \<times> nat) list \<Rightarrow> dict_obj list" where
  "delay_dict_loop N store stack =
     (if stack = [] then store
      else case last stack of (strategies, current) \<Rightarrow>
        case fill_children N current strategies store (butlast stack) of
          (store', stack') \<Rightarrow> delay_dict_loop N store' stack')"
  by pat_completeness auto
termination
proof (relation "measure (\<lambda>(N, store, stack). stack_weight stack)")
  show "wf (measure (\<lambda>(N :: 's names, store :: dict_obj list, stack :: ('s delay list \<times> nat) list). stack_weight stack))"
    by simp
next
  fix N :: "'s names" and store store' :: "dict_obj list" and stack stack' :: "('s delay list \<times> nat) list"
    and strategies current
  assume "stack \<noteq> []" "(strategies, current) = last stack"
    "(store', stack') = fill_children N current strategies store (butlast stack)"
  then have "stack = butlast stack @ [(strategies, current)]"
    "stack' = snd (fill_children N current strategies store (butlast stack))"
    by (metis append_butlast_last_id, metis snd_conv)
  then show "((N, store', stack'), (N, store, stack)) \<in> measure (\<lambda>(N, store, stack). stack_weight stack)"
    using fill_children_weight [of N current strategies store "butlast stack"]
      stack_weight_append [of "butlast stack" "[(strategies, current)]"]
    by (simp add: stack_weight_single)
qed

declare delay_dict_loop.simps [simp del]

text \<open>
  What the object at an address looks like from outside. A list of strategies refers to younger
  dictionaries only, so reading them ends.
\<close>

function read_dict :: "dict_obj list \<Rightarrow> nat \<Rightarrow> pyval" where
  "read_dict store i =
     (if length store \<le> i then VNone
      else case store ! i of
        LeafDict v \<Rightarrow> v
      | SumDict children \<Rightarrow> py_dict [(''type'', VStr ''additive''),
          (''strategies'', VList (map (read_dict store) (filter (\<lambda>c. i < c) children)))])"
  by pat_completeness auto
termination
  by (relation "measure (\<lambda>(store, i). length store - i)") auto

declare read_dict.simps [simp del]

definition delay_to_dict :: "'s names \<Rightarrow> 's delay \<Rightarrow> pyval" where
  "delay_to_dict N strategy =
     (let root = delay_to_shallow_dict N strategy
      in case additive_parts strategy of
           None \<Rightarrow> read_dict [root] 0
         | Some strategies \<Rightarrow> read_dict (delay_dict_loop N [root] [(strategies, 0)]) 0)"

section \<open>Exhaustion and the whole policy\<close>

definition exception_exhaustion_to_dict :: "'s names \<Rightarrow> 's policy \<Rightarrow> pyval" where
  "exception_exhaustion_to_dict N p =
     (if pol_return_result p then py_dict [(''type'', VStr ''return_result'')]
      else case pol_callback p of
        Some callback \<Rightarrow> py_dict [(''type'', VStr ''fallback''),
          (''callable'', VStr (callable_name (nm_exhausted_callback N callback)))]
      | None \<Rightarrow>
         (case pol_factory p of
            Some factory \<Rightarrow> py_dict [(''type'', VStr ''raise_custom''),
              (''callable'', VStr (callable_name (nm_exception_factory N factory)))]
          | None \<Rightarrow>
              if pol_raise_last p then py_dict [(''type'', VStr ''raise_last'')]
              else py_dict [(''type'', VStr ''return_none'')]))"

definition result_exhaustion_to_dict :: "'s names \<Rightarrow> 's policy \<Rightarrow> pyval" where
  "result_exhaustion_to_dict N p =
     (if pol_return_result p then py_dict [(''type'', VStr ''return_result'')]
      else case pol_callback p of
        Some callback \<Rightarrow> py_dict [(''type'', VStr ''fallback''),
          (''callable'', VStr (callable_name (nm_exhausted_callback N callback)))]
      | None \<Rightarrow>
         (case pol_factory p of
            Some factory \<Rightarrow> py_dict [(''type'', VStr ''raise_custom''),
              (''callable'', VStr (callable_name (nm_exception_factory N factory)))]
          | None \<Rightarrow>
              if pol_result_exhausted p = RaiseExhausted then py_dict [(''type'', VStr ''raise'')]
              else py_dict [(''type'', VStr ''return_last'')]))"

definition exhaustion_to_dict :: "'s names \<Rightarrow> 's policy \<Rightarrow> pyval" where
  "exhaustion_to_dict N p = py_dict
     [(''exception'', exception_exhaustion_to_dict N p), (''result'', result_exhaustion_to_dict N p)]"

definition budget_to_dict :: "'s policy \<Rightarrow> (nat \<Rightarrow> retry_budget) \<Rightarrow> pyval" where
  "budget_to_dict p budgets =
     (case pol_budget p of
        None \<Rightarrow> py_dict [(''enabled'', VBool False)]
      | Some b \<Rightarrow> py_dict [(''enabled'', VBool True), (''key'', opt_str (pol_budget_key p)),
          (''max_retries'', VNat (bg_max_retries (budgets b))), (''per'', VFloat (bg_per (budgets b)))])"

definition policy_to_dict :: "'s names \<Rightarrow> 's policy \<Rightarrow> (nat \<Rightarrow> retry_budget) \<Rightarrow> pyval" where
  "policy_to_dict N p budgets = py_dict
     [(''name'', opt_str (pol_name p)),
      (''stop'', stop_to_dict N (pol_stop p)),
      (''condition'', condition_to_dict N (pol_condition p)),
      (''delay'', delay_to_dict N (pol_delay p)),
      (''exhaustion'', exhaustion_to_dict N p),
      (''history_limit'', (case pol_history_limit p of None \<Rightarrow> VNone | Some n \<Rightarrow> VNat n)),
      (''retry_budget'', budget_to_dict p budgets),
      (''testing'', py_dict [(''no_real_sleep'', VBool (pol_testing p))]),
      (''callbacks'', py_dict
        [(''event_handlers'', VList (map (event_handler_to_dict N) (pol_handlers p)))])]"

section \<open>The recursive reading of the delay tree\<close>

fun delay_dict :: "'s names \<Rightarrow> 's delay \<Rightarrow> pyval" where
  "delay_dict N (AdditiveDelay ds) =
     py_dict [(''type'', VStr ''additive''), (''strategies'', VList (map (delay_dict N) ds))]"
| "delay_dict N d = (case delay_to_shallow_dict N d of LeafDict v \<Rightarrow> v | SumDict _ \<Rightarrow> VNone)"

lemma shallow_leaf: "additive_parts d = None \<Longrightarrow> delay_to_shallow_dict N d = LeafDict (delay_dict N d)"
  by (cases d) (auto simp: additive_parts_def)

text \<open>The object at an address is the dictionary of a delay, with all its descendants.\<close>

fun built :: "'s names \<Rightarrow> dict_obj list \<Rightarrow> 's delay \<Rightarrow> nat \<Rightarrow> bool" where
  "built N store (AdditiveDelay ds) i \<longleftrightarrow>
     i < length store \<and> (\<exists>cs. store ! i = SumDict cs \<and> (\<forall>c\<in>set cs. i < c)
       \<and> list_all2 (\<lambda>p c. p c) (map (built N store) ds) cs)"
| "built N store d i \<longleftrightarrow> i < length store \<and> store ! i = LeafDict (delay_dict N d)"

lemma built_leaf:
  "additive_parts d = None \<Longrightarrow> built N store d i \<longleftrightarrow> i < length store \<and> store ! i = LeafDict (delay_dict N d)"
  by (cases d) (auto simp: additive_parts_def)

lemma read_built: "built N store d i \<Longrightarrow> read_dict store i = delay_dict N d"
proof (induction d arbitrary: i)
  case (AdditiveDelay ds)
  then obtain cs where i: "i < length store" "store ! i = SumDict cs" "\<forall>c\<in>set cs. i < c"
    and b: "list_all2 (\<lambda>d c. built N store d c) ds cs"
    by (auto simp: list_all2_map1)
  from b have "list_all2 (\<lambda>c d. read_dict store c = delay_dict N d) cs ds"
    unfolding list_all2_conv_all_nth using AdditiveDelay.IH by (metis nth_mem)
  then have "map (read_dict store) cs = map (delay_dict N) ds"
    by (auto simp: list_all2_conv_all_nth intro: nth_equalityI)
  moreover from i(3) have "filter (\<lambda>c. i < c) cs = cs" by (simp add: filter_id_conv)
  ultimately show ?case using i by (subst read_dict.simps) simp
qed (auto simp: read_dict.simps)

section \<open>The loops build the tree\<close>

text \<open>The stack after the inner loop: the sums among the children, each with its new dictionary.\<close>

fun open_sums :: "'s delay list \<Rightarrow> nat \<Rightarrow> ('s delay list \<times> nat) list" where
  "open_sums [] i = []"
| "open_sums (d # ds) i = (case additive_parts d of Some cs \<Rightarrow> [(cs, i)] | None \<Rightarrow> []) @ open_sums ds (Suc i)"

lemma open_sums_ids: "(cs, j) \<in> set (open_sums ds i) \<longleftrightarrow> i \<le> j \<and> j < i + length ds \<and> ds ! (j - i) = AdditiveDelay cs"
proof (induction ds i rule: open_sums.induct)
  case (2 d ds i)
  have "(cs, j) \<in> set (case additive_parts d of Some cs \<Rightarrow> [(cs, i)] | None \<Rightarrow> []) \<longleftrightarrow> j = i \<and> d = AdditiveDelay cs"
    by (cases d) (auto simp: additive_parts_def)
  moreover have "(d # ds) ! (j - i) = (if j = i then d else ds ! (j - Suc i))" if "i \<le> j"
    using that by (simp add: nth_Cons')
  ultimately show ?case using 2 by (cases "j = i"; cases "i \<le> j") simp_all
qed simp

lemma open_sums_distinct: "distinct (map snd (open_sums ds i))"
proof (induction ds i rule: open_sums.induct)
  case (2 d ds i)
  have "i \<notin> snd ` set (open_sums ds (Suc i))" by (auto simp: open_sums_ids)
  with 2 show ?case by (auto split: option.splits)
qed simp

lemma fill_children_result:
  assumes "current < length store" "store ! current = SumDict cs"
  shows "fill_children N current ds store stack =
    (store[current := SumDict (cs @ [length store..<length store + length ds])] @ map (delay_to_shallow_dict N) ds,
     stack @ open_sums ds (length store))"
  using assms
proof (induction ds arbitrary: store stack cs)
  case Nil
  then show ?case by (simp add: list_update_id [of store current, folded Nil(2)] flip: Nil(2))
next
  case (Cons d ds)
  let ?store = "store[current := SumDict (cs @ [length store])] @ [delay_to_shallow_dict N d]"
  have a: "append_child current (length store) (store @ [delay_to_shallow_dict N d]) = ?store"
    using Cons.prems by (simp add: append_child_def nth_append list_update_append)
  have u: "length store # [Suc (length store)..<Suc (length store + length ds)] =
      [length store..<Suc (length store + length ds)]"
    by (rule upt_conv_Cons [symmetric]) simp
  have "current < length ?store" "?store ! current = SumDict (cs @ [length store])"
    using Cons.prems by (simp_all add: nth_append)
  from Cons.IH [OF this] Cons.prems show ?case
    by (simp add: Let_def a u list_update_append del: upt_Suc split: option.splits)
qed

text \<open>The open sums of a stack: different dictionaries, all of them still empty.\<close>

definition stack_ok :: "dict_obj list \<Rightarrow> ('s delay list \<times> nat) list \<Rightarrow> bool" where
  "stack_ok store stack \<longleftrightarrow> distinct (map snd stack) \<and>
     (\<forall>(ds, i)\<in>set stack. i < length store \<and> store ! i = SumDict [])"

lemma stack_ok_fill:
  fixes N :: "'s names"
  assumes "stack_ok store (rest @ [(ds, current)])"
  defines "store' \<equiv> store[current := SumDict [length store..<length store + length ds]]
    @ map (delay_to_shallow_dict N) ds"
  shows "fill_children N current ds store rest = (store', rest @ open_sums ds (length store))"
    and "stack_ok store' (rest @ open_sums ds (length store))"
proof -
  have c: "current < length store" "store ! current = SumDict []" "current \<notin> snd ` set rest"
    and rest: "distinct (map snd rest)" "\<forall>(cs, i)\<in>set rest. i < length store \<and> store ! i = SumDict []"
    using assms(1) by (auto simp: stack_ok_def)
  show "fill_children N current ds store rest = (store', rest @ open_sums ds (length store))"
    using fill_children_result [OF c(1,2)] by (simp add: store'_def)
  have "i < length store' \<and> store' ! i = SumDict []" if "(cs, i) \<in> set rest" for cs i
  proof -
    from that rest(2) have "i < length store" "store ! i = SumDict []" by auto
    moreover from that c(3) have "i \<noteq> current" by force
    ultimately show ?thesis by (simp add: store'_def nth_append)
  qed
  moreover have "i < length store' \<and> store' ! i = SumDict []" if "(cs, i) \<in> set (open_sums ds (length store))" for cs i
    using that by (auto simp: open_sums_ids store'_def nth_append)
  moreover have "snd ` set rest \<inter> snd ` set (open_sums ds (length store)) = {}"
    using rest(2) by (force simp: open_sums_ids)
  ultimately show "stack_ok store' (rest @ open_sums ds (length store))"
    using rest(1) open_sums_distinct by (fastforce simp: stack_ok_def)
qed

lemma delay_dict_loop_built:
  "stack_ok store stack \<Longrightarrow>
    length store \<le> length (delay_dict_loop N store stack)
    \<and> (\<forall>i<length store. i \<notin> snd ` set stack \<longrightarrow> delay_dict_loop N store stack ! i = store ! i)
    \<and> (\<forall>(ds, i)\<in>set stack. built N (delay_dict_loop N store stack) (AdditiveDelay ds) i)"
proof (induction N store stack rule: delay_dict_loop.induct)
  case (1 N store stack)
  show ?case
  proof (cases stack rule: rev_cases)
    case Nil
    then show ?thesis by (simp add: delay_dict_loop.simps)
  next
    case (snoc rest entry)
    obtain ds current where entry: "entry = (ds, current)" by (metis prod.exhaust)
    let ?n = "length store"
    define store' where "store' = store[current := SumDict [?n..<?n + length ds]] @ map (delay_to_shallow_dict N) ds"
    define stack' where "stack' = rest @ open_sums ds ?n"
    define final where "final = delay_dict_loop N store' stack'"
    have ok: "stack_ok store (rest @ [(ds, current)])" using "1.prems" by (simp add: snoc entry)
    have fill: "fill_children N current ds store rest = (store', stack')" and ok': "stack_ok store' stack'"
      using stack_ok_fill [OF ok] by (simp_all add: store'_def stack'_def)
    have loop: "delay_dict_loop N store stack = final"
      by (subst delay_dict_loop.simps) (simp add: snoc entry fill final_def)
    have IH: "length store' \<le> length final"
      "\<And>i. i < length store' \<Longrightarrow> i \<notin> snd ` set stack' \<Longrightarrow> final ! i = store' ! i"
      "\<And>cs i. (cs, i) \<in> set stack' \<Longrightarrow> built N final (AdditiveDelay cs) i"
      using "1.IH" [OF _ _ _ ok'] fill unfolding final_def by (fastforce simp: snoc entry)+
    have c: "current < ?n" "current \<notin> snd ` set rest" using ok by (auto simp: stack_ok_def)
    have len: "length store' = ?n + length ds" by (simp add: store'_def)
    have child: "built N final (ds ! k) (?n + k)" if k: "k < length ds" for k
    proof (cases "additive_parts (ds ! k)")
      case None
      then have "?n + k \<notin> snd ` set stack'"
        using ok k by (auto simp: stack'_def open_sums_ids stack_ok_def)
      with IH(2) [of "?n + k"] k len IH(1) None show ?thesis
        by (simp add: built_leaf shallow_leaf store'_def nth_append)
    next
      case (Some cs)
      with k have "(cs, ?n + k) \<in> set stack'" by (simp add: stack'_def open_sums_ids)
      with IH(3) Some show ?thesis by simp
    qed
    have "current \<notin> snd ` set stack'" using c by (auto simp: stack'_def open_sums_ids)
    with IH(2) [of current] c len have "final ! current = SumDict [?n..<?n + length ds]"
      by (simp add: store'_def nth_append)
    moreover have "current < length final" using c len IH(1) by simp
    ultimately have "built N final (AdditiveDelay ds) current"
      using c(1) child by (auto simp: list_all2_conv_all_nth)
    moreover have "final ! i = store ! i" if "i < ?n" "i \<notin> snd ` set stack" for i
    proof -
      have "i \<notin> snd ` set stack'" "i \<noteq> current"
        using that by (auto simp: stack'_def open_sums_ids snoc entry)
      with IH(2) [of i] that len show ?thesis by (simp add: store'_def nth_append)
    qed
    moreover have "built N final (AdditiveDelay cs) i" if "(cs, i) \<in> set rest" for cs i
      using that by (intro IH(3)) (simp add: stack'_def)
    ultimately show ?thesis using len IH(1) unfolding loop by (auto simp: snoc entry simp del: built.simps)
  qed
qed

lemma delay_to_dict_recursive: "delay_to_dict N d = delay_dict N d"
proof (cases "additive_parts d")
  case None
  then show ?thesis by (simp add: delay_to_dict_def shallow_leaf read_dict.simps)
next
  case (Some ds)
  then have d: "d = AdditiveDelay ds" by simp
  have "stack_ok [SumDict []] [(ds, 0)]" by (simp add: stack_ok_def)
  from delay_dict_loop_built [OF this, of N]
  have "built N (delay_dict_loop N [SumDict []] [(ds, 0)]) d 0" by (simp add: d del: built.simps)
  from read_built [OF this] show ?thesis by (simp add: delay_to_dict_def d del: delay_dict.simps)
qed

section \<open>Nothing is lost\<close>

lemma val_of_num_inj [simp]: "val_of_num a = val_of_num b \<longleftrightarrow> a = b"
  by (cases a; cases b) auto

lemma opt_num_inj [simp]: "opt_num a = opt_num b \<longleftrightarrow> a = b"
proof -
  have "val_of_num c \<noteq> VNone" for c by (cases c) auto
  then show ?thesis by (metis opt_num_def option.case_eq_if option.expand val_of_num_inj)
qed

lemma opt_inj [simp]:
  "opt_int m = opt_int n \<longleftrightarrow> m = n" "opt_str s = opt_str t \<longleftrightarrow> s = t"
  by (auto simp: opt_int_def opt_str_def split: option.splits)

text \<open>Trees without objects of the user.\<close>

fun builtin_delay :: "'s delay \<Rightarrow> bool" where
  "builtin_delay (AdditiveDelay ds) = list_all builtin_delay ds"
| "builtin_delay (CustomDelay f) = False"
| "builtin_delay (StatefulCustomDelay f) = False"
| "builtin_delay (UserDelay f) = False"
| "builtin_delay d = True"

lemma map_val_inj [simp]: "map val_of_num xs = map val_of_num ys \<longleftrightarrow> xs = ys"
  by (metis list.inj_map_strong val_of_num_inj)

lemma map_inj_members:
  assumes "map f xs = map f ys" "list_all P xs" "list_all P ys"
    and "\<And>x y. x \<in> set xs \<Longrightarrow> f x = f y \<Longrightarrow> P x \<Longrightarrow> P y \<Longrightarrow> x = y"
  shows "xs = ys"
  by (rule list.inj_map_strong [OF _ assms(1)]) (use assms(2-4) in \<open>auto simp: list_all_iff\<close>)

lemma delay_dict_inj: "delay_dict N d = delay_dict N e \<Longrightarrow> builtin_delay d \<Longrightarrow> builtin_delay e \<Longrightarrow> d = e"
proof (induction d arbitrary: e)
  case (AdditiveDelay ds)
  then obtain es where e: "e = AdditiveDelay es" by (cases e) (auto simp: py_dict_def)
  have "ds = es"
    by (rule map_inj_members [of "delay_dict N" _ _ builtin_delay])
      (use AdditiveDelay in \<open>auto simp: e py_dict_def\<close>)
  then show ?case by (simp add: e)
qed (case_tac e; simp add: py_dict_def)+

lemma stop_to_dict_inj: "stop_to_dict N s = stop_to_dict N t \<Longrightarrow> builtin_stop s \<Longrightarrow> builtin_stop t \<Longrightarrow> s = t"
proof (induction s arbitrary: t)
  case (AnyStop ss)
  then obtain ts where t: "t = AnyStop ts" by (cases t) (auto simp: py_dict_def)
  have "ss = ts"
    by (rule map_inj_members [of "stop_to_dict N" _ _ builtin_stop])
      (use AnyStop in \<open>auto simp: t py_dict_def\<close>)
  then show ?case by (simp add: t)
next
  case (AllStop ss)
  then obtain ts where t: "t = AllStop ts" by (cases t) (auto simp: py_dict_def)
  have "ss = ts"
    by (rule map_inj_members [of "stop_to_dict N" _ _ builtin_stop])
      (use AllStop in \<open>auto simp: t py_dict_def\<close>)
  then show ?case by (simp add: t)
qed (case_tac t; simp add: py_dict_def)+

section \<open>Properties\<close>

text \<open>
  C32: the loop that writes the delay tree agrees with the recursive reading of it. The stack of sums
  and the shared dictionary objects end, whatever the nesting, in the dictionary that a recursion over
  the tree gives, with the strategies in their order.
\<close>

theorem delay_to_dict_refines:
  "delay_to_dict N d = (case d of
      AdditiveDelay ds \<Rightarrow> py_dict [(''type'', VStr ''additive''), (''strategies'', VList (map (delay_to_dict N) ds))]
    | _ \<Rightarrow> (case delay_to_shallow_dict N d of LeafDict v \<Rightarrow> v | SumDict _ \<Rightarrow> VNone))"
proof -
  have "delay_to_dict N = delay_dict N" by (rule ext) (rule delay_to_dict_recursive)
  then show ?thesis by (cases d) auto
qed

text \<open>
  C33: \<open>to_dict()\<close> loses nothing of a built-in configuration. Two policies whose stop and delay trees
  hold no user objects and that have the same dictionary agree in those trees, with the Python type of
  every number, and in their name, history limit, testing flag and budget key.
\<close>

theorem to_dict_faithful:
  assumes "policy_to_dict N p budgets = policy_to_dict N q budgets"
    and "builtin_stop (pol_stop p)" "builtin_stop (pol_stop q)"
    and "builtin_delay (pol_delay p)" "builtin_delay (pol_delay q)"
  shows "pol_stop p = pol_stop q \<and> pol_delay p = pol_delay q \<and> pol_name p = pol_name q
    \<and> pol_history_limit p = pol_history_limit q \<and> pol_testing p = pol_testing q
    \<and> (pol_budget p = None \<longleftrightarrow> pol_budget q = None)
    \<and> (pol_budget p \<noteq> None \<longrightarrow> pol_budget_key p = pol_budget_key q)"
proof -
  have d: "stop_to_dict N (pol_stop p) = stop_to_dict N (pol_stop q)"
    "delay_dict N (pol_delay p) = delay_dict N (pol_delay q)"
    "pol_name p = pol_name q" "pol_testing p = pol_testing q"
    "budget_to_dict p budgets = budget_to_dict q budgets"
    "(case pol_history_limit p of None \<Rightarrow> VNone | Some n \<Rightarrow> VNat n)
      = (case pol_history_limit q of None \<Rightarrow> VNone | Some n \<Rightarrow> VNat n)"
    using assms(1) by (auto simp: policy_to_dict_def py_dict_def delay_to_dict_recursive)
  moreover have "pol_history_limit p = pol_history_limit q" using d(6) by (auto split: option.splits)
  moreover have "pol_budget p = None \<longleftrightarrow> pol_budget q = None"
    "pol_budget p \<noteq> None \<longrightarrow> pol_budget_key p = pol_budget_key q"
    using d(5) by (auto simp: budget_to_dict_def py_dict_def split: option.splits)
  ultimately show ?thesis using stop_to_dict_inj [OF d(1)] delay_dict_inj [OF d(2)] assms(2-5) by blast
qed

text \<open>Names for concrete runs: every user object is anonymous.\<close>

definition ex_names :: "'s names" where
  "ex_names = (let anonymous = \<lparr>ca_name = None, ca_module = None, ca_qualname = None\<rparr> in
     \<lparr>nm_stop_class = (\<lambda>f. ''Stop''), nm_condition_class = (\<lambda>f g. ''Condition''),
      nm_delay_class = (\<lambda>f. ''Delay''), nm_predicate = (\<lambda>f. anonymous),
      nm_condition_callback = (\<lambda>f. anonymous), nm_delay_callback = (\<lambda>f. anonymous),
      nm_state_callback = (\<lambda>f. anonymous), nm_exhausted_callback = (\<lambda>f. anonymous),
      nm_exception_factory = (\<lambda>f. anonymous), nm_handler = (\<lambda>f. anonymous),
      nm_exception_qualname = et_name\<rparr>)"

theorem to_dict_faithful_witness:
  "pol_stop (ex_policy :: world policy) = pol_stop (ex_policy\<lparr>pol_raise_last := True\<rparr> :: world policy)
    \<and> pol_delay (ex_policy :: world policy) = pol_delay (ex_policy\<lparr>pol_raise_last := True\<rparr> :: world policy)"
proof -
  let ?p = "ex_policy :: world policy"
  have "policy_to_dict ex_names ?p (\<lambda>b. ex_b0) = policy_to_dict ex_names (?p\<lparr>pol_raise_last := True\<rparr>) (\<lambda>b. ex_b0)"
    by (simp add: policy_to_dict_def exhaustion_to_dict_def exception_exhaustion_to_dict_def
        result_exhaustion_to_dict_def budget_to_dict_def ex_policy_def default_policy_def)
  from to_dict_faithful [OF this] show ?thesis by (simp add: ex_policy_def default_policy_def)
qed

end
