(* ===== verification/Facade.thy ===== *)
theory Facade
  imports Main Blocks Decorator Serialization
begin

text \<open>
  The methods of \<open>RetryPolicy\<close> that hand over to \<open>internal/\<close>, to a retry block or to the decorator, with the
  defaults of their arguments, and the views of a block and its attempts.
\<close>

section \<open>Diagnostics and previews\<close>

definition policy_warnings :: "'u pyenv \<Rightarrow> 'u world_scheme policy \<Rightarrow> ('u, policy_warning list) io" where
  "policy_warnings E p = compute_warnings E p"

definition policy_doctor :: "'u pyenv \<Rightarrow> 'u world_scheme policy \<Rightarrow> ('u, health_report) io" where
  "policy_doctor E p = doctor_policy E p"

text \<open>\<open>attempts: int = 5\<close>\<close>

definition attempts_argument :: "pyval option \<Rightarrow> pyval" where
  "attempts_argument given = (case given of None \<Rightarrow> VInt 5 | Some v \<Rightarrow> v)"

definition policy_simulate ::
    "'u pyenv \<Rightarrow> 'u world_scheme policy \<Rightarrow> pyval option \<Rightarrow> ('u, simulation_attempt list) io" where
  "policy_simulate E p given = simulate_policy E p (attempts_argument given)"

definition policy_explain ::
    "'u pyenv \<Rightarrow> 'u world_scheme names \<Rightarrow> 'u world_scheme policy \<Rightarrow> ('u, string) io" where
  "policy_explain E N p = explain_policy E N p"

definition policy_estimate_load :: "'u world_scheme policy \<Rightarrow> pyval \<Rightarrow> ('u, load_estimate) io" where
  "policy_estimate_load p concurrent_executions w =
     (estimate_policy_load p (w_budgets w) concurrent_executions, w)"

text \<open>\<open>concurrent_executions\<close> stays \<open>None\<close> when it is not given.\<close>

definition policy_preview ::
    "'u pyenv \<Rightarrow> 'u world_scheme policy \<Rightarrow> pyval option \<Rightarrow> pyval option \<Rightarrow> ('u, string) io" where
  "policy_preview E p given concurrent_executions =
     preview_policy E p (attempts_argument given) concurrent_executions"

definition to_dict :: "'u world_scheme names \<Rightarrow> 'u world_scheme policy \<Rightarrow> ('u, pyval) io" where
  "to_dict N p w = (Ok (policy_to_dict N p (w_budgets w)), w)"

section \<open>Blocks and decorators\<close>

definition name_argument :: "string option \<Rightarrow> string" where
  "name_argument given = (case given of None \<Rightarrow> ''retry_block'' | Some name \<Rightarrow> name)"

definition policy_iter ::
    "'u pyenv \<Rightarrow> 'u world_scheme policy \<Rightarrow> string option \<Rightarrow> ('u, block_iterator) io" where
  "policy_iter E p given = block_init E p (name_argument given)"

text \<open>\<open>async_iter\<close> builds the same object of the other class.\<close>

definition policy_async_iter ::
    "'u pyenv \<Rightarrow> 'u world_scheme policy \<Rightarrow> string option \<Rightarrow> ('u, block_iterator) io" where
  "policy_async_iter E p given = block_init E p (name_argument given)"

definition policy_aiter :: "'u pyenv \<Rightarrow> 'u world_scheme policy \<Rightarrow> ('u, block_iterator) io" where
  "policy_aiter E p = policy_async_iter E p None"

definition policy_call :: "'s policy \<Rightarrow> shape \<Rightarrow> 's decorated res" where
  "policy_call p function = make_decorated p function"

definition policy_resolve_tracked :: "'s policy \<Rightarrow> result \<Rightarrow> ('s, outcome) py" where
  "policy_resolve_tracked p r = resolve_tracked_result p r"

text \<open>The properties of a block iterator and of an attempt context.\<close>

definition iterator_started_at :: "block_iterator \<Rightarrow> flt" where
  "iterator_started_at b = rn_started_at (fw_runtime (bi_flow b))"

definition iterator_attempts :: "block_iterator \<Rightarrow> attempt list" where
  "iterator_attempts b = rn_attempts (fw_runtime (bi_flow b))"

definition iterator_attempt_number :: "block_iterator \<Rightarrow> nat" where
  "iterator_attempt_number b = rn_attempt_number (fw_runtime (bi_flow b))"

definition context_number :: "block_iterator \<Rightarrow> nat" where
  "context_number b = iterator_attempt_number b"

lemma next_numbers_attempt:
  assumes "\<not> bi_finished b"
  shows "\<exists>b'. block_next (b, w) = (Ok (context_number b'), (b', w)) \<and>
    context_number b' = Suc (iterator_attempt_number b)"
  using assms
  by (simp add: block_next_def in_flow_def next_attempt_eq context_number_def iterator_attempt_number_def
      begin_attempt_def)

end
