(* ===== verification/Advice.thy ===== *)
theory Advice
  imports Main Previews
begin

text \<open>
  What the diagnostics, simulations and estimates guarantee about the policies they describe.
\<close>

section \<open>The stack loop is a search of the tree\<close>

fun tree_ex :: "('s delay \<Rightarrow> bool) \<Rightarrow> 's delay \<Rightarrow> bool" where
  "tree_ex test (AdditiveDelay ds) \<longleftrightarrow> test (AdditiveDelay ds) \<or> list_ex (tree_ex test) ds"
| "tree_ex test d \<longleftrightarrow> test d"

lemma stack_any_iff: "stack_any test ds \<longleftrightarrow> list_ex (tree_ex test) ds"
proof (induction "sum_list (map delay_weight ds)" arbitrary: ds rule: less_induct)
  case less
  show ?case
  proof (cases ds rule: rev_cases)
    case Nil
    then show ?thesis by (subst stack_any.simps) simp
  next
    case (snoc rest child)
    note weights = less [of "rest"] less [of "rest @ inner" for inner]
    show ?thesis
      using delay_weight_pos [of child] weights
      by (subst stack_any.simps, cases child)
        (auto simp: snoc additive_parts_def list_ex_iff)
  qed
qed

section \<open>Delays that are always zero\<close>

lemma is_zero_cases: "is_zero a \<Longrightarrow> a = PInt 0 \<or> a = PFlt 0"
  using fl_inf_pos by (cases a) (auto simp: num_eq_def sec_def split: if_splits simp del: fl_inf_pos)

definition gives_zero :: "('s, pyval) py \<Rightarrow> bool" where
  "gives_zero m \<longleftrightarrow> (\<forall>w v w'. m w = (Ok v, w') \<longrightarrow> ensure_resolved_delay v = Ok 0)"

lemma resolved_zero: "ensure_resolved_delay (VFloat 0) = Ok 0" "ensure_resolved_delay (VInt 0) = Ok 0"
  using MAX_SLEEP_pos by (simp_all add: py_float_def flt_finite_def sec_def not_less)

lemma gives_zero_num: "is_zero a \<Longrightarrow> gives_zero (py_return (val_of_num a))"
  using is_zero_cases [of a] resolved_zero
  by (auto simp: gives_zero_def simp del: ensure_resolved_delay.simps)

lemma zero_num_to_flt: "is_zero a \<Longrightarrow> num_to_flt a = 0"
  using is_zero_cases [of a] by (auto simp: num_to_flt_def py_float_def sec_def)

lemma num_min_zero:
  "nonneg_num a \<Longrightarrow> is_zero b \<Longrightarrow> is_zero (num_min a b)"
  "is_zero a \<Longrightarrow> safe_num b \<Longrightarrow> is_zero (num_min a b)"
  using is_zero_cases [of a] is_zero_cases [of b] fl_inf_pos
  by (cases a; cases b; force simp: num_min_def num_eq_def safe_num_iff sec_def mult_less_0_iff
      zero_less_mult_iff split: if_splits simp del: fl_inf_pos)+

lemma num_max_zero: "is_zero a \<Longrightarrow> is_zero b \<Longrightarrow> is_zero (num_max a b)"
  by (simp add: num_max_def)

lemma fl_zero: "fl_mul 0 x = 0" "fl_add 0 0 = 0"
proof -
  show "fl_add 0 0 = 0" using fl_add_sec [of 0 0] by (simp add: sec_def)
  have "rne 0 k = 0" for k using rne_exact [of 0 k] by simp
  then have "rnd 0 k = 0" for k by (simp add: rnd_def rnd_pos_def Let_def)
  then show "fl_mul 0 x = 0" by (simp add: fl_mul_def saturate_def)
qed

lemma linear_zero:
  assumes wf: "builtin_accepted (LinearDelay start step maximum :: 's delay)"
    and z: "zero_node (LinearDelay start step maximum :: 's delay)"
    and l: "linear_next start step maximum n = Ok d"
  shows "is_zero d"
proof -
  obtain g s where g: "num_mul step (PInt (int (retries_before n))) = Ok g" "num_add start g = Ok s"
    and d: "d = num_min s (case maximum of Some m \<Rightarrow> m | None \<Rightarrow> PFlt MAX_SLEEP_SECONDS)"
    using l by (auto simp: linear_next_def res_bind_Ok_iff Let_def)
  have ceiling: "safe_num (case maximum of Some m \<Rightarrow> m | None \<Rightarrow> PFlt MAX_SLEEP_SECONDS)"
    using wf by (auto split: option.splits)
  have "nonneg_num start" using wf by (cases start) (auto simp: safe_num_iff)
  moreover from g(1) have "nonneg_num g" by (rule num_mul_nonneg [rotated 2]) (use wf in auto)
  ultimately have s: "nonneg_num s" using g(2) by (rule num_add_nonneg)
  show ?thesis
  proof (cases "zero_maximum maximum")
    case True
    then show ?thesis using num_min_zero(1) [OF s] by (auto simp: d zero_maximum_def split: option.splits)
  next
    case False
    with z have "is_zero start" "is_zero step" by auto
    then have "is_zero s"
      using g is_zero_cases [of start] is_zero_cases [of step]
      by (auto simp: fl_zero py_float_def sec_def res_bind_Ok_iff)
    then show ?thesis unfolding d by (rule num_min_zero(2)) (rule ceiling)
  qed
qed

lemma exponential_zero:
  assumes E: "env_ok E" and wf: "builtin_accepted (ExponentialDelay base factor maximum :: 's delay)"
    and z: "zero_node (ExponentialDelay base factor maximum :: 's delay)"
  shows "is_zero (exponential_next E base factor maximum n)"
proof (cases "num_eq base (PFlt 0)")
  case False
  moreover have "is_zero base \<Longrightarrow> num_eq base (PFlt 0)"
    using is_zero_cases [of base] fl_inf_pos by (auto simp: num_eq_def sec_def)
  ultimately obtain m where m: "maximum = Some m" "is_zero m"
    using z by (auto simp: zero_maximum_def split: option.splits)
  have "nonneg_num (exponential_value E base factor n)"
    by (rule exponential_value_nonneg [OF E]) (use wf in auto)
  from num_min_zero(1) [OF this m(2)] False m(1) show ?thesis
    by (simp add: exponential_next_def Let_def)
qed (simp add: exponential_next_def num_eq_def sec_def)

lemma draw_zero:
  assumes "env_ok E"
  shows "gives_zero (py_bind (draw_uniform E seed n 0 0) (\<lambda>x. py_return (VFloat x)))"
proof -
  have "env_uniform E s 0 0 = 0" "env_entropy E k 0 0 = 0" for s k
    using assms unfolding env_ok_def by (metis antisym order_refl)+
  then show ?thesis
    using resolved_zero by (auto simp: gives_zero_def draw_uniform_def py_bind_def py_return_def
        simp del: ensure_resolved_delay.simps split: option.splits)
qed

lemma random_exponential_zero:
  assumes E: "env_ok E"
    and wf: "builtin_accepted (RandomExponentialDelay base factor minimum maximum seed :: 'u world_scheme delay)"
    and z: "zero_node (RandomExponentialDelay base factor minimum maximum seed :: 'u world_scheme delay)"
  shows "gives_zero (random_exponential_next E base factor minimum maximum seed n :: ('u, pyval) io)"
proof (cases "num_eq base (PFlt 0)")
  case True
  then show ?thesis
    using z zero_num_to_flt [of minimum] resolved_zero
    by (simp add: random_exponential_next_def gives_zero_def py_return_def del: ensure_resolved_delay.simps)
next
  case False
  moreover have "is_zero base \<Longrightarrow> num_eq base (PFlt 0)"
    using is_zero_cases [of base] fl_inf_pos by (auto simp: num_eq_def sec_def)
  ultimately obtain m where m: "maximum = Some m" "is_zero m"
    using z by (auto simp: zero_maximum_def split: option.splits)
  have "nonneg_num (exponential_value E base factor n)"
    by (rule exponential_value_nonneg [OF E]) (use wf in auto)
  from num_min_zero(1) [OF this m(2)]
  have "is_zero (num_max minimum (num_min (exponential_value E base factor n) m))"
    using z by (intro num_max_zero) auto
  with False m(1) z draw_zero [OF E] show ?thesis
    by (simp add: random_exponential_next_def Let_def zero_num_to_flt)
qed

lemma leaf_zero:
  assumes E: "env_ok E" and wf: "builtin_accepted d" and z: "zero_node d" and leaf: "additive_parts d = None"
  shows "gives_zero (leaf_next E d n)"
proof (cases d)
  case (FixedDelay a)
  then show ?thesis using z gives_zero_num by simp
next
  case (LinearDelay start step maximum)
  have "is_zero x" if "linear_next start step maximum n = Ok x" for x
    by (rule linear_zero [OF wf [unfolded LinearDelay] z [unfolded LinearDelay] that])
  with gives_zero_num show ?thesis
    by (fastforce simp: LinearDelay gives_zero_def py_bind_def py_lift_def py_return_def split: res.splits
        simp del: ensure_resolved_delay.simps)
next
  case (ExponentialDelay base factor maximum)
  have "is_zero (exponential_next E base factor maximum n)"
    by (rule exponential_zero [OF E wf [unfolded ExponentialDelay] z [unfolded ExponentialDelay]])
  then show ?thesis by (simp add: ExponentialDelay gives_zero_num)
next
  case (ChainDelay ds)
  then have "is_zero (chain_next ds n)"
    using wf z by (auto simp: chain_next_def Let_def list_all_iff)
  then show ?thesis using gives_zero_num by (simp add: ChainDelay)
next
  case (RandomDelay minimum maximum seed)
  then show ?thesis using z draw_zero [OF E] by (simp add: random_next_def zero_num_to_flt)
next
  case (RandomExponentialDelay base factor minimum maximum seed)
  then show ?thesis using random_exponential_zero [OF E] wf z by simp
qed (use wf leaf in \<open>auto simp: additive_parts_def\<close>)

lemma leaf_tree_zero:
  assumes "env_ok E" "builtin_accepted d" "zero_node d" "additive_parts d = None"
    and t: "tree_value E None n d w = (Ok x, w')"
  shows "x = 0"
proof -
  have "tree_value E None n d = py_bind (leaf_next E d n) (\<lambda>v. py_lift (ensure_resolved_delay v))"
    using assms(4) by (simp add: tree_value_leaf resolve_leaf_def split: delay.splits)
  with t obtain v w1 where v: "leaf_next E d n w = (Ok v, w1)" "ensure_resolved_delay v = Ok x"
    by (auto simp del: leaf_next.simps ensure_resolved_delay.simps elim!: py_bind_OkD)
  with leaf_zero [OF assms(1-4), of n] have "ensure_resolved_delay v = Ok 0"
    unfolding gives_zero_def by blast
  with v(2) show ?thesis by simp
qed

lemma tree_zero:
  assumes E: "env_ok E"
  shows "builtin_accepted d \<Longrightarrow> \<not> tree_ex (\<lambda>d. \<not> zero_node d) d \<Longrightarrow> tree_value E None n d w = (Ok x, w') \<Longrightarrow> x = 0"
proof (induction d arbitrary: x w w')
  case (AdditiveDelay ds)
  then obtain xs where xs: "py_map (tree_value E None n) ds w = (Ok xs, w')"
    and x: "x = min (env_sum E xs) MAX_SLEEP_SECONDS"
    by (auto elim!: py_bind_OkD)
  have "\<forall>y\<in>set xs. y = 0"
    by (rule py_map_all [OF _ xs]) (use AdditiveDelay in \<open>force simp: list_all_iff list_ex_iff\<close>)
  then have "env_sum E xs = 0" using E by (simp add: env_ok_def)
  then show ?case using MAX_SLEEP_pos by (simp add: x)
qed (rule leaf_tree_zero [OF E]; simp add: additive_parts_def del: tree_value.simps)+

lemma next_delay_zero:
  assumes E: "env_ok E" and wf: "builtin_accepted d" and z: "delay_is_always_zero d"
    and n: "next_delay E d n w = (Ok v, w')"
  shows "ensure_resolved_delay v = Ok 0"
proof (cases "additive_parts d")
  case None
  moreover from None z have "zero_node d"
    by (cases d) (auto simp: delay_is_always_zero_def stack_any_iff additive_parts_def)
  ultimately show ?thesis
    using n leaf_zero [OF E wf] unfolding next_delay_def gives_zero_def by fastforce
next
  case (Some ds)
  then have d: "d = AdditiveDelay ds" by simp
  have "next_delay E d n = py_bind (tree_value E None n d) (\<lambda>x. py_return (VFloat x))"
    by (simp add: next_delay_def resolve_additive_tree_value d del: tree_value.simps)
  with n obtain x where x: "tree_value E None n d w = (Ok x, w')" and v: "v = VFloat x"
    by (auto simp del: tree_value.simps elim!: py_bind_OkD)
  have "\<not> tree_ex (\<lambda>d. \<not> zero_node d) d"
    using z by (simp add: delay_is_always_zero_def stack_any_iff)
  from tree_zero [OF E wf this x] resolved_zero(1) show ?thesis by (simp only: v)
qed

section \<open>Estimates\<close>

lemma estimate_attempts_eq:
  "estimate_attempts s = (known_attempt_limit s, stop_is_infinite s,
    \<not> stop_is_infinite s \<and> known_attempt_limit s = None)"
proof (induction s rule: estimate_attempts.induct)
  case (3 ss)
  let ?f = "\<lambda>s. (known_attempt_limit s, stop_is_infinite s, \<not> stop_is_infinite s \<and> known_attempt_limit s = None)"
  have m: "map estimate_attempts ss = map ?f ss" using 3 by (simp cong: map_cong)
  have "map (\<lambda>(m, u, p). if u then None else m) (map ?f ss) = map known_attempt_limit ss"
    by (auto simp: infinite_no_limit)
  then have b: "known_limits (map (\<lambda>(m, u, p). if u then None else m) (map estimate_attempts ss))
      = known_limits (map known_attempt_limit ss)" unfolding m by (rule arg_cong)
  have "list_all (\<lambda>(m, u, p). u) (map ?f ss) = list_all stop_is_infinite ss"
    by (simp add: list_all_iff)
  then have u: "list_all (\<lambda>(m, u, p). u) (map estimate_attempts ss) = list_all stop_is_infinite ss"
    unfolding m .
  have "list_all stop_is_infinite ss \<Longrightarrow> known_limits (map known_attempt_limit ss) = []"
    using infinite_no_limit by (intro known_limits_None) (auto simp: list_all_iff)
  then show ?case
    unfolding estimate_attempts.simps Let_def b u by (auto simp: Let_def)
next
  case (4 ss)
  let ?f = "\<lambda>s. (known_attempt_limit s, stop_is_infinite s, \<not> stop_is_infinite s \<and> known_attempt_limit s = None)"
  have m: "map estimate_attempts ss = map ?f ss" using 4 by (simp cong: map_cong)
  have e: "list_ex (\<lambda>(m, u, p). u) (map ?f ss) = list_ex stop_is_infinite ss"
    "list_all (\<lambda>(m, u, p). m \<noteq> None) (map ?f ss) = list_all (\<lambda>l. l \<noteq> None) (map known_attempt_limit ss)"
    "map fst (map ?f ss) = map known_attempt_limit ss"
    by (simp_all add: list_ex_iff list_all_iff)
  show ?case unfolding estimate_attempts.simps Let_def m e by (auto simp: Let_def)
qed auto

section \<open>Simulations\<close>

lemma simulate_attempt_safe:
  "simulate_attempt E p n elapsed w = (Ok (delay, b), w') \<Longrightarrow> safe_delay delay \<and> (b \<longrightarrow> delay = 0)
    \<and> (\<not> b \<longrightarrow> \<not> never False (should_stop (pol_stop p) (int n) elapsed))"
proof -
  assume a: "simulate_attempt E p n elapsed w = (Ok (delay, b), w')"
  then obtain stop_now w1 where s: "should_stop (pol_stop p) (int n) elapsed w = (Ok stop_now, w1)"
    and rest: "(if stop_now then py_return (0, True)
       else py_bind (safe_next_delay E p n) (\<lambda>delay.
            py_bind (should_stop (pol_stop p) (int n) (fl_add elapsed delay)) (\<lambda>stop_then.
              py_return (if stop_then then (0, True) else (delay, False))))) w1 = (Ok (delay, b), w')"
    unfolding simulate_attempt_def by (elim py_bind_OkD)
  have zero: "safe_delay 0" using MAX_SLEEP_pos by (simp add: safe_delay_def)
  show ?thesis
  proof (cases stop_now)
    case False
    then have "\<not> never False (should_stop (pol_stop p) (int n) elapsed)"
      using s unfolding never_def by (metis fst_conv)
    with rest False zero show ?thesis
      by (auto simp: safe_next_delay_def py_raise_def simp del: ensure_resolved_delay.simps
          dest: ensure_resolved_delay_safe elim!: py_bind_OkD split: if_splits)
  qed (use rest zero in auto)
qed

lemma simulate_loop_shape:
  assumes "simulate_loop E p n left elapsed cumulative w = (Ok s, w')"
  shows "map sa_attempt_number s = [n..<n + length s] \<and> length s \<le> left
    \<and> (0 < left \<longrightarrow> s \<noteq> [])
    \<and> list_all (\<lambda>a. safe_delay (sa_delay a)) s
    \<and> list_all (\<lambda>a. \<not> sa_stops a) (butlast s)
    \<and> (length s < left \<longrightarrow> sa_stops (last s))
    \<and> (\<forall>m. known_attempt_limit (pol_stop p) = Some m \<longrightarrow> length s \<le> max 1 (nat (m - int n + 1)))"
  using assms
proof (induction left arbitrary: n elapsed cumulative w s)
  case (Suc left)
  then obtain delay b w1 where a: "simulate_attempt E p n elapsed w = (Ok (delay, b), w1)"
    and rest: "(let cumulative' = fl_add cumulative delay;
           attempt = \<lparr>sa_attempt_number = n, sa_delay = delay, sa_stops = b, sa_cumulative = cumulative'\<rparr>
       in if b then py_return [attempt]
          else py_bind (simulate_loop E p (n + 1) left (fl_add elapsed delay) cumulative')
                 (\<lambda>later. py_return (attempt # later))) w1 = (Ok s, w')"
    by (auto elim!: py_bind_OkD)
  note safe = simulate_attempt_safe [OF a]
  show ?case
  proof (cases b)
    case False
    let ?a = "\<lparr>sa_attempt_number = n, sa_delay = delay, sa_stops = False, sa_cumulative = fl_add cumulative delay\<rparr>"
    from rest False obtain t where
      t: "simulate_loop E p (n + 1) left (fl_add elapsed delay) (fl_add cumulative delay) w1 = (Ok t, w')"
      and s: "s = ?a # t" by (auto simp: Let_def elim!: py_bind_OkD)
    note IH = Suc.IH [OF t]
    have bound: "length s \<le> max 1 (nat (m - int n + 1))" if m: "known_attempt_limit (pol_stop p) = Some m" for m
    proof -
      from safe False known_limit_never [OF m] have "\<not> m \<le> int n" by blast
      moreover from IH m have "length t \<le> max 1 (nat (m - int (n + 1) + 1))" by blast
      ultimately show ?thesis by (simp add: s)
    qed
    have "t = [] \<or> butlast s = ?a # butlast t" by (simp add: s)
    moreover have "t = [] \<Longrightarrow> left = 0" using IH by auto
    ultimately show ?thesis using IH safe bound
      by (auto simp: s upt_conv_Cons)
  qed (use rest safe in \<open>auto simp: Let_def\<close>)
qed auto

section \<open>Properties\<close>

text \<open>
  C27: what a delay that the diagnostics report as always zero gives, at every attempt below \<open>2 ^ 50\<close> and for every random
  draw: exactly zero seconds, or \<open>OverflowError\<close>, for the trees the constructors build of
  built-in strategies. It raises exactly where a linear delay with a float start and an integer step overflows, and a
  delay reported as always zero may contain one: its \<open>maximum=0\<close> is applied after the addition. So the warnings
  \<open>no_delay\<close> and \<open>tight_loop_risk\<close> are right but for that case.
\<close>

theorem always_zero_sound:
  assumes "env_ok E" "constructed d" "delay_is_always_zero d" "n < 2 ^ 50"
  shows "if linear_overflows d n then fst (next_delay E d n w) = Raise overflow_error
    else \<exists>v w'. next_delay E d n w = (Ok v, w') \<and> ensure_resolved_delay v = Ok 0"
proof -
  note acc = constructed_accepted [OF assms(2)]
  show ?thesis
    using next_delay_accepted [OF assms(1) acc assms(4), of w] next_delay_zero [OF assms(1) acc assms(3)]
    by (metis fst_conv)
qed

text \<open>An accepted delay that is reported as always zero and overflows at its third attempt.\<close>

lemma zero_delay_overflows:
  "\<exists>d. mk_LinearDelay (VFloat 0) (VInt (2 ^ 1023)) (Some (VInt 0)) = Ok d \<and> delay_is_always_zero d
    \<and> fst (next_delay E d 3 w) = Raise overflow_error"
proof -
  let ?d = "LinearDelay (PFlt 0) (PInt (2 ^ 1023)) (Some (PInt 0))"
  have "mk_LinearDelay (VFloat 0) (VInt (2 ^ 1023)) (Some (VInt 0)) = Ok ?d"
    by (simp add: mk_LinearDelay_def ensure_safe_delay_def ensure_non_negative_def py_float_def sec_def
        fl_of_int_1023 ensure_safe_maximum_def flt_finite_def not_less less_imp_le [OF MAX_SLEEP_pos(1)]
        del: power_numeral)
  moreover have "delay_is_always_zero ?d"
    by (simp add: delay_is_always_zero_def stack_any_iff zero_maximum_def num_eq_def del: power_numeral)
  moreover have "int (retries_before 3) = 2" by (simp add: retries_before_def)
  then have "linear_overflows ?d 3"
    by (simp only: linear_overflows.simps prod.case pynum.case py_float_def fl_of_int_1023 option.case)
  then have "fst (next_delay E ?d 3 w) = Raise overflow_error"
    using leaf_overflow [of ?d 3 E w] by (simp add: next_delay_def additive_parts_def del: leaf_next.simps)
  ultimately show ?thesis by blast
qed

lemma ex_zero_delay:
  "delay_is_always_zero (delay_add (FixedDelay (PInt 0)) (LinearDelay (PFlt 0) (PInt 1) (Some (PInt 0))))"
  by (simp add: delay_add_def delay_is_always_zero_def stack_any_iff zero_maximum_def)

lemma ex_zero_constructed:
  "constructed (delay_add (FixedDelay (PInt 0)) (LinearDelay (PFlt 0) (PInt 1) (Some (PInt 0))))"
proof (rule constructed.intros(7))
  have "mk_FixedDelay (VInt 0) = Ok (FixedDelay (PInt 0) :: 's delay)"
    by (simp add: mk_FixedDelay_def ensure_safe_delay_def py_float_def flt_finite_def not_less MAX_SLEEP_SECONDS_def)
  then show "constructed (FixedDelay (PInt 0) :: 's delay)" by (rule constructed.intros)
  have "mk_LinearDelay (VFloat 0) (VInt 1) (Some (VInt 0)) = Ok (LinearDelay (PFlt 0) (PInt 1) (Some (PInt 0)) :: 's delay)"
    by (simp add: mk_LinearDelay_def ensure_safe_delay_def ensure_non_negative_def ensure_safe_maximum_def py_float_def
        flt_finite_def not_less sec_def less_imp_le [OF MAX_SLEEP_pos(1)])
  then show "constructed (LinearDelay (PFlt 0) (PInt 1) (Some (PInt 0)) :: 's delay)" by (rule constructed.intros)
qed

theorem always_zero_sound_witness:
  "\<exists>v w'. next_delay ex_env (delay_add (FixedDelay (PInt 0)) (LinearDelay (PFlt 0) (PInt 1) (Some (PInt 0)))) 3 ex_world
    = (Ok v, w') \<and> ensure_resolved_delay v = Ok 0"
  using always_zero_sound [OF ex_env_ok ex_zero_constructed ex_zero_delay, of 3 ex_world]
  by (simp add: delay_add_def py_float_def retries_before_def del: ensure_resolved_delay.simps)

text \<open>
  The load estimate and the diagnostics agree on every stop tree, and the estimate is the bound the
  executors keep: with a known limit \<open>n\<close> each of the \<open>c\<close> executions makes at most \<open>max 1 n\<close> attempts,
  and the estimated total is \<open>c\<close> times that. It is unbounded exactly for the strategies reported as
  infinite, and partial exactly where neither is known.
\<close>

lemma estimate_is_attempt_limit:
  assumes "estimate_policy_load p budgets (VInt c) = Ok e"
  shows "le_maximum_attempts e = known_attempt_limit (pol_stop p)
    \<and> le_unbounded e = is_forever p
    \<and> le_partial e = (\<not> is_forever p \<and> known_attempt_limit (pol_stop p) = None)
    \<and> le_maximum_total_calls e = map_option (\<lambda>n. c * max 1 n) (known_attempt_limit (pol_stop p))"
proof -
  have "c + c * max 0 (n - 1) = c * max 1 n" for n :: int
    by (simp add: max_def algebra_simps)
  with assms show ?thesis
    by (auto simp: estimate_policy_load_def estimate_attempts_eq is_forever_def Let_def
        option.map_comp comp_def split: if_splits)
qed

lemma estimate_is_attempt_limit_example:
  "\<exists>e. estimate_policy_load ((ex_policy :: unit policy)\<lparr>pol_stop := AnyStop [StopAfterAttempt 4, StopForever]\<rparr>)
      (\<lambda>b. ex_b0) (VInt 10) = Ok e \<and> le_maximum_total_calls e = Some 40"
proof -
  obtain e where e: "estimate_policy_load ((ex_policy :: unit policy)\<lparr>pol_stop := AnyStop [StopAfterAttempt 4, StopForever]\<rparr>)
      (\<lambda>b. ex_b0) (VInt 10) = Ok e"
    by (simp add: estimate_policy_load_def known_limits_def Let_def)
  with estimate_is_attempt_limit [OF e] show ?thesis by (simp add: known_limits_def)
qed

text \<open>
  C28: a simulated timeline has the shape of an execution. It lists the attempts from 1 on without a gap,
  at least one and never more than asked for; only the last can be marked as stopping, and it is unless
  all the attempts asked for were simulated; every delay is between zero and the ceiling; and a known
  attempt limit of the stop strategy bounds it as it bounds the executors.
\<close>

theorem simulation_timeline:
  assumes "simulate_policy E p (VInt m) w = (Ok s, w')"
  shows "map sa_attempt_number s = [1..<length s + 1] \<and> s \<noteq> [] \<and> length s \<le> nat m
    \<and> list_all (\<lambda>a. safe_delay (sa_delay a)) s
    \<and> list_all (\<lambda>a. \<not> sa_stops a) (butlast s)
    \<and> (length s < nat m \<longrightarrow> sa_stops (last s))
    \<and> (\<forall>n. known_attempt_limit (pol_stop p) = Some n \<longrightarrow> length s \<le> max 1 (nat n))"
proof -
  from assms have "0 < m" and "simulate_loop E p 1 (nat m) 0 0 w = (Ok s, w')"
    by (auto simp: simulate_policy_def split: if_splits elim!: py_bind_OkD)
  from simulate_loop_shape [OF this(2)] this(1) show ?thesis by auto
qed

lemma no_callback_fixed: "\<not> has_user_callback (FixedDelay a)"
  by (simp add: has_user_callback_def stack_any_iff is_callback_delay_def)

theorem simulation_timeline_witness:
  "\<exists>s w'. simulate_policy ex_env ex_policy (VInt 5) ex_world = (Ok s, w')
    \<and> map sa_attempt_number s = [1..<length s + 1] \<and> length s \<le> 3"
proof -
  have p: "pol_stop ex_policy = StopAfterAttempt 3" "pol_delay ex_policy = FixedDelay (PInt 0)"
    by (simp_all add: ex_policy_def default_policy_def)
  have n: "next_delay ex_env (FixedDelay (PInt 0)) k w = (Ok (VInt 0), w)" for k w
    by (simp add: next_delay_def additive_parts_def py_return_def)
  have safe: "safe_next_delay ex_env ex_policy k = py_return 0" for k
    by (simp add: fun_eq_iff safe_next_delay_def p py_bind_def n py_lift_def resolved_zero py_return_def
        no_callback_fixed del: ensure_resolved_delay.simps)
  have lift: "py_lift (Ok x) = py_return x" for x by (simp add: fun_eq_iff py_eval)
  obtain s w' where s: "simulate_policy ex_env ex_policy (VInt 5) ex_world = (Ok s, w')"
    by (simp add: simulate_policy_def numeral_nat simulate_attempt_def p safe Let_def lift)
  from simulation_timeline [OF s] s show ?thesis by (simp add: p)
qed

end
