(* ===== verification/Health.thy ===== *)
theory Health
  imports Main Advice
begin

text \<open>
  What a report of \<open>doctor()\<close> without a warning means: the flags that the diagnostics compute from the stop, delay and
  condition trees are related to what the trees do when they are evaluated. What is proved here goes from
  \<open>not reported\<close> to the behaviour, the converse of C13, C15 and C27, and so it is for built-in strategies only: a
  user strategy is never reported.
\<close>

section \<open>Stop strategies that are not reported as infinite\<close>

text \<open>The trees that the constructors make of the built-in strategies.\<close>

inductive constructed_stop :: "'s stop \<Rightarrow> bool" where
  "mk_StopAfterAttempt v = Ok s \<Longrightarrow> constructed_stop s"
| "mk_StopAfterDelay v = Ok s \<Longrightarrow> constructed_stop s"
| "constructed_stop StopForever"
| "mk_AnyStop ss = Ok s \<Longrightarrow> \<forall>s\<in>set ss. constructed_stop s \<Longrightarrow> constructed_stop s"
| "mk_AllStop ss = Ok s \<Longrightarrow> \<forall>s\<in>set ss. constructed_stop s \<Longrightarrow> constructed_stop s"

text \<open>The strategy stops at every attempt from \<open>n\<close> on whose elapsed time is at least \<open>t\<close>.\<close>

definition stops_from :: "'s stop \<Rightarrow> int \<Rightarrow> flt \<Rightarrow> bool" where
  "stops_from s n t \<longleftrightarrow> (\<forall>k e. n \<le> k \<longrightarrow> t \<le> e \<longrightarrow> e \<le> fl_inf \<longrightarrow> should_stop s k e = py_return True)"

lemma stops_from_later: "stops_from s n t \<Longrightarrow> n \<le> n' \<Longrightarrow> t \<le> t' \<Longrightarrow> stops_from s n' t'"
  by (auto simp: stops_from_def)

lemma float_int_finite: "fl_of_int a = Some x \<Longrightarrow> sec a < fl_inf"
proof (rule ccontr)
  assume x: "fl_of_int a = Some x" and "\<not> sec a < fl_inf"
  then have "1 * 2 ^ 2098 \<le> a * 2 ^ 1074" by (simp add: sec_def fl_inf_def)
  then have "rnd (1 * 2 ^ 2098) 0 \<le> rnd (a * 2 ^ 1074) 0" by (rule rnd_mono)
  moreover have "rnd (1 * 2 ^ 2098) 0 = 1 * 2 ^ 2098"
    by (subst rnd_scale) (simp add: rnd_small_int)
  ultimately show False
    using x by (auto simp: fl_of_int_def Let_def fl_inf_def split: if_splits)
qed

lemma time_limit_stops:
  assumes "mk_StopAfterDelay v = Ok s"
  shows "\<exists>t < fl_inf. stops_from s 0 t"
proof -
  obtain u where u: "ensure_non_negative ''seconds'' v = Ok u" and s: "s = StopAfterDelay (num_of v)"
    using assms by (auto simp: mk_StopAfterDelay_def res_bind_Ok_iff)
  have "nonneg_num (num_of v)" by (rule ensure_nonneg_num [OF u])
  show ?thesis
  proof (cases "num_of v")
    case (PInt a)
    have "\<exists>x. fl_of_int a = Some x"
      using u PInt
      by (cases "(''seconds'', v)" rule: ensure_finite_float.cases)
        (auto simp: ensure_non_negative_def res_bind_Ok_iff py_float_def split: option.splits if_splits)
    moreover have "0 \<le> sec a" using \<open>nonneg_num (num_of v)\<close> PInt by simp
    then have "\<not> e < 0" if "sec a \<le> e" for e using that by linarith
    ultimately show ?thesis
      using float_int_finite [of a]
      by (intro exI [of _ "sec a"]) (auto simp: stops_from_def s PInt num_le_def)
  next
    case (PFlt x)
    have "x < fl_inf"
      using u PFlt
      by (cases "(''seconds'', v)" rule: ensure_finite_float.cases)
        (auto simp: ensure_non_negative_def res_bind_Ok_iff flt_finite_def split: option.splits if_splits)
    then show ?thesis by (intro exI [of _ x]) (auto simp: stops_from_def s PFlt num_le_def)
  qed
qed

lemma all_stop_from:
  assumes "\<And>s. s \<in> set ss \<Longrightarrow> \<exists>n t. t < fl_inf \<and> stops_from s n t"
  shows "\<exists>n t. t < fl_inf \<and> (\<forall>s\<in>set ss. stops_from s n t)"
  using assms
proof (induction ss)
  case Nil
  show ?case using fl_inf_pos by (intro exI [of _ 0]) auto
next
  case (Cons s ss)
  then obtain n t n' t' where "t < fl_inf" "t' < fl_inf" "stops_from s n t" "\<forall>s\<in>set ss. stops_from s n' t'"
    by (metis list.set_intros(1) list.set_intros(2))
  then show ?case
    by (intro exI [of _ "max n n'"] exI [of _ "max t t'"]) (auto intro: stops_from_later)
qed

lemma constructed_stop_stops:
  "constructed_stop s \<Longrightarrow> \<not> stop_is_infinite s \<Longrightarrow> \<exists>n t. t < fl_inf \<and> stops_from s n t"
proof (induction rule: constructed_stop.induct)
  case (1 v s)
  then show ?case
    using fl_inf_pos
    by (intro exI [of _ "int_of v"] exI [of _ 0]) (auto simp: mk_StopAfterAttempt_def res_bind_Ok_iff stops_from_def)
next
  case (2 v s)
  then show ?case using time_limit_stops by blast
next
  case (4 ss s)
  then have s: "s = AnyStop ss" by (auto simp: mk_AnyStop_def split: if_splits)
  have builtin: "constructed_stop s \<Longrightarrow> builtin_stop s" for s :: "'a stop"
    by (induction rule: constructed_stop.induct)
      (auto simp: mk_StopAfterAttempt_def mk_StopAfterDelay_def mk_AnyStop_def mk_AllStop_def res_bind_Ok_iff
        list_all_iff split: if_splits)
  from 4 s obtain r n t where r: "r \<in> set ss" "t < fl_inf" "stops_from r n t"
    by (auto simp: list_all_iff)
  then have "stops r k e" if "n \<le> k" "t \<le> e" "e \<le> fl_inf" for k e
    using that 4(2) builtin [of r] by (auto simp: stops_from_def should_stop_builtin fun_eq_iff py_return_def)
  then have "stops s k e" if "n \<le> k" "t \<le> e" "e \<le> fl_inf" for k e
    using that r(1) by (auto simp: s list_ex_iff)
  moreover have "builtin_stop s" using 4(2) builtin by (simp add: s list_all_iff)
  ultimately have "stops_from s n t" by (simp add: stops_from_def should_stop_builtin)
  with r(2) show ?case by blast
next
  case (5 ss s)
  then have s: "s = AllStop ss" by (auto simp: mk_AllStop_def split: if_splits)
  have "\<exists>n t. t < fl_inf \<and> (\<forall>s\<in>set ss. stops_from s n t)"
    by (rule all_stop_from) (use 5 s in \<open>auto simp: list_ex_iff\<close>)
  then obtain n t where nt: "t < fl_inf" "\<forall>s\<in>set ss. stops_from s n t" by blast
  have "py_all (map (\<lambda>s. should_stop s k e) ss) = py_return True" if "n \<le> k" "t \<le> e" "e \<le> fl_inf" for k e
  proof -
    have eq: "map (\<lambda>s. should_stop s k e) ss = map (\<lambda>s. py_return True) ss"
      using nt(2) that by (intro map_cong) (auto simp: stops_from_def)
    show ?thesis unfolding eq using py_all_return [of "\<lambda>_. True" ss] by (simp add: list_all_iff)
  qed
  with nt(1) show ?case by (intro exI [of _ n] exI [of _ t]) (auto simp: stops_from_def s)
qed auto

section \<open>Conditions that are not reported as broad\<close>

text \<open>Conditions that evaluate no callback of the user on an exception.\<close>

fun callback_free :: "'s condition \<Rightarrow> bool" where
  "callback_free (ExceptionCondition types) \<longleftrightarrow> list_all (\<lambda>t. issubclass t Exception_t) types"
| "callback_free (ResultCondition _) \<longleftrightarrow> True"
| "callback_free (AnyCondition cs) \<longleftrightarrow> list_all callback_free cs"
| "callback_free (AllCondition cs) \<longleftrightarrow> list_all callback_free cs"
| "callback_free _ \<longleftrightarrow> False"

text \<open>The decision of such a condition about an exception of class \<open>t\<close>.\<close>

fun retries_class :: "'s condition \<Rightarrow> exc_type \<Rightarrow> bool" where
  "retries_class (ExceptionCondition types) t \<longleftrightarrow> list_ex (issubclass t) types"
| "retries_class (AnyCondition cs) t \<longleftrightarrow> list_ex (\<lambda>c. retries_class c t) cs"
| "retries_class (AllCondition cs) t \<longleftrightarrow> list_all (\<lambda>c. retries_class c t) cs"
| "retries_class _ t \<longleftrightarrow> False"

lemma callback_free_decision:
  "callback_free c \<Longrightarrow> should_retry_exception c e = py_return (retries_class c (exn_type e))"
proof (induction c e rule: should_retry_exception.induct)
  case (1 types e)
  have "isinstance_exn e = issubclass (exn_type e)" by (simp add: fun_eq_iff isinstance_exn_def)
  then show ?case by simp
next
  case (4 cs e)
  then have "map (\<lambda>c. should_retry_exception c e) cs = map (\<lambda>c. py_return (retries_class c (exn_type e))) cs"
    by (auto simp: list_all_iff)
  then show ?case by (simp only: should_retry_exception.simps retries_class.simps py_any_return)
next
  case (5 cs e)
  then have "map (\<lambda>c. should_retry_exception c e) cs = map (\<lambda>c. py_return (retries_class c (exn_type e))) cs"
    by (auto simp: list_all_iff)
  then show ?case by (simp only: should_retry_exception.simps retries_class.simps py_all_return)
qed auto

text \<open>On an exception whose class is \<open>Exception\<close> itself the decision is the flag.\<close>

lemma broad_exception_exact:
  "callback_free c \<Longrightarrow> retries_class c Exception_t \<longleftrightarrow> has_broad_exception c"
proof (induction c rule: has_broad_exception.induct)
  case (1 types)
  have "issubclass Exception_t t \<longleftrightarrow> t = Exception_t" if "t \<in> set types" for t
    using 1 that antisym [of t Exception_t] by (auto simp: list_all_iff less_eq_exc_type_def simp flip: less_eq_exc_type_def)
  then show ?case by (auto simp: list_ex_iff)
qed (auto simp: list_all_iff list_ex_iff)

lemma broad_os_error_exact:
  "callback_free c \<Longrightarrow> retries_class c OSError_t \<longleftrightarrow> has_broad_os_error c"
proof (induction c rule: has_broad_os_error.induct)
  case (1 types)
  have "issubclass OSError_t t \<longleftrightarrow> t = OSError_t \<or> t = Exception_t" if "t \<in> set types" for t
  proof -
    have "issubclass OSError_t t \<longleftrightarrow> t = OSError_t \<or> issubclass Exception_t t"
      by (auto simp: OSError_t_def)
    moreover have "issubclass Exception_t t \<longleftrightarrow> t = Exception_t"
      using 1 that antisym [of t Exception_t] by (auto simp: list_all_iff simp flip: less_eq_exc_type_def)
    ultimately show ?thesis by simp
  qed
  then show ?case by (auto simp: list_ex_iff)
qed (auto simp: list_all_iff list_ex_iff)

section \<open>Delays that are not reported as always zero\<close>

text \<open>
  What is needed of the arithmetic beyond \<open>env_ok\<close>: \<open>x ** 0\<close> is \<open>1.0\<close>, and the sum of non-negative floats of which
  one is positive is positive.
\<close>

definition env_positive :: "'u pyenv \<Rightarrow> bool" where
  "env_positive E \<longleftrightarrow> (\<forall>x. env_pow E x 0 = Some (sec 1))
     \<and> (\<forall>xs. (\<forall>x\<in>set xs. 0 \<le> x) \<longrightarrow> (\<exists>x\<in>set xs. 0 < x) \<longrightarrow> 0 < env_sum E xs)"

text \<open>Strategies that draw nothing at random and run no callback, with chains shorter than the bound on attempts.\<close>

fun deterministic :: "'s delay \<Rightarrow> bool" where
  "deterministic (FixedDelay _) \<longleftrightarrow> True"
| "deterministic (LinearDelay _ _ _) \<longleftrightarrow> True"
| "deterministic (ExponentialDelay _ _ _) \<longleftrightarrow> True"
| "deterministic (ChainDelay ds) \<longleftrightarrow> int (length ds) < 2 ^ 50"
| "deterministic (AdditiveDelay ds) \<longleftrightarrow> list_all deterministic ds"
| "deterministic _ \<longleftrightarrow> False"

lemma positive_nonzero: "nonneg_num a \<Longrightarrow> \<not> is_zero a \<Longrightarrow> positive_num a"
  using fl_inf_pos by (cases a) (auto simp: num_eq_def sec_def split: if_splits simp del: fl_inf_pos)

lemma safe_nonneg: "safe_num a \<Longrightarrow> nonneg_num a"
  by (cases a) (auto simp: safe_num_iff)

lemma positive_min: "positive_num a \<Longrightarrow> positive_num b \<Longrightarrow> positive_num (num_min a b)"
  by (simp add: num_min_def)

lemma saturate_pos: "0 < r \<Longrightarrow> 0 < saturate r"
  by (simp add: saturate_def less_max_iff_disj)

lemma rnd_positive: "0 < r \<Longrightarrow> 0 < rnd r 0"
  using rnd_mono [of 1 r 0] by (simp add: rnd_small_int)

lemma fl_add_positive: "0 \<le> x \<Longrightarrow> 0 \<le> y \<Longrightarrow> 0 < x \<or> 0 < y \<Longrightarrow> 0 < fl_add x y"
  by (auto simp: fl_add_def intro!: saturate_pos rnd_positive)

lemma fl_mul_one: "0 < x \<Longrightarrow> 0 < fl_mul x (sec 1)"
proof -
  assume x: "0 < x"
  have one: "rnd (sec 1) 1074 = 1"
    using rne_exact [of 1 1074] by (simp add: rnd_def rnd_pos_def sec_def ulp_exp_small)
  have "sec 1 \<le> x * sec 1" using x by simp
  then have "rnd (sec 1) 1074 \<le> rnd (x * sec 1) 1074" by (rule rnd_mono)
  then have "0 < saturate (rnd (x * sec 1) 1074)" using one by (intro saturate_pos) simp
  moreover have "\<bar>sec 1\<bar> \<noteq> fl_inf" "0 < sec 1" by simp_all
  ultimately show ?thesis using x by (auto simp: fl_mul_def)
qed

lemma py_float_positive: "py_float n = Ok x \<Longrightarrow> 0 < n \<Longrightarrow> 0 < x"
  using rnd_positive [of "n * 2 ^ 1074"]
  by (auto simp: py_float_def fl_of_int_def Let_def split: option.splits if_splits)

lemma num_float_positive: "positive_num a \<Longrightarrow> num_float a = Ok x \<Longrightarrow> 0 < x"
  by (cases a) (auto simp: py_float_positive)

lemma num_add_positive:
  "nonneg_num a \<Longrightarrow> nonneg_num b \<Longrightarrow> positive_num a \<or> positive_num b \<Longrightarrow> num_add a b = Ok c \<Longrightarrow> positive_num c"
proof -
  assume n: "nonneg_num a" "nonneg_num b" "positive_num a \<or> positive_num b" and c: "num_add a b = Ok c"
  from c consider m k where "a = PInt m" "b = PInt k" "c = PInt (m + k)"
    | x y where "num_float a = Ok x" "num_float b = Ok y" "c = PFlt (fl_add x y)"
    by (cases "(a, b)" rule: num_add.cases) (auto simp: res_bind_Ok_iff)
  then show "positive_num c"
  proof cases
    case 2
    have "0 \<le> x" "0 \<le> y" using n(1,2) 2(1,2) num_float_nonneg by blast+
    moreover have "0 < x \<or> 0 < y" using n(3) 2(1,2) num_float_positive by blast
    ultimately show ?thesis unfolding 2(3) using fl_add_positive by simp
  qed (use n in auto)
qed

lemma num_mul_one:
  "positive_num a \<Longrightarrow> num_mul a (PInt 1) = Ok c \<Longrightarrow> positive_num c"
  by (cases a) (auto simp: py_float_def fl_mul_one)

lemma positive_resolved:
  assumes "safe_num a" "positive_num a"
  shows "\<exists>x > 0. ensure_resolved_delay (val_of_num a) = Ok x"
proof -
  note f = safe_num_float [OF assms(1)]
  then have "0 < num_to_flt a" using num_float_positive [OF assms(2)] by blast
  then show ?thesis using resolve_safe_num [OF assms(1)] by blast
qed

text \<open>A leaf that is not zero gives a positive delay: a linear one at the second attempt, an exponential one at the first.\<close>

definition positive_at :: "'u pyenv \<Rightarrow> 'u world_scheme delay \<Rightarrow> int \<Rightarrow> bool" where
  "positive_at E d n \<longleftrightarrow>
     (\<forall>w v w'. leaf_next E d n w = (Ok v, w') \<longrightarrow> (\<exists>x > 0. ensure_resolved_delay v = Ok x))"

lemma linear_positive:
  assumes acc: "builtin_accepted (LinearDelay start step maximum :: 's delay)"
    and z: "\<not> zero_node (LinearDelay start step maximum :: 's delay)" and l: "linear_next start step maximum 2 = Ok d"
  shows "positive_num d"
proof -
  obtain g s where g: "num_mul step (PInt 1) = Ok g" "num_add start g = Ok s"
    and d: "d = num_min s (case maximum of Some m \<Rightarrow> m | None \<Rightarrow> PFlt MAX_SLEEP_SECONDS)"
    using l by (auto simp: linear_next_def retries_before_def res_bind_Ok_iff Let_def)
  have n: "nonneg_num start" "nonneg_num step" using acc by (auto intro: safe_nonneg)
  have "nonneg_num g" by (rule num_mul_nonneg [OF n(2) _ g(1)]) simp
  moreover have "positive_num start \<or> positive_num g"
    using z n positive_nonzero num_mul_one [OF _ g(1)] by auto
  ultimately have "positive_num s" using n(1) g(2) by (intro num_add_positive)
  moreover have "positive_num (case maximum of Some m \<Rightarrow> m | None \<Rightarrow> PFlt MAX_SLEEP_SECONDS)"
    using acc z MAX_SLEEP_pos by (cases maximum) (auto simp: zero_maximum_def intro: positive_nonzero safe_nonneg)
  ultimately show ?thesis unfolding d by (rule positive_min)
qed

text \<open>The value is not tied to the world; it is where the leaf does not raise.\<close>

lemma positive_leaf:
  assumes E: "env_positive E" and acc: "builtin_accepted d" and det: "deterministic d" and z: "\<not> zero_node d"
    and leaf: "additive_parts d = None" and env: "env_ok E"
  shows "\<exists>n. 1 \<le> n \<and> n < 2 ^ 50 \<and> positive_at E d n"
proof (cases d)
  case (FixedDelay a)
  then have "safe_num a" "positive_num a" using acc z by (auto intro: positive_nonzero safe_nonneg)
  then show ?thesis
    using positive_resolved by (intro exI [of _ 1]) (auto simp: positive_at_def FixedDelay py_return_def)
next
  case (LinearDelay start step maximum)
  have acc': "builtin_accepted (LinearDelay start step maximum :: 's delay)" using acc LinearDelay by simp
  have "\<exists>x>0. ensure_resolved_delay (val_of_num a) = Ok x" if a: "linear_next start step maximum 2 = Ok a" for a
  proof -
    have "\<not> linear_overflows (LinearDelay start step maximum :: 's delay) 2"
      using linear_next_overflow [of start step maximum 2, where 's = 's] a by auto
    from linear_next_ok [OF acc' _ this] a have "safe_num a" by auto
    moreover have "positive_num a" by (rule linear_positive [OF acc' _ a]) (use z LinearDelay in simp)
    ultimately show ?thesis by (rule positive_resolved)
  qed
  then show ?thesis
    by (intro exI [of _ 2])
      (auto simp: positive_at_def LinearDelay py_bind_def py_lift_def py_return_def split: res.splits)
next
  case (ExponentialDelay base factor maximum)
  have base: "positive_num base" using acc z ExponentialDelay by (auto intro: positive_nonzero)
  have val: "positive_num (exponential_value E base factor 1)"
    using base E fl_inf_pos py_float_positive fl_mul_one
    by (cases base; cases factor)
      (auto simp: exponential_value_def retries_before_def num_pow_def env_positive_def py_float_def [of 1]
        res_bind_Ok_iff split: res.splits)
  have zero: "\<not> num_eq base (PFlt 0)" using base fl_inf_pos by (cases base) (auto simp: num_eq_def sec_def)
  have "safe_num (exponential_next E base factor maximum 1)"
    using acc exponential_value_nonneg [OF env, of base factor 1]
    by (auto simp: ExponentialDelay exponential_next_def Let_def safe_num_iff nonneg_capped nonneg_saturated
        split: option.splits)
  moreover have "positive_num (exponential_next E base factor maximum 1)"
    using acc z zero val MAX_SLEEP_pos
    by (auto simp: ExponentialDelay exponential_next_def Let_def zero_maximum_def
        intro!: positive_min intro: positive_nonzero safe_nonneg split: option.splits)
  ultimately show ?thesis
    using positive_resolved by (intro exI [of _ 1]) (auto simp: positive_at_def ExponentialDelay py_return_def)
next
  case (ChainDelay ds)
  then obtain i where i: "i < length ds" "\<not> is_zero (ds ! i)" using z by (auto simp: list_all_iff in_set_conv_nth)
  have "safe_num (ds ! i)" using acc i(1) ChainDelay by (auto simp: list_all_iff)
  moreover from this have "positive_num (ds ! i)" using i(2) by (auto intro: positive_nonzero safe_nonneg)
  moreover have "chain_next ds (int i + 1) = ds ! i" using i(1) by (simp add: chain_next_def retries_before_def)
  ultimately show ?thesis
    using positive_resolved det i(1) ChainDelay
    by (intro exI [of _ "int i + 1"]) (auto simp: positive_at_def py_return_def)
qed (use det leaf in \<open>auto simp: additive_parts_def\<close>)

lemma py_map_each:
  "py_map f ds w = (Ok xs, w') \<Longrightarrow> d \<in> set ds \<Longrightarrow> \<exists>x\<in>set xs. \<exists>s t. f d s = (Ok x, t)"
proof (induction ds arbitrary: w xs)
  case (Cons c ds)
  then obtain y w1 ys where "f c w = (Ok y, w1)" "py_map f ds w1 = (Ok ys, w')" "xs = y # ys"
    by (auto elim!: py_bind_OkD)
  with Cons show ?case by fastforce
qed simp

lemma tree_positive_leaf:
  assumes "additive_parts d = None" "positive_at E d n" "tree_value E None n d w = (Ok x, w')"
  shows "0 < x"
proof -
  have "tree_value E None n d = py_bind (leaf_next E d n) (\<lambda>v. py_lift (ensure_resolved_delay v))"
    using assms(1) by (simp add: tree_value_leaf resolve_leaf_def split: delay.splits)
  with assms(3) obtain v w1 where v: "leaf_next E d n w = (Ok v, w1)" "ensure_resolved_delay v = Ok x"
    by (auto simp del: leaf_next.simps ensure_resolved_delay.simps elim!: py_bind_OkD)
  with assms(2) show ?thesis unfolding positive_at_def by fastforce
qed

lemma leaf_positive:
  assumes "env_ok E" "env_positive E" "additive_parts d = None" "builtin_accepted d" "deterministic d"
    and "tree_ex (\<lambda>d. \<not> zero_node d) d"
  shows "\<exists>n. 1 \<le> n \<and> n < 2 ^ 50 \<and> (\<forall>w x w'. tree_value E None n d w = (Ok x, w') \<longrightarrow> 0 < x)"
proof -
  have "\<not> zero_node d" using assms(3,6) by (cases d) (auto simp: additive_parts_def)
  from positive_leaf [OF assms(2,4,5) this assms(3,1)] show ?thesis
    using tree_positive_leaf [OF assms(3)] by blast
qed

lemma tree_positive:
  assumes E: "env_ok E" and pos: "env_positive E"
  shows "builtin_accepted d \<Longrightarrow> deterministic d \<Longrightarrow> tree_ex (\<lambda>d. \<not> zero_node d) d \<Longrightarrow>
    \<exists>n. 1 \<le> n \<and> n < 2 ^ 50 \<and> (\<forall>w x w'. tree_value E None n d w = (Ok x, w') \<longrightarrow> 0 < x)"
proof (induction d)
  case (AdditiveDelay ds)
  then obtain d where d: "d \<in> set ds" "builtin_accepted d" "deterministic d" "tree_ex (\<lambda>d. \<not> zero_node d) d"
    by (auto simp: list_ex_iff list_all_iff)
  with AdditiveDelay.IH obtain n where n: "1 \<le> n" "n < 2 ^ 50"
    "\<And>w x w'. tree_value E None n d w = (Ok x, w') \<Longrightarrow> 0 < x" by blast
  have "0 < x" if t: "tree_value E None n (AdditiveDelay ds) w = (Ok x, w')" for w x w'
  proof -
    obtain xs where xs: "py_map (tree_value E None n) ds w = (Ok xs, w')"
      and x: "x = min (env_sum E xs) MAX_SLEEP_SECONDS"
      using t by (auto elim!: py_bind_OkD)
    have "\<forall>y\<in>set xs. 0 \<le> y"
      by (rule py_map_all [OF _ xs]) (use tree_value_safe [OF E] in \<open>auto simp: safe_delay_def\<close>)
    moreover have "\<exists>y\<in>set xs. 0 < y" using py_map_each [OF xs d(1)] n(3) by blast
    ultimately show ?thesis using pos MAX_SLEEP_pos by (auto simp: x env_positive_def)
  qed
  with n(1,2) show ?case by blast
qed (rule leaf_positive [OF E pos]; simp add: additive_parts_def del: tree_value.simps)+

lemma not_always_zero:
  assumes E: "env_ok E" and pos: "env_positive E" and d: "constructed d" "deterministic d" "\<not> delay_is_always_zero d"
  shows "\<exists>n. 1 \<le> n \<and> n < 2 ^ 50 \<and> (\<forall>w. if linear_overflows d n then fst (next_delay E d n w) = Raise overflow_error
    else \<exists>v w' x. next_delay E d n w = (Ok v, w') \<and> ensure_resolved_delay v = Ok x \<and> 0 < x)"
proof -
  note acc = constructed_accepted [OF d(1)]
  have ex: "tree_ex (\<lambda>d. \<not> zero_node d) d" using d(3) by (simp add: delay_is_always_zero_def stack_any_iff)
  have "\<exists>n. 1 \<le> n \<and> n < 2 ^ 50 \<and> (\<forall>w v w'. next_delay E d n w = (Ok v, w') \<longrightarrow> (\<exists>x>0. ensure_resolved_delay v = Ok x))"
  proof (cases "additive_parts d")
    case None
    then have "\<not> zero_node d" using ex by (cases d) (auto simp: additive_parts_def)
    from positive_leaf [OF pos acc d(2) this None E] None show ?thesis
      by (simp add: next_delay_def positive_at_def)
  next
    case (Some ds)
    then have "next_delay E d n = py_bind (tree_value E None n d) (\<lambda>x. py_return (VFloat x))" for n
      by (simp add: next_delay_def resolve_additive_tree_value del: tree_value.simps)
    then have "\<exists>x>0. ensure_resolved_delay v = Ok x"
      if "\<forall>w x w'. tree_value E None n d w = (Ok x, w') \<longrightarrow> 0 < x" "next_delay E d n w = (Ok v, w')" for n w v w'
      using that tree_value_safe [OF E, of None n d w] ensure_resolved_delay_id
      by (fastforce simp del: tree_value.simps ensure_resolved_delay.simps elim!: py_bind_OkD)
    with tree_positive [OF E pos acc d(2) ex] show ?thesis by blast
  qed
  then obtain n where n: "1 \<le> n" "n < 2 ^ 50"
    "\<And>w v w'. next_delay E d n w = (Ok v, w') \<Longrightarrow> \<exists>x>0. ensure_resolved_delay v = Ok x" by blast
  show ?thesis
    using n next_delay_accepted [OF E acc n(2)]
    by (intro exI [of _ n]) (fastforce simp del: ensure_resolved_delay.simps)
qed

section \<open>Health reports\<close>

lemma total_sleep_check_cases:
  assumes "total_sleep_check E p w = (r, w')" "can_retry p" "\<not> is_forever p"
  defines "count \<equiv> (case known_attempt_limit (pol_stop p) of Some n \<Rightarrow> n | None \<Rightarrow> 10)"
  shows "(\<exists>s. simulate_policy E p (VInt count) w = (Ok s, w') \<and>
      r = Ok (warn_if (sec 300 < simulation_total_sleep E s)
        (high_total_sleep (simulation_total_sleep E s) count), []))
    \<or> (\<exists>e. fst (simulate_policy E p (VInt count) w) = Raise e \<and>
      r = (if is_exception e then Ok ([], [''high_total_sleep'']) else Raise e))"
  using assms(1-3) unfolding total_sleep_check_def count_def [symmetric] Let_def
  by (cases "simulate_policy E p (VInt count) w"; cases "fst (simulate_policy E p (VInt count) w)")
    (auto simp: py_catch_def py_bind_def py_return_def py_raise_def)

text \<open>
  C29: what a clean bill of health means, for what the policy does. When \<open>doctor()\<close> reports no warning and no skipped
  check, and the parts of the policy are built-in strategies that the constructors accepted: its stop strategy
  stops at every attempt from some number on whose elapsed time has reached some finite value; and if it can retry at
  all, a plain \<open>Exception\<close> and a plain \<open>OSError\<close> are not retried, some attempt below \<open>2 ^ 50\<close> has a positive delay
  where the delay draws nothing at random, an attempt limit is at most ten, with nine at most unless a retry budget
  is configured, and no evaluation at or after it lets the execution continue, and the total sleep of the policy's simulation is at most 300
  seconds. Nothing is said of user strategies: one that never stops is not reported, so that such a policy can
  have a clean bill of health and retry for ever.
\<close>

theorem doctor_ok_sound:
  assumes "doctor_policy E p w = (Ok h, w')" "report_ok h"
  shows "\<not> stop_is_infinite (pol_stop p)
    \<and> (constructed_stop (pol_stop p) \<longrightarrow> (\<exists>n t. t < fl_inf \<and> stops_from (pol_stop p) n t))
    \<and> (can_retry p \<longrightarrow>
        \<not> delay_is_always_zero (pol_delay p)
        \<and> (env_ok E \<and> env_positive E \<and> constructed (pol_delay p) \<and> deterministic (pol_delay p) \<longrightarrow>
            (\<exists>n. 1 \<le> n \<and> n < 2 ^ 50 \<and> (\<forall>v.
              if linear_overflows (pol_delay p) n then fst (next_delay E (pol_delay p) n v) = Raise overflow_error
              else \<exists>r v' x. next_delay E (pol_delay p) n v = (Ok r, v') \<and> ensure_resolved_delay r = Ok x \<and> 0 < x)))
        \<and> \<not> has_broad_exception (pol_condition p) \<and> \<not> has_broad_os_error (pol_condition p)
        \<and> (callback_free (pol_condition p) \<longrightarrow> (\<forall>e. exn_type e = Exception_t \<or> exn_type e = OSError_t \<longrightarrow>
            should_retry_exception (pol_condition p) e = py_return False))
        \<and> (\<forall>n. known_attempt_limit (pol_stop p) = Some n \<longrightarrow> n \<le> (if pol_budget p = None then 9 else 10)
            \<and> (\<forall>k e v. n \<le> k \<longrightarrow> fst (should_stop (pol_stop p) k e v) \<noteq> Ok False))
        \<and> (\<exists>n s. (known_attempt_limit (pol_stop p) = Some n \<or> known_attempt_limit (pol_stop p) = None \<and> n = 10)
            \<and> simulate_policy E p (VInt n) w = (Ok s, w') \<and> simulation_total_sleep E s \<le> sec 300))"
proof -
  from assms obtain simulated skipped where
    t: "total_sleep_check E p w = (Ok (simulated, skipped), w')"
    and none: "warnings_before p = []" "simulated = []" "warnings_after E p = []" "skipped = []"
    by (auto simp: doctor_policy_def compute_diagnostics_def report_ok_def elim!: py_bind_OkD)
  from none(1) have f: "\<not> is_forever p"
    and b: "can_retry p \<Longrightarrow> \<not> is_no_delay p \<and> \<not> has_broad_exception (pol_condition p)
      \<and> \<not> has_broad_os_error (pol_condition p) \<and> \<not> many_attempts p"
    by (auto simp: warnings_before_def warn_if_def split: if_splits)
  from none(3) have a: "can_retry p \<Longrightarrow> high_attempt_count p \<Longrightarrow> pol_budget p \<noteq> None"
    by (auto simp: warnings_after_def warn_if_def split: if_splits)
  show ?thesis
  proof (intro conjI impI)
    show finite: "\<not> stop_is_infinite (pol_stop p)" using f by (simp add: is_forever_def)
    then show "\<exists>n t. t < fl_inf \<and> stops_from (pol_stop p) n t" if "constructed_stop (pol_stop p)"
      using constructed_stop_stops that by blast
    assume c: "can_retry p"
    from b [OF c] show zero: "\<not> delay_is_always_zero (pol_delay p)" and broad: "\<not> has_broad_exception (pol_condition p)"
      "\<not> has_broad_os_error (pol_condition p)" by (simp_all add: is_no_delay_def)
    show "\<exists>n. 1 \<le> n \<and> n < 2 ^ 50 \<and> (\<forall>v.
        if linear_overflows (pol_delay p) n then fst (next_delay E (pol_delay p) n v) = Raise overflow_error
        else \<exists>r v' x. next_delay E (pol_delay p) n v = (Ok r, v') \<and> ensure_resolved_delay r = Ok x \<and> 0 < x)"
      if "env_ok E \<and> env_positive E \<and> constructed (pol_delay p) \<and> deterministic (pol_delay p)"
      using that zero by (intro not_always_zero) blast+
    show "\<forall>e. exn_type e = Exception_t \<or> exn_type e = OSError_t \<longrightarrow>
        should_retry_exception (pol_condition p) e = py_return False" if "callback_free (pol_condition p)"
      using broad callback_free_decision [OF that] broad_exception_exact [OF that] broad_os_error_exact [OF that] by auto
    show "\<forall>n. known_attempt_limit (pol_stop p) = Some n \<longrightarrow> n \<le> (if pol_budget p = None then 9 else 10)
        \<and> (\<forall>k e v. n \<le> k \<longrightarrow> fst (should_stop (pol_stop p) k e v) \<noteq> Ok False)"
    proof (intro allI impI conjI)
      show "fst (should_stop (pol_stop p) k e v) \<noteq> Ok False"
        if "known_attempt_limit (pol_stop p) = Some n" "n \<le> k" for n k e v
        using known_limit_never [OF that, of e] by (auto simp: never_def)
      fix n assume n: "known_attempt_limit (pol_stop p) = Some n"
      have "\<not> 10 < n" using b [OF c] n by (simp add: many_attempts_def)
      moreover have "pol_budget p = None \<Longrightarrow> \<not> high_attempt_count p" using a [OF c] by blast
      then have "pol_budget p = None \<Longrightarrow> \<not> 10 \<le> n" using n by (simp add: high_attempt_count_def)
      ultimately show "n \<le> (if pol_budget p = None then 9 else 10)" by auto
    qed
    from total_sleep_check_cases [OF t c f] none obtain n s where
      n: "n = (case known_attempt_limit (pol_stop p) of Some n \<Rightarrow> n | None \<Rightarrow> 10)"
      and s: "simulate_policy E p (VInt n) w = (Ok s, w')" "\<not> sec 300 < simulation_total_sleep E s"
      by (fastforce simp: warn_if_def split: if_splits)
    then have "known_attempt_limit (pol_stop p) = Some n \<or> known_attempt_limit (pol_stop p) = None \<and> n = 10"
      by (simp split: option.splits)
    with s show "\<exists>n s. (known_attempt_limit (pol_stop p) = Some n \<or> known_attempt_limit (pol_stop p) = None \<and> n = 10)
        \<and> simulate_policy E p (VInt n) w = (Ok s, w') \<and> simulation_total_sleep E s \<le> sec 300"
      by (intro exI [of _ n] exI [of _ s]) simp
  qed
qed

text \<open>A policy in good health: three attempts on time-outs, one second apart.\<close>

definition healthy_policy :: "'s policy" where
  "healthy_policy = ex_policy\<lparr>pol_delay := FixedDelay (PInt 1), pol_condition := ExceptionCondition [TimeoutError_t]\<rparr>"

lemma healthy_fields:
  "pol_stop healthy_policy = StopAfterAttempt 3" "pol_delay healthy_policy = FixedDelay (PInt 1)"
  "pol_condition healthy_policy = ExceptionCondition [TimeoutError_t]" "pol_handlers healthy_policy = []"
  "pol_return_result healthy_policy" "pol_testing healthy_policy = False" "pol_callback healthy_policy = None"
  "pol_budget healthy_policy = None" "pol_history_limit healthy_policy = Some 1000"
  by (simp_all add: healthy_policy_def ex_policy_def default_policy_def)

lemma fixed_one: "safe_next_delay E p k = py_return (sec 1)" if "pol_delay p = FixedDelay (PInt 1)"
proof -
  have v: "ensure_resolved_delay (VInt 1) = Ok (sec 1)"
    by (simp add: py_float_def MAX_SLEEP_SECONDS_def not_less not_le)
  show ?thesis
    by (simp add: fun_eq_iff safe_next_delay_def that py_bind_def py_lift_def v py_return_def next_delay_def
        additive_parts_def no_callback_fixed del: ensure_resolved_delay.simps)
qed

lemma healthy_simulation:
  "\<exists>s. simulate_policy ex_env healthy_policy (VInt 3) w = (Ok s, w) \<and> simulation_total_sleep (ex_env :: unit pyenv) s = sec 2"
proof -
  have lift: "py_lift (Ok x) = py_return x" for x by (simp add: fun_eq_iff py_eval)
  have zero: "fl_add (sec 1) 0 = sec 1" "fl_add 0 (sec 2) = sec 2"
    using fl_add_sec [of 1 0] fl_add_sec [of 0 2] by (simp_all add: sec_0)
  have sum: "env_sum ex_env xs = fold fl_add xs 0" for xs by (simp add: ex_env_def)
  show ?thesis
    by (simp add: simulate_policy_def numeral_nat simulate_attempt_def healthy_fields fixed_one Let_def lift
        simulation_total_sleep_def sum zero)
qed

lemma healthy_parts:
  "constructed_stop (StopAfterAttempt 3)" "constructed (FixedDelay (PInt 1))"
proof -
  have "mk_StopAfterAttempt (VInt 3) = Ok (StopAfterAttempt 3 :: 's stop)"
    by (simp add: mk_StopAfterAttempt_def ensure_positive_int_iff)
  then show "constructed_stop (StopAfterAttempt 3 :: 's stop)" by (rule constructed_stop.intros)
  have "mk_FixedDelay (VInt 1) = Ok (FixedDelay (PInt 1) :: 's delay)"
    by (simp add: mk_FixedDelay_def ensure_safe_delay_def py_float_def flt_finite_def not_less MAX_SLEEP_SECONDS_def)
  then show "constructed (FixedDelay (PInt 1) :: 's delay)" by (rule constructed.intros)
qed

lemma ex_env_positive: "env_positive ex_env"
proof -
  have sum: "0 < fold fl_add xs s" if "\<forall>x\<in>set xs. 0 \<le> x" "0 \<le> s" "0 < s \<or> (\<exists>x\<in>set xs. 0 < x)" for xs s
    using that
  proof (induction xs arbitrary: s)
    case (Cons a xs)
    then have "0 \<le> fl_add a s" "0 < a \<or> 0 < s \<Longrightarrow> 0 < fl_add a s" by (simp_all add: fl_add_nonneg fl_add_positive)
    with Cons show ?case by fastforce
  qed auto
  then show ?thesis by (auto simp: env_positive_def ex_env_def)
qed

theorem doctor_ok_sound_witness:
  "\<exists>h n s. doctor_policy ex_env healthy_policy ex_world = (Ok h, ex_world) \<and> report_ok h
    \<and> \<not> stop_is_infinite (pol_stop (healthy_policy :: world policy))
    \<and> (\<exists>n t. t < fl_inf \<and> stops_from (pol_stop (healthy_policy :: world policy)) n t)
    \<and> \<not> delay_is_always_zero (pol_delay (healthy_policy :: world policy))
    \<and> (\<exists>n v r v' x. next_delay (ex_env :: unit pyenv) (pol_delay healthy_policy) n v = (Ok r, v')
        \<and> ensure_resolved_delay r = Ok x \<and> 0 < x)
    \<and> should_retry_exception (pol_condition (healthy_policy :: world policy)) (new_exn Exception_t ''any'') = py_return False
    \<and> simulate_policy ex_env healthy_policy (VInt n) ex_world = (Ok s, ex_world)
    \<and> simulation_total_sleep (ex_env :: unit pyenv) s \<le> sec 300"
proof -
  let ?p = "healthy_policy :: world policy"
  have c: "can_retry ?p" "\<not> is_forever ?p"
    by (simp_all add: can_retry_def is_forever_def healthy_fields)
  have b: "has_broad_exception (pol_condition ?p) = False" "has_broad_os_error (pol_condition ?p) = False"
    by (simp_all add: healthy_fields exc_type_defs)
  have before: "warnings_before ?p = []"
    using c b by (simp add: warnings_before_def warn_if_def healthy_fields is_no_delay_def many_attempts_def
        uses_implicit_default_policy_def delay_is_always_zero_def stack_any_iff num_eq_def)
  have after: "warnings_after ex_env ?p = []"
    using c b by (simp add: warnings_after_def warn_if_def healthy_fields high_attempt_count_def
        has_effective_random_delay_def stack_any_iff has_result_condition.simps)
  obtain s where s: "simulate_policy ex_env ?p (VInt 3) ex_world = (Ok s, ex_world)"
    "simulation_total_sleep (ex_env :: unit pyenv) s = sec 2"
    using healthy_simulation by blast
  then have "total_sleep_check ex_env ?p ex_world = (Ok ([], []), ex_world)"
    using c by (simp add: total_sleep_check_def py_catch_def py_bind_def py_return_def warn_if_def
        healthy_fields Let_def)
  then obtain h where h: "doctor_policy ex_env ?p ex_world = (Ok h, ex_world)" "report_ok h"
    by (simp add: doctor_policy_def compute_diagnostics_def before after py_bind_def py_return_def report_ok_def)
  note sound = doctor_ok_sound [OF h, unfolded healthy_fields]
  have callback: "callback_free (ExceptionCondition [TimeoutError_t] :: world condition)" by (simp add: exc_type_defs)
  have stop: "\<exists>n t. t < fl_inf \<and> stops_from (StopAfterAttempt 3 :: world stop) n t" "\<not> stop_is_infinite (StopAfterAttempt 3 :: world stop)"
    using sound healthy_parts(1) by blast+
  have delay: "\<exists>n v r v' x. next_delay (ex_env :: unit pyenv) (FixedDelay (PInt 1)) n v = (Ok r, v')
      \<and> ensure_resolved_delay r = Ok x \<and> 0 < x"
    using sound c(1) ex_env_ok ex_env_positive healthy_parts(2) by (simp del: ensure_resolved_delay.simps) blast
  have retry: "should_retry_exception (ExceptionCondition [TimeoutError_t] :: world condition) (new_exn Exception_t ''any'') = py_return False"
    using sound c(1) callback by (simp add: new_exn_def del: should_retry_exception.simps)
  have zero: "\<not> delay_is_always_zero (FixedDelay (PInt 1) :: world delay)" using sound c(1) by blast
  obtain n s where "simulate_policy ex_env ?p (VInt n) ex_world = (Ok s, ex_world)"
    "simulation_total_sleep (ex_env :: unit pyenv) s \<le> sec 300"
    using sound c(1) by blast
  with h stop delay retry zero show ?thesis unfolding healthy_fields by blast
qed

end
