(* ===== verification/BudgetFlow.thy ===== *)
theory BudgetFlow
  imports Main TestTasks
begin

text \<open>
  The retry budget inside an execution (invariant B10 of the maintainers' document): a reservation made
  while a retry is planned is either kept by the plan that is carried out, or released. The log of
  \<open>budget_run\<close> holds what was reserved and not released, so the claim is about how the log changes.
\<close>

section \<open>The reservations of a budget in the heap\<close>

definition clock_ok :: "'u pyenv \<Rightarrow> bool" where
  "clock_ok E \<longleftrightarrow> (\<forall>i. flt_ok (env_clock E i)) \<and> (\<forall>i j. i \<le> j \<longrightarrow> env_clock E i \<le> env_clock E j)"

definition outstanding :: "'u pyenv \<Rightarrow> nat \<Rightarrow> reservation list \<Rightarrow> 'u world_scheme \<Rightarrow> bool" where
  "outstanding E b log w \<longleftrightarrow>
     (\<exists>t. budget_run (w_budgets w b) log t \<and> t \<le> env_clock E (w_reads w))"

lemma outstanding_later:
  assumes "clock_ok E" "outstanding E b log w" "w_budgets w' b = w_budgets w b" "w_reads w \<le> w_reads w'"
  shows "outstanding E b log w'"
  using assms unfolding clock_ok_def outstanding_def by (metis order_trans)

lemma outstanding_reserve:
  assumes "clock_ok E" "outstanding E b log w" "flt_ok nb"
    and r: "budget_reserve b key (env_clock E (w_reads w)) nb (w\<lparr>w_reads := w_reads w + 1\<rparr>) = (Ok r, w')"
  shows "outstanding E b (r # log) w'" "w_reads w' = w_reads w + 1"
proof -
  obtain t where t: "budget_run (w_budgets w b) log t" "t \<le> env_clock E (w_reads w)"
    using assms(2) by (auto simp: outstanding_def)
  let ?cur = "env_clock E (w_reads w)"
  obtain b' where res: "reserve (w_budgets w b) (VStr key) ?cur nb = (Ok r, b')"
    and w': "w' = w\<lparr>w_reads := w_reads w + 1, w_budgets := (w_budgets w)(b := b')\<rparr>"
    using r by (auto simp: budget_reserve_def split: prod.splits)
  have "flt_ok ?cur" "?cur \<le> env_clock E (Suc (w_reads w))" using assms(1) by (simp_all add: clock_ok_def)
  with run_reserve [OF t this(1) assms(3) res] show "outstanding E b (r # log) w'" "w_reads w' = w_reads w + 1"
    by (auto simp: outstanding_def w')
qed

lemma outstanding_reserve_error:
  assumes "clock_ok E" "outstanding E b log w"
    and r: "budget_reserve b key (env_clock E (w_reads w)) nb (w\<lparr>w_reads := w_reads w + 1\<rparr>) = (Raise e, w')"
  shows "outstanding E b log w'"
proof -
  obtain b' where res: "reserve (w_budgets w b) (VStr key) (env_clock E (w_reads w)) nb = (Raise e, b')"
    and w': "w' = w\<lparr>w_reads := w_reads w + 1, w_budgets := (w_budgets w)(b := b')\<rparr>"
    using r by (auto simp: budget_reserve_def split: prod.splits)
  from reserve_error_state [OF res] have "w_budgets w' b = w_budgets w b" by (simp add: w')
  with outstanding_later [OF assms(1,2) this] show ?thesis by (simp add: w')
qed

lemma outstanding_release:
  assumes "clock_ok E" "outstanding E b (xs @ r # ys) w"
  shows "outstanding E b (xs @ ys) (snd (budget_release E b r w))"
proof -
  obtain t where t: "budget_run (w_budgets w b) (xs @ r # ys) t" "t \<le> env_clock E (w_reads w)"
    using assms(2) by (auto simp: outstanding_def)
  have "distinct (map rs_token (xs @ r # ys))" using budget_invD(5) [OF budget_run_inv [OF t(1)]] .
  then have "rs_token x \<noteq> rs_token r" if "x \<in> set (xs @ ys)" for x using that by auto (metis image_eqI)+
  then have "filter (\<lambda>x. \<not> (rs_key x = rs_key r \<and> rs_token x = rs_token r)) (xs @ r # ys) = xs @ ys"
    by (auto simp: filter_id_conv)
  moreover have "flt_ok (env_clock E (w_reads w))" "env_clock E (w_reads w) \<le> env_clock E (Suc (w_reads w))"
    using assms(1) by (simp_all add: clock_ok_def)
  ultimately show ?thesis
    using run_release [OF t, of r] by (auto simp: outstanding_def budget_release_def py_bind_def clock_now_def)
qed

section \<open>What an execution relies on\<close>

text \<open>
  The contract between the waits of an execution and the budget they reserve from: \<open>held log w\<close> says that
  in the world \<open>w\<close> the reservations granted and not released are those of \<open>log\<close>. It survives everything
  that leaves the budgets alone, grows by what is reserved, and shrinks by what is released.
\<close>

locale reservation_ledger =
  fixes E :: "'u pyenv" and b :: nat and held :: "reservation list \<Rightarrow> 'u world_scheme \<Rightarrow> bool"
  assumes clock: "held log w \<Longrightarrow> flt_ok (env_clock E i)"
    and later: "held log w \<Longrightarrow> w_budgets w' b = w_budgets w b \<Longrightarrow> w_reads w \<le> w_reads w' \<Longrightarrow> held log w'"
    and reserve: "held log w \<Longrightarrow> flt_ok nb \<Longrightarrow>
      budget_reserve b key (env_clock E (w_reads w)) nb (w\<lparr>w_reads := w_reads w + 1\<rparr>) = (Ok r, w') \<Longrightarrow>
      held (r # log) w'"
    and reserve_error: "held log w \<Longrightarrow>
      budget_reserve b key (env_clock E (w_reads w)) nb (w\<lparr>w_reads := w_reads w + 1\<rparr>) = (Raise e, w') \<Longrightarrow>
      held log w'"
    and released: "held (xs @ r # ys) w \<Longrightarrow> held (xs @ ys) (snd (budget_release E b r w))"

definition kept :: "'u pyenv \<Rightarrow> nat \<Rightarrow> reservation list \<Rightarrow> 'u world_scheme \<Rightarrow> bool" where
  "kept E b log w \<longleftrightarrow> clock_ok E \<and> outstanding E b log w"

lemma kept_clock: "kept E b log w \<Longrightarrow> flt_ok (env_clock E i)"
  by (simp add: kept_def clock_ok_def)

interpretation log: reservation_ledger E b "kept E b" for E b
  by unfold_locales
    (auto simp: kept_def intro: kept_clock [unfolded kept_def] intro: outstanding_later outstanding_reserve(1) outstanding_reserve_error outstanding_release)

lemma budget_release_Ok: "budget_release E b r w = (Ok (), snd (budget_release E b r w))"
  by (simp add: budget_release_def py_bind_def clock_now_def)

section \<open>Planning a wait\<close>

lemma fl_add_finite_ok: "flt_ok x \<Longrightarrow> flt_finite y \<Longrightarrow> flt_ok (fl_add x y)"
  by (auto simp: fl_add_def flt_finite_def intro!: saturate_ok rnd_grid)


lemma plan_retry_pre:
  obtains st w1 where "(if delay_needs_state (pol_delay p) \<or> has_handler p BeforeSleep
      then py_bind (in_world (runtime_state E rt sfs)) (\<lambda>st. py_return (Some st))
      else py_return None) (f, w) = (Ok st, (f, w1))"
    "w_budgets w1 = w_budgets w" "w_reads w \<le> w_reads w1"
proof (cases "delay_needs_state (pol_delay p) \<or> has_handler p BeforeSleep")
  case True
  show thesis
    by (rule that, simp add: True runtime_state_def in_world_eq py_bind_eval clock_now_eq py_return_def) simp_all
qed (use that in \<open>auto simp: py_return_def\<close>)

lemma builtin_sleep_would_stop:
  assumes "builtin_stop (pol_stop p)"
  obtains c where "sleep_would_stop E p plan (f, w) = (Ok c, (f, w\<lparr>w_reads := w_reads w + 1\<rparr>))"
  using assms that unfolding sleep_would_stop_def bind_fio
  by (auto simp: in_world_eq py_bind_def clock_now_eq should_stop_before_sleep_def
      should_stop_builtin py_return_def)

text \<open>What a plan holds of the budget \<open>b\<close>: its reservation, on top of the log.\<close>

definition plan_holds :: "'u pyenv \<Rightarrow> nat \<Rightarrow> reservation list \<Rightarrow> wait_plan \<Rightarrow> 'u world_scheme \<Rightarrow> bool" where
  "plan_holds E b log plan w \<longleftrightarrow>
     (\<exists>r. wp_reservation plan = Some r \<and> wp_budget plan = Some b \<and> outstanding E b (r # log) w)"

context reservation_ledger
begin

definition holds :: "reservation list \<Rightarrow> wait_plan \<Rightarrow> 'u world_scheme \<Rightarrow> bool" where
  "holds log plan w \<longleftrightarrow> (\<exists>r. wp_reservation plan = Some r \<and> wp_budget plan = Some b \<and> held (r # log) w)"

lemma holds_later: "holds log plan w \<Longrightarrow> w_budgets w' b = w_budgets w b \<Longrightarrow> w_reads w \<le> w_reads w' \<Longrightarrow> holds log plan w'"
  unfolding holds_def by (metis later)

lemma released_head: "held (r # log) w \<Longrightarrow> held log (snd (budget_release E b r w))"
  using released [of "[]" r log w] by simp

lemma release_plan:
  assumes "holds log plan w"
  obtains w' where "release_retry_wait E plan w = (Ok (), w')" "held log w'"
proof -
  from assms obtain r where r: "wp_reservation plan = Some r" "wp_budget plan = Some b" "held (r # log) w"
    by (auto simp: holds_def)
  show thesis
    using that [OF _ released_head [OF r(3)]] budget_release_Ok [of E b r w] by (simp add: release_retry_wait_def r)
qed

lemma plan_retry_wait_log:
  assumes E: "env_ok E" and d: "delay_wf (pol_delay p)" and b: "pol_budget p = Some b"
    and n: "int n < 2 ^ 50" and out: "held log w"
    and m: "plan_retry_wait E p n st w = (r, w')"
  shows "case r of Ok (Some plan) \<Rightarrow> holds log plan w' | _ \<Rightarrow> held log w'"
proof -
  obtain v k x where v: "resolve_delay E (pol_delay p) (int n) st w = (Ok v, w\<lparr>w_draws := k\<rparr>)"
    "ensure_resolved_delay v = Ok x" "safe_delay x"
    by (rule wf_delay_total [OF E d n])
  show ?thesis
  proof (cases "pol_budget_key p")
    case None
    then have "r = Raise (new_exn RuntimeError_t ''retry budget configured without a key'')"
      "w' = w\<lparr>w_draws := k\<rparr>"
      using m v by (simp_all add: plan_retry_wait_def py_bind_def py_eval b)
    with later [OF out] show ?thesis by simp
  next
    case (Some key)
    let ?w1 = "w\<lparr>w_draws := k\<rparr>"
    let ?cur = "env_clock E (w_reads w)"
    let ?nb = "fl_add ?cur x"
    have out1: "held log ?w1" using later [OF out] by simp
    have nb: "flt_ok ?nb"
      using clock [OF out] safe_delay_finite [OF v(3)] by (intro fl_add_finite_ok) simp_all
    obtain rr w2 where res: "budget_reserve b key ?cur ?nb (?w1\<lparr>w_reads := w_reads ?w1 + 1\<rparr>) = (rr, w2)"
      by (metis prod.exhaust)
    define body where "body r0 = (let budget_delay = max 0 (fl_sub (rs_scheduled_at r0) ?nb);
           total_delay = fl_add x budget_delay
       in if MAX_SLEEP_SECONDS < total_delay
          then py_bind (budget_release E b r0) (\<lambda>_. py_return None)
          else
            py_bind (py_lift (ensure_resolved_delay (VFloat budget_delay))) (\<lambda>bd.
            py_bind (py_lift (ensure_resolved_delay (VFloat total_delay))) (\<lambda>td.
              py_return (Some \<lparr>wp_policy_delay = x, wp_budget_delay = bd,
                wp_total_delay = td, wp_reservation = Some r0, wp_budget = Some b\<rparr>)))
        :: ('u, wait_plan option) io)" for r0
    have m': "py_bind (budget_reserve b key ?cur ?nb)
        (\<lambda>r0. on_error (body r0) (budget_release E b r0)) (?w1\<lparr>w_reads := w_reads ?w1 + 1\<rparr>) = (r, w')"
      using m v unfolding body_def
      by (simp add: plan_retry_wait_def py_bind_def [of "resolve_delay E d n s" for d n s]
          py_bind_def [of "py_lift z" for z] py_bind_def [of "clock_now E"] py_eval b Some clock_now_def Let_def
          del: ensure_resolved_delay.simps cong: if_cong)
    show ?thesis
    proof (cases rr)
      case (Raise e)
      with m' res have "r = Raise e" "w' = w2" by (simp_all add: py_bind_def)
      with reserve_error [OF out1] res Raise show ?thesis by fastforce
    next
      case (Ok r0)
      have out2: "held (r0 # log) w2"
        using reserve [OF out1, of ?nb key r0 w2] nb res Ok by simp
      note rel = budget_release_Ok [of E b r0 w2] released_head [OF out2]
      have b': "on_error (body r0) (budget_release E b r0) w2 = (r, w')"
        using m' res Ok by (simp add: py_bind_def)
      obtain rb wb where body: "body r0 w2 = (rb, wb)" by (metis prod.exhaust)
      then have "(rb = Ok None \<and> held log wb) \<or> (\<exists>plan. rb = Ok (Some plan) \<and> holds log plan wb)
          \<or> (\<exists>e. rb = Raise e \<and> wb = w2)"
        using rel out2 unfolding body_def Let_def
        by (auto simp: py_bind_def py_eval holds_def simp del: ensure_resolved_delay.simps
            split: if_splits res.splits prod.splits)
      with b' body rel show ?thesis
        by (auto simp: on_error_def py_catch_def py_bind_def py_raise_def split: prod.splits)
    qed
  qed
qed

lemma plan_retry_log:
  assumes E: "env_ok E" and h: "pol_handlers p = []" and s: "builtin_stop (pol_stop p)"
    and d: "delay_wf (pol_delay p)" and b: "pol_budget p = Some b"
    and n: "int (rn_attempt_number (fw_runtime f)) < 2 ^ 50" and out: "held log w"
    and m: "plan_retry E p a (f, w) = (r, (f', w'))"
  shows "case r of Ok (Wait plan) \<Rightarrow> holds log plan w' | _ \<Rightarrow> held log w'"
proof -
  let ?n = "rn_attempt_number (fw_runtime f)"
  let ?sfs = "no_fields\<lparr>sf_last_value := ao_value a, sf_last_error := ao_error a,
    sf_has_value := ao_has_value a, sf_retry_cause := Some (ao_cause a), sf_will_retry := True\<rparr>"
  let ?pre = "if delay_needs_state (pol_delay p) \<or> has_handler p BeforeSleep
      then py_bind (in_world (runtime_state E (fw_runtime f) ?sfs)) (\<lambda>st. py_return (Some st))
      else py_return None"
  obtain st w1 where pre: "(if delay_needs_state (pol_delay p) \<or> has_handler p BeforeSleep
      then py_bind (in_world (runtime_state E (fw_runtime f) ?sfs)) (\<lambda>st. py_return (Some st))
      else py_return None) (f, w) = (Ok st, (f, w1))"
    and w1: "w_budgets w1 = w_budgets w" "w_reads w \<le> w_reads w1"
    by (rule plan_retry_pre)
  then have w1_b: "w_budgets w1 b = w_budgets w b" by simp
  obtain rp w2 where plan: "plan_retry_wait E p ?n st w1 = (rp, w2)" by (metis prod.exhaust)
  note log = plan_retry_wait_log [OF E d b n later [OF out w1_b w1(2)] plan]
  define rest where "rest = (\<lambda>planned. case planned of
         None \<Rightarrow> exhaust E p a
       | Some plan \<Rightarrow>
           py_bind (sleep_would_stop E p plan) (\<lambda>stop_first.
             if stop_first
             then py_bind (in_world (release_retry_wait E plan)) (\<lambda>_. exhaust E p a)
             else
               py_bind (sleep_would_stop E p plan) (\<lambda>stop_now.
                 if stop_now
                 then py_bind (in_world (release_retry_wait E plan)) (\<lambda>_. exhaust E p a)
                 else py_return (Wait plan))))"
  have none: "on_error (py_return x) c = py_return x" for x :: unit and c :: "('a, unit) io"
    by (simp add: fun_eq_iff on_error_def py_catch_def py_return_def)
  have m': "py_bind (in_world (plan_retry_wait E p ?n st)) rest (f, w1) = (r, (f', w'))"
    using m unfolding plan_retry_def bind_fio rest_def
    by (subst (asm) py_bind_eval(1) [of ?pre "(f, w)" st "(f, w1)", OF pre]) (simp add: no_handlers [OF h] none cong: if_cong option.case_cong)
  have rel: "py_bind (in_world (release_retry_wait E plan)) (\<lambda>_. exhaust E p a) (f, v) = (r, (f', w'))
      \<Longrightarrow> holds log plan v \<Longrightarrow> (\<exists>rr. r = Ok (Final Exhaust rr)) \<and> held log w'" for plan v
  proof -
    assume c: "py_bind (in_world (release_retry_wait E plan)) (\<lambda>_. exhaust E p a) (f, v) = (r, (f', w'))"
      and "holds log plan v"
    from release_plan [OF this(2)] obtain v' where
      "release_retry_wait E plan v = (Ok (), v')" and o: "held log v'" .
    with c show ?thesis
      using later [OF o, of w'] by (auto simp: bind_in_world plain_exhaust [OF h])
  qed
  show ?thesis
  proof (cases rp)
    case (Raise e)
    with m' plan log show ?thesis by (auto simp: bind_in_world)
  next
    case (Ok planned)
    show ?thesis
    proof (cases planned)
      case None
      with m' plan log Ok show ?thesis
        using later [of log w2 w'] by (auto simp: bind_in_world rest_def plain_exhaust [OF h])
    next
      case (Some pl)
      with log Ok have holds: "holds log pl w2" by simp
      obtain c1 where c1: "sleep_would_stop E p pl (f, w2) = (Ok c1, (f, w2\<lparr>w_reads := w_reads w2 + 1\<rparr>))"
        by (rule builtin_sleep_would_stop [OF s])
      let ?w3 = "w2\<lparr>w_reads := w_reads w2 + 1\<rparr>"
      obtain c2 where c2: "sleep_would_stop E p pl (f, ?w3) = (Ok c2, (f, ?w3\<lparr>w_reads := w_reads ?w3 + 1\<rparr>))"
        by (rule builtin_sleep_would_stop [OF s])
      let ?w4 = "?w3\<lparr>w_reads := w_reads ?w3 + 1\<rparr>"
      have h3: "holds log pl ?w3" and h4: "holds log pl ?w4"
        using holds_later [OF holds] by simp_all
      from m' plan Ok Some have "(if c1 then py_bind (in_world (release_retry_wait E pl)) (\<lambda>_. exhaust E p a) (f, ?w3)
        else if c2 then py_bind (in_world (release_retry_wait E pl)) (\<lambda>_. exhaust E p a) (f, ?w4)
        else (Ok (Wait pl), (f, ?w4))) = (r, (f', w'))"
        by (cases c1; cases c2) (simp_all add: bind_in_world rest_def
            py_bind_def [of "sleep_would_stop E p pl"] c1 c2 [simplified] py_return_def)
      with h3 h4 show ?thesis by (auto split: if_splits dest!: rel)
    qed
  qed
qed

end

section \<open>Properties\<close>


text \<open>A clock that stands still, and a policy on the budget of the heap key 0.\<close>

definition still_env :: "'u pyenv" where
  "still_env = ex_env\<lparr>env_clock := \<lambda>i. sec 100\<rparr>"

definition budget_policy :: "'s stop \<Rightarrow> 's policy" where
  "budget_policy s = ex_policy\<lparr>pol_stop := s, pol_delay := FixedDelay (PInt 1),
     pol_budget := Some 0, pol_budget_key := Some ''api''\<rparr>"

lemma still_env_ok: "env_ok still_env" "clock_ok still_env"
  using ex_env_ok by (simp_all add: env_ok_def clock_ok_def still_env_def)

lemma ex_outstanding: "outstanding still_env 0 [] ex_world"
proof -
  have "budget_run ex_b0 [] (sec 100)" by (rule run_init [OF ex_init]) (simp_all add: ex_b0_def)
  then show ?thesis by (auto simp: outstanding_def ex_world_def still_env_def)
qed

definition ex_flow :: flow where
  "ex_flow = \<lparr>fw_runtime = (runtime_init ''f'' (sec 100) None None)\<lparr>rn_attempt_number := 1\<rparr>,
     fw_attempt_started_at = sec 100\<rparr>"


text \<open>
  A stop strategy of the user that answers while no time has passed and raises for the time after the
  planned sleep, as \<open>should_stop_before_sleep\<close> asks it.
\<close>

definition raising_stop :: "'s stop" where
  "raising_stop = UserStop (\<lambda>n elapsed.
     if 0 < elapsed then py_raise (new_exn RuntimeError_t ''strategy failed'') else py_return False)"

lemma budget_policy_facts:
  "pol_handlers (budget_policy s) = []" "\<not> delay_needs_state (pol_delay (budget_policy s))"
  "pol_stop (budget_policy s) = s"
  "pol_history_limit (budget_policy s) = Some 1000" "pol_name (budget_policy s) = None"
  "env_clock still_env i = sec 100" "w_reads ex_world = 0"
  by (simp_all add: budget_policy_def delay_needs_state_iff ex_policy_def default_policy_def
      still_env_def ex_world_def)

lemma raising_stop_now: "should_stop raising_stop n 0 = py_return False"
  by (simp add: raising_stop_def)

text \<open>The world once the retry is planned: the slot at second 101 is reserved.\<close>

definition ex_slot :: reservation where
  "ex_slot = \<lparr>rs_token = 1, rs_key = ''api'', rs_scheduled_at = sec 101\<rparr>"

definition ex_held :: "nat \<Rightarrow> world" where
  "ex_held n = ex_world\<lparr>w_reads := n, w_budgets := (\<lambda>i. ex_b0)(0 :=
    ex_b0\<lparr>bg_reservations := [''api'' \<mapsto> [ex_slot]], bg_next_token := 2, bg_op_count := 1\<rparr>)\<rparr>"

lemma ex_reserve_next: "reserve ex_b0 (VStr ''api'') (sec 100) (sec 101) =
    (Ok ex_slot,
     ex_b0\<lparr>bg_reservations := [''api'' \<mapsto> [ex_slot]], bg_next_token := 2, bg_op_count := 1\<rparr>)"
  by (simp add: reserve_def ex_key ex_b0_def maybe_cleanup_def ex_slot_def
      CLEANUP_INTERVAL_def prune_def scheduled_times_def slot_free Let_def numeral_2_eq_2 del: validate_key.simps)

lemma budget_policy_wait:
  "plan_retry_wait still_env (budget_policy s) 1 None (ex_world\<lparr>w_reads := 3\<rparr>) =
    (Ok (Some \<lparr>wp_policy_delay = sec 1, wp_budget_delay = 0, wp_total_delay = sec 1,
       wp_reservation = Some ex_slot, wp_budget = Some 0\<rparr>), ex_held 4)"
proof -
  have rd: "resolve_delay still_env (FixedDelay (PInt 1)) 1 None w = (Ok (VInt 1), w)" for w :: world
    by (simp add: resolve_delay_def next_delay_def additive_parts_def py_return_def)
  have v: "ensure_resolved_delay (VInt 1) = Ok (sec 1)" "ensure_resolved_delay (VFloat 0) = Ok 0"
    "ensure_resolved_delay (VFloat (sec 1)) = Ok (sec 1)"
    using sec_finite [of 0] by (simp_all add: py_float_def MAX_SLEEP_SECONDS_def not_less not_le sec_0)
  have add0: "fl_add (sec 1) 0 = sec 1" using fl_add_sec [of 1 0] by (simp add: sec_0)
  have "rs_scheduled_at ex_slot = sec 101" by (simp add: ex_slot_def)
  with ex_reserve_next show ?thesis
    by (simp add: plan_retry_wait_def budget_policy_def ex_held_def py_bind_def rd v py_eval clock_now_eq
        budget_reserve_def ex_world_def on_error_def py_catch_def budget_policy_facts raising_stop_now Let_def sec_MAX sec_0 add0
        del: ensure_resolved_delay.simps)
qed

lemma raising_stop_plan:
  assumes g: "rn_attempt_number (fw_runtime g) = 1" "rn_started_at (fw_runtime g) = sec 100"
  shows "plan_retry still_env (budget_policy raising_stop) a (g, ex_world\<lparr>w_reads := 3\<rparr>)
    = (Raise (new_exn RuntimeError_t ''strategy failed''), (g, ex_held 5))"
proof -
  have stop: "sleep_would_stop still_env (budget_policy raising_stop) plan (g, u) =
      (Raise (new_exn RuntimeError_t ''strategy failed''), (g, u\<lparr>w_reads := w_reads u + 1\<rparr>))"
    if "wp_total_delay plan = sec 1" for plan u
    using that fl_add_sec [of 0 1] unfolding sleep_would_stop_def bind_fio
    by (simp add: in_world_eq py_bind_def clock_now_eq budget_policy_facts(6) g
        should_stop_before_sleep_def budget_policy_def raising_stop_def py_raise_def)
  show ?thesis
    using budget_policy_wait unfolding plan_retry_def bind_fio
    by (simp add: no_handlers [OF budget_policy_facts(1)] budget_policy_facts raising_stop_now bind_in_world g
        py_bind_def [of "sleep_would_stop E q x" for E q x] stop ex_held_def)
qed

lemma raising_stop_step:
  fixes f :: flow
  defines "f \<equiv> \<lparr>fw_runtime = runtime_init ''task'' (sec 100) (Some 1000) None, fw_attempt_started_at = sec 100\<rparr>"
  shows "\<exists>g. sync_step still_env (budget_policy raising_stop) (py_raise (new_exn TimeoutError_t ''slow''))
      (f, ex_world\<lparr>w_reads := 1\<rparr>) = (Raise (new_exn RuntimeError_t ''strategy failed''), (g, ex_held 5))"
proof -
  let ?E = "still_env :: unit pyenv"
  let ?p = "budget_policy raising_stop :: world policy"
  let ?e = "new_exn TimeoutError_t ''slow''"
  let ?g = "f\<lparr>fw_runtime := record_failure (sec 100) (sec 100) ?e (begin_attempt (fw_runtime f))\<rparr>"
  have zero: "fl_sub (sec 100) (sec 100) = 0" by (simp add: sec_0)
  have e: "is_exception ?e" "\<not> is_try_again ?e"
    "should_retry_exception (pol_condition ?p) ?e = py_return True"
    by (simp_all add: isinstance_exn_def new_exn_def exc_type_defs budget_policy_def ex_policy_def default_policy_def)
  have ae: "after_exception ?E ?p ?e (entered ?E f (ex_world\<lparr>w_reads := 1\<rparr>), ex_world\<lparr>w_reads := 2\<rparr>)
      = plan_retry ?E ?p (exception_outcome ?e) (?g, ex_world\<lparr>w_reads := 3\<rparr>)"
    using e
    by (simp add: after_exception_def decide_exception_def bind_fio no_handlers [OF budget_policy_facts(1)] entered_def
        budget_policy_facts raising_stop_now Let_def f_def record_failure_def begin_attempt_def runtime_init_def zero)
  have "plan_retry ?E ?p (exception_outcome ?e) (?g, ex_world\<lparr>w_reads := 3\<rparr>)
      = (Raise (new_exn RuntimeError_t ''strategy failed''), (?g, ex_held 5))"
    by (rule raising_stop_plan) (simp_all add: f_def record_failure_def begin_attempt_def runtime_init_def)
  with ae e show ?thesis
    by (simp add: numeral_2_eq_2 plain_step [OF budget_policy_facts(1)] py_bind_def try_attempt_def in_world_eq
        py_raise_def)
qed

text \<open>
  C31: the reservation that leaks. Both calls of \<open>_sleep_would_stop\<close> in \<open>_plan_retry\<close> stand outside the
  \<open>try\<close> that releases the plan: when the stop strategy raises there, the call ends with that exception
  and the reservation stays in the shared budget although no retry follows.
\<close>

theorem raising_stop_leaks_reservation:
  "\<exists>w'. run still_env (budget_policy raising_stop) ''task''
      (PyFun (Function PlainFunction) (py_raise (new_exn TimeoutError_t ''slow''))) ex_world
      = Some (Raise (new_exn RuntimeError_t ''strategy failed''), w')
    \<and> bg_reservations (w_budgets w' 0) ''api''
      = Some [\<lparr>rs_token = 1, rs_key = ''api'', rs_scheduled_at = sec 101\<rparr>]"
proof -
  have "execute_sync still_env (budget_policy raising_stop) ''task'' (py_raise (new_exn TimeoutError_t ''slow''))
      ex_world = Some (Raise (new_exn RuntimeError_t ''strategy failed''), ex_held 5)"
    using raising_stop_step
    by (auto simp: execute_sync_def flow_init_eq drop_flow_def budget_policy_facts raising_stop_now
        while_true.simps [of _ "(x, y)" for x y])
  moreover have "ensure_sync_retryable_callable (Function PlainFunction) = Ok ()" by (simp add: callable_defs)
  ultimately show ?thesis
    by (simp add: run_def ex_held_def ex_slot_def)
qed

end
