(* ===== verification/EventLoop.thy ===== *)
theory EventLoop
  imports Main "HOL-Library.Multiset" BudgetFlow
begin

text \<open>
  Executions that run concurrently on one event loop and share a retry budget. A task gives control up
  only while its function or its sleep is awaited, so its steps between two awaits are atomic:
  \<open>RetryFlow.next_attempt\<close> and \<open>enter_attempt\<close> before an attempt, \<open>after_exception\<close> or \<open>after_value\<close>
  behind it. Everything else of the process may run in between.
\<close>

section \<open>Deciding keeps the ledger\<close>

text \<open>A computation of the user that does not touch the budget \<open>b\<close>.\<close>

definition leaves_budget :: "nat \<Rightarrow> ('u, 'a) io \<Rightarrow> bool" where
  "leaves_budget b m \<longleftrightarrow>
     (\<forall>w r w'. m w = (r, w') \<longrightarrow> w_budgets w' b = w_budgets w b \<and> w_reads w \<le> w_reads w')"

text \<open>The policies whose executions take part: they share \<open>b\<close>, and their strategies are built in.\<close>

definition shares :: "nat \<Rightarrow> 'u world_scheme policy \<Rightarrow> bool" where
  "shares b p \<longleftrightarrow> pol_budget p = Some b \<and> pol_handlers p = [] \<and> builtin_stop (pol_stop p)
     \<and> delay_wf (pol_delay p) \<and> (\<forall>e. leaves_budget b (should_retry_exception (pol_condition p) e))
     \<and> (\<forall>v. leaves_budget b (should_retry_result (pol_condition p) v))"

context reservation_ledger
begin

lemma undecided_waits:
  assumes "env_ok E" "shares b p" "int (rn_attempt_number (fw_runtime f)) < 2 ^ 50" "held log w"
  shows "decide_exception E p e again ended (f, w) = (r, (f', w')) \<Longrightarrow>
      case r of Ok (Wait plan) \<Rightarrow> holds log plan w' | _ \<Rightarrow> held log w'"
    and "decide_value E p v has again ended (f, w) = (r, (f', w')) \<Longrightarrow>
      case r of Ok (Wait plan) \<Rightarrow> holds log plan w' | _ \<Rightarrow> held log w'"
proof -
  note p = assms(2) [unfolded shares_def]
  have plan: "plan_retry E p a (f, w) = (r, (f', w')) \<Longrightarrow>
      case r of Ok (Wait plan) \<Rightarrow> holds log plan w' | _ \<Rightarrow> held log w'" for a
    using plan_retry_log [OF assms(1) _ _ _ _ assms(3,4)] p by blast
  have over: "held log (w\<lparr>w_reads := w_reads w + 1\<rparr>)" by (rule later [OF assms(4)]) simp_all
  show "decide_exception E p e again ended (f, w) = (r, (f', w')) \<Longrightarrow>
      case r of Ok (Wait plan) \<Rightarrow> holds log plan w' | _ \<Rightarrow> held log w'"
    using p plan over unfolding decide_exception_def bind_fio
    by (auto simp: should_stop_builtin no_handlers plain_exhaust bind_fio Let_def py_return_def split: if_splits)
  show "decide_value E p v has again ended (f, w) = (r, (f', w')) \<Longrightarrow>
      case r of Ok (Wait plan) \<Rightarrow> holds log plan w' | _ \<Rightarrow> held log w'"
    using p plan over unfolding decide_value_def bind_fio
    by (auto simp: should_stop_builtin no_handlers plain_exhaust bind_fio Let_def py_return_def split: if_splits)
qed

lemma after_attempt:
  assumes "env_ok E" "shares b p" "int (rn_attempt_number (fw_runtime f)) < 2 ^ 50" "held log w"
  shows "after_exception E p e (f, w) = (r, (f', w')) \<Longrightarrow>
      case r of Ok (Wait plan) \<Rightarrow> holds log plan w' | _ \<Rightarrow> held log w'"
    and "after_value E p v has (f, w) = (r, (f', w')) \<Longrightarrow>
      case r of Ok (Wait plan) \<Rightarrow> holds log plan w' | _ \<Rightarrow> held log w'"
proof -
  note p = assms(2) [unfolded shares_def]
  have asked: "held log u \<Longrightarrow> leaves_budget b m \<Longrightarrow> m u = (x, u') \<Longrightarrow> held log u'" for m :: "('u, bool) io" and u x u'
    unfolding leaves_budget_def by (metis later)
  have clocked: "held log u \<Longrightarrow> held log (u\<lparr>w_reads := w_reads u + 1\<rparr>)" for u
    by (rule later [of log u]) simp_all
  have failed: "rn_attempt_number (record_failure a z x rt) = rn_attempt_number rt" for a z x rt
    by (simp add: record_failure_def Let_def)
  have succeeded: "rn_attempt_number (record_success a z x h rt) = rn_attempt_number rt" for a z x h rt
    by (simp add: record_success_def Let_def)
  show "case r of Ok (Wait plan) \<Rightarrow> holds log plan w' | _ \<Rightarrow> held log w'"
    if m: "after_exception E p e (f, w) = (r, (f', w'))"
  proof -
    let ?ask = "if is_try_again e then py_return True else in_world (should_retry_exception (pol_condition p) e)"
    obtain x w1 where q: "?ask (f, w) = (x, (f, w1))" and h: "held log w1"
      using asked [OF assms(4)] p assms(4)
      by (cases "is_try_again e"; cases "should_retry_exception (pol_condition p) e w") (auto simp: in_world_eq py_return_def)
    show ?thesis
    proof (cases x)
      case (Raise err)
      with m q h show ?thesis unfolding after_exception_def by (auto simp: py_bind_def)
    next
      case (Ok again)
      let ?g = "f\<lparr>fw_runtime := record_failure (fw_attempt_started_at f) (env_clock E (w_reads w1)) e (fw_runtime f)\<rparr>"
      have "decide_exception E p e again (env_clock E (w_reads w1)) (?g, w1\<lparr>w_reads := w_reads w1 + 1\<rparr>) = (r, (f', w'))"
        using m q Ok unfolding after_exception_def
        by (subst (asm) py_bind_eval(1) [of ?ask "(f, w)" again "(f, w1)", OF q [unfolded Ok]]) (simp add: bind_fio)
      from undecided_waits(1) [OF assms(1,2) _ clocked [OF h] this] show ?thesis
        using assms(3) by (simp add: failed)
    qed
  qed
  show "case r of Ok (Wait plan) \<Rightarrow> holds log plan w' | _ \<Rightarrow> held log w'"
    if m: "after_value E p v has (f, w) = (r, (f', w'))"
  proof -
    let ?ask = "if has then in_world (should_retry_result (pol_condition p) v) else py_return False"
    let ?g = "f\<lparr>fw_runtime := record_success (fw_attempt_started_at f) (env_clock E (w_reads w)) v has (fw_runtime f)\<rparr>"
    have c: "held log (w\<lparr>w_reads := w_reads w + 1\<rparr>)" by (rule clocked [OF assms(4)])
    obtain y w2 where call: "should_retry_result (pol_condition p) v (w\<lparr>w_reads := w_reads w + 1\<rparr>) = (y, w2)"
      by (metis prod.exhaust)
    have "held log w2" using asked [OF c, of _ y w2] p call by blast
    with c call obtain x w1 where q: "?ask (?g, w\<lparr>w_reads := w_reads w + 1\<rparr>) = (x, (?g, w1))" and h: "held log w1"
      by (cases has) (auto simp: in_world_eq py_return_def)
    have m': "py_bind ?ask (\<lambda>again. decide_value E p v has again (env_clock E (w_reads w)))
        (?g, w\<lparr>w_reads := w_reads w + 1\<rparr>) = (r, (f', w'))"
      using m unfolding after_value_def bind_fio by simp
    show ?thesis
    proof (cases x)
      case (Raise err)
      with m' q h show ?thesis by (auto simp: py_bind_def)
    next
      case (Ok again)
      have "decide_value E p v has again (env_clock E (w_reads w)) (?g, w1) = (r, (f', w'))"
        using m' by (subst (asm) py_bind_eval(1) [of ?ask "(?g, w\<lparr>w_reads := w_reads w + 1\<rparr>)" again "(?g, w1)", OF q [unfolded Ok]])
      from undecided_waits(2) [OF assms(1,2) _ h this] show ?thesis
        using assms(3) by (simp add: succeeded)
    qed
  qed
qed

end

section \<open>The event loop\<close>

text \<open>Where a task stands: before an attempt, awaiting the function, awaiting a sleep, or returned.\<close>

datatype activity = Ready | Attempting | Sleeping wait_plan | Over

datatype 'u task = Task (tk_policy: "'u world_scheme policy") (tk_flow: flow) (tk_activity: activity)

definition decided :: "decision res \<Rightarrow> activity" where
  "decided r = (case r of Ok (Wait plan) \<Rightarrow> Sleeping plan | _ \<Rightarrow> Over)"

text \<open>The reservation a task waits for.\<close>

fun awaited :: "activity \<Rightarrow> reservation list" where
  "awaited (Sleeping plan) = (case wp_reservation plan of None \<Rightarrow> [] | Some r \<Rightarrow> [r])"
| "awaited _ = []"

definition pending :: "'u task list \<Rightarrow> reservation list" where
  "pending ts = concat (map (\<lambda>t. awaited (tk_activity t)) ts)"

text \<open>
  One step of the loop on the tasks, the reservations whose retries have been carried out, and the world.
  \<open>interrupted\<close> and \<open>sleep_failed\<close> are the exceptions that leave the executor, cancellation included;
  \<open>elsewhere\<close> is whatever else runs in the process without touching the budget \<open>b\<close>. Attempts are counted up to
  \<open>2 ^ 50\<close>, where the delays are still computed on exact attempt numbers.
\<close>

inductive loop_step ::
    "'u pyenv \<Rightarrow> nat \<Rightarrow> 'u task list \<times> reservation list \<times> 'u world_scheme
      \<Rightarrow> 'u task list \<times> reservation list \<times> 'u world_scheme \<Rightarrow> bool" for E b where
  spawned: "shares b p \<Longrightarrow> flow_init E p name w = (Ok f, w') \<Longrightarrow>
     loop_step E b (ts, rs, w) (ts @ [Task p f Ready], rs, w')"
| entered_attempt: "i < length ts \<Longrightarrow> ts ! i = Task p f Ready \<Longrightarrow>
     py_bind next_attempt (\<lambda>_. enter_attempt E p) (f, w) = (Ok (), (f', w')) \<Longrightarrow>
     loop_step E b (ts, rs, w) (ts[i := Task p f' Attempting], rs, w')"
| raised: "i < length ts \<Longrightarrow> ts ! i = Task p f Attempting \<Longrightarrow> int (rn_attempt_number (fw_runtime f)) < 2 ^ 50 \<Longrightarrow>
     is_exception e \<Longrightarrow> after_exception E p e (f, w) = (r, (f', w')) \<Longrightarrow>
     loop_step E b (ts, rs, w) (ts[i := Task p f' (decided r)], rs, w')"
| returned: "i < length ts \<Longrightarrow> ts ! i = Task p f Attempting \<Longrightarrow> int (rn_attempt_number (fw_runtime f)) < 2 ^ 50 \<Longrightarrow>
     after_value E p v True (f, w) = (r, (f', w')) \<Longrightarrow>
     loop_step E b (ts, rs, w) (ts[i := Task p f' (decided r)], rs, w')"
| interrupted: "i < length ts \<Longrightarrow> ts ! i = Task p f Attempting \<Longrightarrow>
     loop_step E b (ts, rs, w) (ts[i := Task p f Over], rs, w)"
| woken: "i < length ts \<Longrightarrow> ts ! i = Task p f (Sleeping plan) \<Longrightarrow>
     loop_step E b (ts, rs, w) (ts[i := Task p f Ready], awaited (Sleeping plan) @ rs, w)"
| sleep_failed: "i < length ts \<Longrightarrow> ts ! i = Task p f (Sleeping plan) \<Longrightarrow>
     release_retry_wait E plan w = (Ok (), w') \<Longrightarrow>
     loop_step E b (ts, rs, w) (ts[i := Task p f Over], rs, w')"
| elsewhere: "w_budgets w' b = w_budgets w b \<Longrightarrow> w_reads w \<le> w_reads w' \<Longrightarrow>
     loop_step E b (ts, rs, w) (ts, rs, w')"

section \<open>Nothing is lost and nothing leaks\<close>

lemma pending_snoc: "pending (ts @ [t]) = pending ts @ awaited (tk_activity t)"
  by (simp add: pending_def)

lemma pending_update:
  assumes "i < length ts"
  shows "mset (pending (ts[i := t])) + mset (awaited (tk_activity (ts ! i)))
    = mset (pending ts) + mset (awaited (tk_activity t))"
proof -
  have "pending ts = pending (take i ts) @ awaited (tk_activity (ts ! i)) @ pending (drop (Suc i) ts)"
    by (subst id_take_nth_drop [OF assms]) (simp add: pending_def)
  moreover have "pending (ts[i := t]) = pending (take i ts) @ awaited (tk_activity t) @ pending (drop (Suc i) ts)"
    by (simp add: upd_conv_take_nth_drop [OF assms] pending_def)
  ultimately show ?thesis by simp
qed

definition task_ok :: "nat \<Rightarrow> 'u task \<Rightarrow> bool" where
  "task_ok b t \<longleftrightarrow> shares b (tk_policy t) \<and>
     (case tk_activity t of Sleeping plan \<Rightarrow> wp_budget plan = Some b \<and> wp_reservation plan \<noteq> None | _ \<Rightarrow> True)"

context reservation_ledger
begin

definition balanced :: "'u task list \<times> reservation list \<times> 'u world_scheme \<Rightarrow> bool" where
  "balanced s = (case s of (ts, rs, w) \<Rightarrow>
     (\<forall>t\<in>set ts. task_ok b t) \<and> (\<exists>log. held log w \<and> mset log = mset (pending ts @ rs)))"

lemma balanced_update:
  assumes "\<forall>t\<in>set ts. task_ok b t" "i < length ts" "task_ok b t" "held log w"
    and "mset log + mset (awaited (tk_activity (ts ! i))) = mset (pending ts @ rs) + mset (awaited (tk_activity t))"
  shows "balanced (ts[i := t], rs, w)"
  unfolding balanced_def
proof (simp only: prod.case, intro conjI exI [of _ log])
  show "\<forall>x\<in>set (ts[i := t]). task_ok b x"
    using assms(1,3) by (auto dest: set_update_subset_insert [THEN subsetD])
  show "mset log = mset (pending (ts[i := t]) @ rs)"
  proof -
    let ?old = "mset (awaited (tk_activity (ts ! i)))" and ?new = "mset (awaited (tk_activity t))"
    have "mset log + ?old = mset (pending ts) + ?new + mset rs" using assms(5) by (simp add: ac_simps)
    also have "\<dots> = mset (pending (ts[i := t])) + ?old + mset rs" using pending_update [OF assms(2), of t] by simp
    finally have "mset log + ?old = mset (pending (ts[i := t]) @ rs) + ?old" by (simp add: ac_simps)
    then show ?thesis by simp
  qed
qed (rule assms(4))

lemma balanced_decided:
  assumes "case r of Ok (Wait plan) \<Rightarrow> holds log plan w' | _ \<Rightarrow> held log w'"
    and "\<forall>t\<in>set ts. task_ok b t" "i < length ts" "ts ! i = Task p f Attempting" "mset log = mset (pending ts @ rs)"
  shows "balanced (ts[i := Task p f' (decided r)], rs, w')"
proof -
  have p: "shares b p" using assms(2,3,4) nth_mem [OF assms(3)] by (auto simp: task_ok_def)
  show ?thesis
  proof (cases "\<exists>plan. r = Ok (Wait plan)")
    case True
    then obtain plan res where r: "r = Ok (Wait plan)" "wp_reservation plan = Some res" "wp_budget plan = Some b"
      "held (res # log) w'" using assms(1) by (auto simp: holds_def)
    show ?thesis
      by (rule balanced_update [OF assms(2,3) _ r(4)]) (simp_all add: task_ok_def p decided_def r assms(4,5))
  next
    case False
    then have "decided r = Over" "held log w'"
      using assms(1) by (auto simp: decided_def split: res.splits decision.splits)
    then show ?thesis
      by (intro balanced_update [OF assms(2,3), where log = log]) (simp_all add: task_ok_def p assms(4,5))
  qed
qed

lemma balanced_task:
  assumes "balanced (ts, rs, w)" "i < length ts" "ts ! i = Task p f a"
  obtains log where "held log w" "mset log = mset (pending ts @ rs)" "\<forall>t\<in>set ts. task_ok b t" "shares b p"
  using assms nth_mem [OF assms(2)] by (auto simp: balanced_def task_ok_def)

lemma plain_turn:
  assumes "shares b p" "py_bind next_attempt (\<lambda>_. enter_attempt E p) (f, w) = (Ok (), (f', w'))"
  shows "w_budgets w' b = w_budgets w b" "w_reads w \<le> w_reads w'"
  using assms by (auto simp: shares_def py_bind_def next_attempt_eq plain_enter)

lemma balanced_step:
  assumes "env_ok E"
  shows "loop_step E b s s' \<Longrightarrow> balanced s \<Longrightarrow> balanced s'"
proof (induction rule: loop_step.induct)
  case (spawned p name w f w' ts rs)
  then obtain log where "held log w" "mset log = mset (pending ts @ rs)" "\<forall>t\<in>set ts. task_ok b t"
    by (auto simp: balanced_def)
  moreover have "held log w'"
    using spawned(2) by (intro later [OF \<open>held log w\<close>]) (auto simp: flow_init_def py_bind_def clock_now_eq py_return_def)
  ultimately show ?case using spawned(1) by (auto simp: balanced_def pending_snoc task_ok_def)
next
  case (entered_attempt i ts p f w f' w' rs)
  obtain log where log: "held log w" "mset log = mset (pending ts @ rs)" and ok: "\<forall>t\<in>set ts. task_ok b t"
    and p: "shares b p" using entered_attempt.prems entered_attempt.hyps(1,2) by (rule balanced_task)
  show ?case
    by (rule balanced_update [OF ok entered_attempt(1) _ later [OF log(1) plain_turn [OF p entered_attempt(3)]]])
      (simp_all add: task_ok_def p entered_attempt(2) log(2))
next
  case (raised i ts p f e w r f' w' rs)
  obtain log where log: "held log w" "mset log = mset (pending ts @ rs)" and ok: "\<forall>t\<in>set ts. task_ok b t"
    and p: "shares b p" using raised.prems raised.hyps(1,2) by (rule balanced_task)
  show ?case by (rule balanced_decided [OF after_attempt(1) [OF assms p raised(3) log(1) raised(5)] ok raised(1,2) log(2)])
next
  case (returned i ts p f v w r f' w' rs)
  obtain log where log: "held log w" "mset log = mset (pending ts @ rs)" and ok: "\<forall>t\<in>set ts. task_ok b t"
    and p: "shares b p" using returned.prems returned.hyps(1,2) by (rule balanced_task)
  show ?case by (rule balanced_decided [OF after_attempt(2) [OF assms p returned(3) log(1) returned(4)] ok returned(1,2) log(2)])
next
  case (interrupted i ts p f rs w)
  obtain log where log: "held log w" "mset log = mset (pending ts @ rs)" and ok: "\<forall>t\<in>set ts. task_ok b t"
    and p: "shares b p" using interrupted.prems interrupted.hyps(1,2) by (rule balanced_task)
  show ?case by (rule balanced_update [OF ok interrupted(1) _ log(1)]) (simp_all add: task_ok_def p interrupted(2) log(2))
next
  case (woken i ts p f plan rs w)
  obtain log where log: "held log w" "mset log = mset (pending ts @ rs)" and ok: "\<forall>t\<in>set ts. task_ok b t"
    and p: "shares b p" using woken.prems woken.hyps(1,2) by (rule balanced_task)
  show ?case
    by (rule balanced_update [OF ok woken(1) _ log(1)]) (simp_all add: task_ok_def p woken(2) log(2) split: option.split)
next
  case (sleep_failed i ts p f plan w w' rs)
  then obtain log where log: "held log w" "mset log = mset (pending ts @ rs)" and ok: "\<forall>t\<in>set ts. task_ok b t"
    by (auto simp: balanced_def)
  have t: "task_ok b (ts ! i)" using ok nth_mem [OF sleep_failed(1)] by blast
  then obtain r where r: "wp_budget plan = Some b" "wp_reservation plan = Some r" and p: "shares b p"
    using sleep_failed(2) by (auto simp: task_ok_def)
  have "pending ts = pending (take i ts) @ r # pending (drop (Suc i) ts)"
    by (subst id_take_nth_drop [OF sleep_failed(1)]) (simp add: pending_def sleep_failed(2) r)
  then have "r \<in># mset log" using log(2) by simp
  then obtain xs ys where split: "log = xs @ r # ys" by (metis in_multiset_in_set split_list)
  have "held (xs @ ys) w'"
    using released [of xs r ys w] log(1) sleep_failed(3) budget_release_Ok [of E b r w]
    by (simp add: split release_retry_wait_def r)
  then show ?case
    by (rule balanced_update [OF ok sleep_failed(1), rotated])
      (use log(2) in \<open>simp_all add: task_ok_def p sleep_failed(2) split r\<close>)
next
  case (elsewhere w' w ts rs)
  then show ?case unfolding balanced_def by (auto dest: later)
qed

lemma balanced_run:
  assumes "env_ok E" "(loop_step E b)\<^sup>*\<^sup>* s s'" "balanced s"
  shows "balanced s'"
  using assms(2,3) by (induction rule: rtranclp_induct) (auto intro: balanced_step [OF assms(1)])

end

section \<open>The executor is a path of the machine\<close>

text \<open>
  A task alone in the loop; its function, its sleeper and its final callbacks run elsewhere. What
  \<open>execute_async\<close> does in one turn of its loop is what the machine does from \<open>Ready\<close> on.
\<close>

definition alone :: "'u world_scheme policy \<Rightarrow> flow \<Rightarrow> activity \<Rightarrow> reservation list \<Rightarrow> 'u world_scheme
    \<Rightarrow> 'u task list \<times> reservation list \<times> 'u world_scheme" where
  "alone p f a rs w = ([Task p f a], rs, w)"

definition calls_leave_budget :: "'u pyenv \<Rightarrow> nat \<Rightarrow> 'u world_scheme policy \<Rightarrow> bool" where
  "calls_leave_budget E b p \<longleftrightarrow>
     (\<forall>seconds. leaves_budget b (invoke_async_sleep E (pol_async_sleep p) seconds))
     \<and> (\<forall>kind r. leaves_budget b (finish_decision p kind r))"

lemma alone_steps:
  assumes "shares b p"
  shows "py_bind next_attempt (\<lambda>_. enter_attempt E p) (f, w) = (Ok (), (f', w')) \<Longrightarrow>
      loop_step E b (alone p f Ready rs w) (alone p f' Attempting rs w')"
    and "int (rn_attempt_number (fw_runtime f)) < 2 ^ 50 \<Longrightarrow> is_exception e \<Longrightarrow>
      after_exception E p e (f, w) = (r, (f', w')) \<Longrightarrow>
      loop_step E b (alone p f Attempting rs w) (alone p f' (decided r) rs w')"
    and "int (rn_attempt_number (fw_runtime f)) < 2 ^ 50 \<Longrightarrow> after_value E p v True (f, w) = (r, (f', w')) \<Longrightarrow>
      loop_step E b (alone p f Attempting rs w) (alone p f' (decided r) rs w')"
    and "loop_step E b (alone p f Attempting rs w) (alone p f Over rs w)"
    and "loop_step E b (alone p f (Sleeping plan) rs w) (alone p f Ready (awaited (Sleeping plan) @ rs) w)"
    and "release_retry_wait E plan w = (Ok (), w') \<Longrightarrow>
      loop_step E b (alone p f (Sleeping plan) rs w) (alone p f Over rs w')"
    and "leaves_budget b m \<Longrightarrow> m w = (x, w') \<Longrightarrow> loop_step E b (alone p f a rs w) (alone p f a rs w')"
  using entered_attempt [of 0 "[Task p f Ready]" p f E w f' w' b rs] raised [of 0 "[Task p f Attempting]" p f e E w r f' w' b rs]
    returned [of 0 "[Task p f Attempting]" p f E v w r f' w' b rs] interrupted [of 0 "[Task p f Attempting]" p f E b rs w]
    woken [of 0 "[Task p f (Sleeping plan)]" p f plan E b rs w]
    sleep_failed [of 0 "[Task p f (Sleeping plan)]" p f plan E w w' b rs] elsewhere [of w' b w E "[Task p f a]" rs]
  by (simp_all add: alone_def leaves_budget_def)

lemma release_retry_wait_Ok: "release_retry_wait E plan w = (Ok (), snd (release_retry_wait E plan w))"
  unfolding release_retry_wait_def
  by (auto simp: py_return_def budget_release_def py_bind_def clock_now_def split: option.split)

lemma two_steps: "loop_step E b s t \<Longrightarrow> loop_step E b t u \<Longrightarrow> (loop_step E b)\<^sup>*\<^sup>* s u"
  by (meson converse_rtranclp_into_rtranclp r_into_rtranclp)

lemma finish_path:
  assumes "shares b p" "calls_leave_budget E b p"
    and t: "finish_turn p (async_sleep_before_retry E p) d (g, v) = (r, (f', w'))"
  shows "f' = g \<and> (\<exists>rs'. (loop_step E b)\<^sup>*\<^sup>* (alone p g (decided (Ok d)) rs v)
      (alone p g (if r = Ok None then Ready else Over) rs' w'))"
proof (cases d)
  case (Wait plan)
  let ?sleep = "invoke_async_sleep E (pol_async_sleep p) (wp_total_delay plan)"
  obtain y u where sleep: "?sleep v = (y, u)" by (metis prod.exhaust)
  have "leaves_budget b ?sleep" using assms(2) by (simp add: calls_leave_budget_def)
  note moved = alone_steps(7) [OF assms(1) this sleep, of E g "Sleeping plan" rs]
  show ?thesis
  proof (cases y)
    case (Ok z)
    then have "r = Ok None" "f' = g" "w' = u"
      using t sleep by (auto simp: finish_turn_def Wait async_sleep_before_retry_def on_error_def py_catch_def
          bind_in_world py_return_def)
    then show ?thesis
      using two_steps [OF moved alone_steps(5) [OF assms(1)]] by (auto simp: decided_def Wait simp del: awaited.simps)
  next
    case (Raise e)
    with sleep have "async_sleep_before_retry E p plan v = (Raise e, snd (release_retry_wait E plan u))"
      by (simp add: async_sleep_before_retry_def on_error_def py_catch_def py_raise_def
          py_bind_eval(1) [of "release_retry_wait E plan" u "()" "snd (release_retry_wait E plan u)", OF release_retry_wait_Ok])
    with t have "r = Raise e" "f' = g" "w' = snd (release_retry_wait E plan u)"
      by (auto simp: finish_turn_def Wait bind_in_world)
    then show ?thesis
      using two_steps [OF moved alone_steps(6) [OF assms(1) release_retry_wait_Ok]] by (auto simp: decided_def Wait)
  qed
next
  case (Final kind res)
  obtain y u where fin: "finish_decision p kind res v = (y, u)" by (metis prod.exhaust)
  have "leaves_budget b (finish_decision p kind res)" using assms(2) by (simp add: calls_leave_budget_def)
  note moved = alone_steps(7) [OF assms(1) this fin, of E g Over rs]
  have "r \<noteq> Ok None" "f' = g" "w' = u"
    using t fin by (auto simp: finish_turn_def Final bind_in_world py_return_def split: res.splits)
  then show ?thesis using moved by (auto simp: decided_def Final)
qed

lemma async_turn_path:
  assumes p: "shares b p" "calls_leave_budget E b p" and m: "leaves_budget b m"
    and n: "int (rn_attempt_number (fw_runtime f)) + 1 < 2 ^ 50"
    and t: "async_step E p (\<lambda>w. (Ok (Awaitable m), w)) (f, w) = (r, (f', w'))"
  shows "\<exists>rs'. (loop_step E b)\<^sup>*\<^sup>* (alone p f Ready rs w) (alone p f' (if r = Ok None then Ready else Over) rs' w')"
proof -
  let ?g = "f\<lparr>fw_runtime := begin_attempt (fw_runtime f), fw_attempt_started_at := env_clock E (w_reads w)\<rparr>"
  let ?w1 = "w\<lparr>w_reads := w_reads w + 1\<rparr>"
  have h: "pol_handlers p = []" using p(1) by (simp add: shares_def)
  have g: "int (rn_attempt_number (fw_runtime ?g)) < 2 ^ 50" using n by (simp add: begin_attempt_def)
  have "py_bind next_attempt (\<lambda>_. enter_attempt E p) (f, w) = (Ok (), (?g, ?w1))"
    by (simp add: py_bind_def next_attempt_eq plain_enter [OF h])
  from alone_steps(1) [OF p(1) this] have s1: "loop_step E b (alone p f Ready rs w) (alone p ?g Attempting rs ?w1)" .
  obtain x w2 where call: "m ?w1 = (x, w2)" by (metis prod.exhaust)
  note s2 = alone_steps(7) [OF p(1) m call, of E ?g Attempting rs]
  have t': "py_bind (try_attempt m (after_exception E p) (\<lambda>v. after_value E p v True))
      (finish_turn p (async_sleep_before_retry E p)) (?g, ?w1) = (r, (f', w'))"
    using t unfolding async_step_def
    by (simp add: py_bind_def next_attempt_eq plain_enter [OF h] try_attempt_def in_world_def py_lift_def)
  have go: "\<exists>rs'. (loop_step E b)\<^sup>*\<^sup>* (alone p f Ready rs w) (alone p f' (if r = Ok None then Ready else Over) rs' w')"
    if att: "try_attempt m (after_exception E p) (\<lambda>v. after_value E p v True) (?g, ?w1) = (d, (g', v))"
      and s3: "loop_step E b (alone p ?g Attempting rs w2) (alone p g' (decided d) rs v)" for d g' v
  proof (cases d)
    case (Ok dd)
    with t' att have "finish_turn p (async_sleep_before_retry E p) dd (g', v) = (r, (f', w'))"
      by (simp add: py_bind_def)
    from finish_path [OF p this, of rs] s1 s2 s3 Ok show ?thesis
      by (meson converse_rtranclp_into_rtranclp)
  next
    case (Raise e)
    with t' att have "r = Raise e" "f' = g'" "w' = v" by (simp_all add: py_bind_def)
    moreover have "(loop_step E b)\<^sup>*\<^sup>* (alone p f Ready rs w) (alone p g' (decided d) rs v)"
      using s1 two_steps [OF s2 s3] by (rule converse_rtranclp_into_rtranclp)
    ultimately show ?thesis using Raise by (auto simp: decided_def)
  qed
  show ?thesis
  proof (cases x)
    case (Ok v)
    obtain d g' u where "after_value E p v True (?g, w2) = (d, (g', u))" by (metis prod.exhaust)
    with call Ok show ?thesis
      by (intro go [OF _ alone_steps(3) [OF p(1) g]]) (simp_all add: try_attempt_def in_world_def)
  next
    case (Raise e)
    show ?thesis
    proof (cases "is_exception e")
      case True
      obtain d g' u where "after_exception E p e (?g, w2) = (d, (g', u))" by (metis prod.exhaust)
      with call Raise True show ?thesis
        by (intro go [OF _ alone_steps(2) [OF p(1) g]]) (simp_all add: try_attempt_def in_world_def)
    next
      case False
      with call Raise have "try_attempt m (after_exception E p) (\<lambda>v. after_value E p v True) (?g, ?w1)
          = (Raise e, (?g, w2))" by (simp add: try_attempt_def in_world_def)
      from go [OF this] alone_steps(4) [OF p(1)] show ?thesis by (simp add: decided_def)
    qed
  qed
qed

section \<open>Properties\<close>

text \<open>The same contract, with the configuration of the budget kept in view.\<close>

definition kept_at :: "'u pyenv \<Rightarrow> nat \<Rightarrow> flt \<Rightarrow> nat \<Rightarrow> reservation list \<Rightarrow> 'u world_scheme \<Rightarrow> bool" where
  "kept_at E b per n log w \<longleftrightarrow>
     kept E b log w \<and> bg_per (w_budgets w b) = per \<and> bg_max_retries (w_budgets w b) = n"

interpretation configured: reservation_ledger E b "kept_at E b per n" for E b per n
proof
  fix log :: "reservation list" and w w' :: "'a world_scheme" and nb key r e
  let ?op = "budget_reserve b key (env_clock E (w_reads w)) nb (w\<lparr>w_reads := w_reads w + 1\<rparr>)"
  assume k: "kept_at E b per n log w"
  show "flt_ok (env_clock E i)" for i using k log.clock unfolding kept_at_def by blast
  show "w_budgets w' b = w_budgets w b \<Longrightarrow> w_reads w \<le> w_reads w' \<Longrightarrow> kept_at E b per n log w'"
    using k log.later unfolding kept_at_def by metis
  show "flt_ok nb \<Longrightarrow> ?op = (Ok r, w') \<Longrightarrow> kept_at E b per n (r # log) w'"
    using k log.reserve [of E b log w nb key r w'] unfolding kept_at_def
    by (auto simp: budget_reserve_def live_reserve(4,5) split: prod.splits)
  show "?op = (Raise e, w') \<Longrightarrow> kept_at E b per n log w'"
    using k log.reserve_error [of E b log w key nb e w'] unfolding kept_at_def
    by (auto simp: budget_reserve_def split: prod.splits dest: reserve_error_state)
next
  fix xs ys :: "reservation list" and r and w :: "'a world_scheme"
  show "kept_at E b per n (xs @ r # ys) w \<Longrightarrow> kept_at E b per n (xs @ ys) (snd (budget_release E b r w))"
    using log.released [of E b xs r ys w] unfolding kept_at_def
    by (auto simp: budget_release_def py_bind_def clock_now_def)
qed

lemma rolling_ok_mset: "mset xs = mset ys \<Longrightarrow> rolling_ok per n xs = rolling_ok per n ys"
  unfolding rolling_ok_def count_in_def by (metis mset_filter size_mset)

lemma key_log_mset: "mset xs = mset ys \<Longrightarrow> mset (map f (key_log key xs)) = mset (map f (key_log key ys))"
  by (simp add: key_log_def)


text \<open>A task that fails once, sleeps for its slot and wakes up.\<close>

definition three_tries :: "world policy" where
  "three_tries = budget_policy (StopAfterAttempt 3)"

lemma three_tries_shares: "shares 0 three_tries"
  by (simp add: shares_def leaves_budget_def three_tries_def budget_policy_def ex_policy_def default_policy_def
      safe_num_iff py_return_def MAX_SLEEP_SECONDS_def)

lemma three_tries_plan:
  assumes "rn_attempt_number (fw_runtime g) = 1"
  shows "\<exists>plan. plan_retry still_env three_tries a (g, ex_world\<lparr>w_reads := 3\<rparr>) = (Ok (Wait plan), (g, ex_held 6))
    \<and> awaited (Sleeping plan) = [ex_slot]"
proof -
  have stop: "sleep_would_stop still_env three_tries plan (g, u) = (Ok False, (g, u\<lparr>w_reads := w_reads u + 1\<rparr>))" for plan u
    using assms unfolding sleep_would_stop_def bind_fio three_tries_def
    by (simp add: in_world_eq py_bind_def clock_now_eq should_stop_before_sleep_def budget_policy_facts py_return_def)
  have h: "pol_handlers three_tries = []" "\<not> delay_needs_state (pol_delay three_tries)"
    by (simp_all add: three_tries_def budget_policy_facts)
  have none: "on_error (py_return ()) c = py_return ()" for c :: "(unit, unit) io"
    by (simp add: fun_eq_iff on_error_def py_catch_def py_return_def)
  show ?thesis
    using budget_policy_wait [of "StopAfterAttempt 3"] assms unfolding plan_retry_def bind_fio
    by (simp add: no_handlers [OF h(1)] h none bind_in_world three_tries_def [symmetric]
        py_bind_def [of "sleep_would_stop E q x" for E q x] stop ex_held_def py_return_def)
qed


end
