(* ===== verification/Threads.thy ===== *)
theory Threads
  imports Main BudgetFlow
begin

text \<open>
  Executions in several threads that share one \<open>RetryBudget\<close>. The lock of the class makes each operation
  one step, but the operations are given a clock reading that is taken before the lock:
  \<open>plan_retry_wait\<close> (\<open>internal/retry_wait.py\<close>) reads \<open>clock.now()\<close> and then calls \<open>_reserve\<close>, and \<open>_release\<close>,
  \<open>snapshot\<close> and \<open>cleanup\<close> (\<open>budget.py\<close>) read \<open>_monotonic()\<close> first. Other threads may run in between.
\<close>

section \<open>The machine\<close>

text \<open>What a thread is doing; the readings it has taken go with it.\<close>

datatype phase =
    Free
  | Timed string flt flt
  | Holding reservation
  | Releasing reservation flt
  | Asking string flt
  | Cleaning flt

text \<open>
  The shared budget, the reservations granted and not released, the clock, the greatest reading that an
  operation has used, and the threads.
\<close>

record machine =
  mc_budget :: retry_budget
  mc_log :: "reservation list"
  mc_now :: flt
  mc_used :: flt
  mc_phase :: "nat \<Rightarrow> phase"

definition goto :: "nat \<Rightarrow> phase \<Rightarrow> machine \<Rightarrow> machine" where
  "goto i ph s = s\<lparr>mc_phase := (mc_phase s)(i := ph)\<rparr>"

text \<open>An operation of the budget with reading \<open>c\<close>.\<close>

definition operated :: "retry_budget \<Rightarrow> reservation list \<Rightarrow> flt \<Rightarrow> machine \<Rightarrow> machine" where
  "operated b log c s = s\<lparr>mc_budget := b, mc_log := log, mc_used := max (mc_used s) c\<rparr>"

definition without :: "reservation \<Rightarrow> reservation list \<Rightarrow> reservation list" where
  "without r log = filter (\<lambda>x. \<not> (rs_key x = rs_key r \<and> rs_token x = rs_token r)) log"

text \<open>
  One step of some thread \<open>i\<close>, or of the clock. With \<open>ordered\<close>, operations reach the budget in the order of
  their readings, as they do when threads are not preempted in between; without, they reach it in any order.
\<close>

inductive thread_step :: "bool \<Rightarrow> machine \<Rightarrow> machine \<Rightarrow> bool" for ordered where
  ticked: "mc_now s \<le> t \<Longrightarrow> flt_ok t \<Longrightarrow> thread_step ordered s (s\<lparr>mc_now := t\<rparr>)"
| read_clock: "mc_phase s i = Free \<Longrightarrow> flt_ok delay \<Longrightarrow>
     thread_step ordered s (goto i (Timed key (mc_now s) (fl_add (mc_now s) delay)) s)"
| reserved: "mc_phase s i = Timed key c nb \<Longrightarrow> (ordered \<Longrightarrow> mc_used s \<le> c) \<Longrightarrow>
     reserve (mc_budget s) (VStr key) c nb = (Ok r, b) \<Longrightarrow>
     thread_step ordered s (goto i (Holding r) (operated b (r # mc_log s) c s))"
| retried: "mc_phase s i = Holding r \<Longrightarrow> thread_step ordered s (goto i Free s)"
| abandoned: "mc_phase s i = Holding r \<Longrightarrow> thread_step ordered s (goto i (Releasing r (mc_now s)) s)"
| released: "mc_phase s i = Releasing r c \<Longrightarrow> (ordered \<Longrightarrow> mc_used s \<le> c) \<Longrightarrow>
     thread_step ordered s (goto i Free (operated (release (mc_budget s) r c) (without r (mc_log s)) c s))"
| asked: "mc_phase s i = Free \<Longrightarrow> thread_step ordered s (goto i (Asking key (mc_now s)) s)"
| answered: "mc_phase s i = Asking key c \<Longrightarrow> (ordered \<Longrightarrow> mc_used s \<le> c) \<Longrightarrow>
     snapshot (mc_budget s) (VStr key) c = Some (res, b) \<Longrightarrow>
     thread_step ordered s (goto i Free (operated b (mc_log s) c s))"
| called_cleanup: "mc_phase s i = Free \<Longrightarrow> thread_step ordered s (goto i (Cleaning (mc_now s)) s)"
| cleaned: "mc_phase s i = Cleaning c \<Longrightarrow> (ordered \<Longrightarrow> mc_used s \<le> c) \<Longrightarrow>
     thread_step ordered s (goto i Free (operated (cleanup (mc_budget s) c) (mc_log s) c s))"

definition threads_start :: "retry_budget \<Rightarrow> flt \<Rightarrow> machine" where
  "threads_start b t = \<lparr>mc_budget = b, mc_log = [], mc_now = t, mc_used = t, mc_phase = (\<lambda>i. Free)\<rparr>"

lemma machine_simps [simp]:
  "mc_budget (goto i ph s) = mc_budget s" "mc_log (goto i ph s) = mc_log s" "mc_now (goto i ph s) = mc_now s"
  "mc_used (goto i ph s) = mc_used s" "mc_phase (goto i ph s) = (mc_phase s)(i := ph)"
  "mc_budget (operated b log c s) = b" "mc_log (operated b log c s) = log" "mc_now (operated b log c s) = mc_now s"
  "mc_used (operated b log c s) = max (mc_used s) c" "mc_phase (operated b log c s) = mc_phase s"
  by (simp_all add: goto_def operated_def)

section \<open>The store, in any order of operations\<close>

text \<open>
  What does not depend on the order of the readings: the tokens, and that what the budget stores of a key
  keeps the capacity.
\<close>

definition store_inv :: "retry_budget \<Rightarrow> reservation list \<Rightarrow> bool" where
  "store_inv b log \<longleftrightarrow>
     0 < bg_max_retries b \<and> valid_per (bg_per b) \<and> distinct (map rs_token log)
     \<and> (\<forall>r\<in>set log. rs_token r < bg_next_token b \<and> slot_dom (bg_per b) (rs_scheduled_at r))
     \<and> (\<forall>key. distinct (map rs_token (live b key)) \<and> set (live b key) \<subseteq> set (key_log key log)
          \<and> rolling_ok (bg_per b) (bg_max_retries b) (map rs_scheduled_at (live b key)))"

lemma store_invD:
  assumes "store_inv b log"
  shows "0 < bg_max_retries b" "valid_per (bg_per b)" "distinct (map rs_token log)"
    and "\<And>r. r \<in> set log \<Longrightarrow> rs_token r < bg_next_token b"
    and "\<And>r. r \<in> set log \<Longrightarrow> slot_dom (bg_per b) (rs_scheduled_at r)"
    and "\<And>key. distinct (map rs_token (live b key))"
    and "\<And>key. set (live b key) \<subseteq> set (key_log key log)"
    and "\<And>key. rolling_ok (bg_per b) (bg_max_retries b) (map rs_scheduled_at (live b key))"
  using assms unfolding store_inv_def by blast+

lemma rolling_ok_part:
  assumes "store_inv b log" "distinct rs" "set rs \<subseteq> set (live b key)"
  shows "rolling_ok (bg_per b) (bg_max_retries b) (map rs_scheduled_at rs)"
  by (rule rolling_ok_subset [OF store_invD(8) [OF assms(1)] assms(2) distinct_of_tokens [OF store_invD(6) [OF assms(1)]]
        assms(3)])

text \<open>An operation that only forgets.\<close>

lemma store_inv_forget:
  assumes "store_inv b log"
    and cfg: "bg_max_retries b' = bg_max_retries b" "bg_per b' = bg_per b" "bg_next_token b' = bg_next_token b"
    and log: "distinct (map rs_token log')" "set log' \<subseteq> set log"
    and keep: "\<And>key. distinct (map rs_token (live b' key)) \<and> set (live b' key) \<subseteq> set (live b key)
      \<and> set (live b' key) \<subseteq> set (key_log key log')"
  shows "store_inv b' log'"
proof -
  have "rolling_ok (bg_per b) (bg_max_retries b) (map rs_scheduled_at (live b' key))" for key
    using rolling_ok_part [OF assms(1) distinct_of_tokens] keep [of key] by blast
  then show ?thesis
    unfolding store_inv_def cfg using store_invD(1-5) [OF assms(1)] log keep by auto
qed

lemma distinct_tokens_prune: "distinct (map rs_token rs) \<Longrightarrow> distinct (map rs_token (prune per rs c))"
  by (simp add: prune_def Let_def distinct_map_filter)

lemma set_prune: "set (prune per rs c) \<subseteq> set rs"
  by (auto simp: prune_def)

lemma store_inv_maybe_cleanup: "store_inv b log \<Longrightarrow> store_inv (maybe_cleanup b c) log"
proof (rule store_inv_forget)
  show "distinct (map rs_token (live (maybe_cleanup b c) key)) \<and> set (live (maybe_cleanup b c) key) \<subseteq> set (live b key)
      \<and> set (live (maybe_cleanup b c) key) \<subseteq> set (key_log key log)" if "store_inv b log" for key
    using live_maybe_cleanup [of b c key] store_invD(6,7) [OF that, of key] by auto
qed (auto dest: store_invD)

lemma store_inv_cleanup: "store_inv b log \<Longrightarrow> store_inv (cleanup b c) log"
proof (rule store_inv_forget)
  show "distinct (map rs_token (live (cleanup b c) key)) \<and> set (live (cleanup b c) key) \<subseteq> set (live b key)
      \<and> set (live (cleanup b c) key) \<subseteq> set (key_log key log)" if "store_inv b log" for key
    using live_cleanup_expired [of b c key] store_invD(6,7) [OF that, of key] by (auto simp: cleanup_def)
qed (auto simp: cleanup_def dest: store_invD)

lemma store_inv_snapshot:
  assumes inv: "store_inv b log" and s: "snapshot b kv c = Some (res, b')"
  shows "store_inv b' log"
proof (rule store_inv_forget [OF inv])
  show "distinct (map rs_token (live b' key)) \<and> set (live b' key) \<subseteq> set (live b key)
      \<and> set (live b' key) \<subseteq> set (key_log key log)" for key
    using live_snapshot [OF s, of key] live_maybe_cleanup [of b c key] store_invD(6,7) [OF inv, of key]
      distinct_tokens_prune [of "live b key"] set_prune [of "bg_per b" "live b key" c] by auto
qed (use snapshot_config [OF s] store_invD(3) [OF inv] in auto)

lemma store_inv_release:
  assumes inv: "store_inv b log"
  shows "store_inv (release b r c) (without r log)"
proof (rule store_inv_forget [OF inv])
  have C: "store_inv (maybe_cleanup b c) log" using inv by (rule store_inv_maybe_cleanup)
  fix key
  note D = store_invD(6,7) [OF C, of key] and sub = set_live_maybe_cleanup [of b c key]
  have "live (release b r c) key = (if key = rs_key r
      then filter (\<lambda>x. rs_token x \<noteq> rs_token r) (live (maybe_cleanup b c) key) else live (maybe_cleanup b c) key)"
    using remove_token_filter [OF D(1), of "rs_token r"] by (auto simp: live_release)
  then show "distinct (map rs_token (live (release b r c) key)) \<and> set (live (release b r c) key) \<subseteq> set (live b key)
      \<and> set (live (release b r c) key) \<subseteq> set (key_log key (without r log))"
    using D sub by (auto simp: distinct_map_filter without_def key_log_def)
qed (use store_invD(3) [OF inv] in \<open>auto simp: without_def distinct_map_filter\<close>)

lemma store_inv_reserve:
  assumes inv: "store_inv b log" and c: "flt_ok c" "0 \<le> c" "flt_ok nb" and r: "reserve b kv c nb = (Ok r, b')"
  shows "store_inv b' (r # log)"
proof -
  note D = store_invD [OF inv] and C = store_invD [OF store_inv_maybe_cleanup [OF inv, of c]] and R = live_reserve [OF r]
  define pr where "pr = prune (bg_per b) (live b (rs_key r)) c"
  have pr: "set pr \<subseteq> set (live b (rs_key r))" "distinct (map rs_token pr)"
    unfolding pr_def using set_prune distinct_tokens_prune [OF D(6)] by auto
  have in_log: "set pr \<subseteq> set log" using pr(1) D(7) [of "rs_key r"] key_log_subset [of "rs_key r" log] by blast
  have vis: "visible b (rs_key r) c = scheduled_times pr" by (simp add: visible_def pr_def)
  have "slots_ok (bg_per b) (visible b (rs_key r) c)"
    using in_log D(5) by (auto simp: slots_ok_def vis scheduled_times_def)
  moreover have "rolling_ok (bg_per b) (bg_max_retries b) (visible b (rs_key r) c)"
    using rolling_ok_part [OF inv distinct_of_tokens [OF pr(2)] pr(1)]
    by (simp add: rolling_ok_def vis count_in_scheduled_times)
  moreover have "slot_dom (bg_per b) (max c nb)" using c D(2) by (auto simp: slot_dom_def max_def)
  ultimately have slot: "slot_dom (bg_per b) (rs_scheduled_at r)"
    "rolling_ok (bg_per b) (bg_max_retries b) (insort (rs_scheduled_at r) (visible b (rs_key r) c))"
    using first_legal_slot_spec [OF _ _ D(1), of "visible b (rs_key r) c" "bg_per b" "max c nb"] R(7)
    by (auto simp: visible_def)
  have rolling: "rolling_ok (bg_per b) (bg_max_retries b) (map rs_scheduled_at (pr @ [r]))"
    using slot(2) by (auto simp: rolling_ok_def vis count_in_insort count_in_scheduled_times count_in_append
        count_in_Cons split: if_splits)
  have fresh: "rs_token r \<notin> rs_token ` set log" using D(4) R(6) by fastforce
  have keylog: "key_log key (r # log) = (if key = rs_key r then r # key_log key log else key_log key log)" for key
    by (auto simp: key_log_def)
  have "distinct (map rs_token (live b' key)) \<and> set (live b' key) \<subseteq> set (key_log key (r # log))
      \<and> rolling_ok (bg_per b) (bg_max_retries b) (map rs_scheduled_at (live b' key))" for key
  proof (cases "key = rs_key r")
    case True
    then have "live b' key = pr @ [r]" using R(1) by (simp add: pr_def)
    moreover have "set pr \<subseteq> set (key_log (rs_key r) log)" using pr(1) D(7) by blast
    moreover have "rs_token r \<notin> rs_token ` set pr" using fresh in_log by blast
    ultimately show ?thesis using True pr(2) rolling by (auto simp: keylog)
  next
    case False
    with R(2) C(6-8) [of key] show ?thesis by (simp add: keylog)
  qed
  moreover have "\<forall>x\<in>set (r # log). rs_token x < bg_next_token b' \<and> slot_dom (bg_per b) (rs_scheduled_at x)"
    using less_SucI [OF D(4)] D(5) R(3,6) slot(1) by auto
  moreover have "distinct (map rs_token (r # log))" using fresh D(3) by simp
  ultimately show ?thesis
    unfolding store_inv_def R(4,5) using D(1,2) by blast
qed

lemma store_inv_init: "budget_init m p = Ok b \<Longrightarrow> flt_ok (bg_per b) \<Longrightarrow> store_inv b []"
  using budget_init_fields [of m p b] by (simp add: store_inv_def valid_per_def rolling_ok_def live_def key_log_def)

section \<open>The threads\<close>

text \<open>A thread that holds a reservation has one that nobody released, and no two hold the same.\<close>

definition holds_token :: "phase \<Rightarrow> reservation \<Rightarrow> bool" where
  "holds_token ph r \<longleftrightarrow> ph = Holding r \<or> (\<exists>c. ph = Releasing r c)"

fun times_ok :: "phase \<Rightarrow> bool" where
  "times_ok (Timed key c nb) \<longleftrightarrow> flt_ok c \<and> 0 \<le> c \<and> flt_ok nb"
| "times_ok (Releasing r c) \<longleftrightarrow> flt_ok c"
| "times_ok (Asking key c) \<longleftrightarrow> flt_ok c"
| "times_ok (Cleaning c) \<longleftrightarrow> flt_ok c"
| "times_ok _ \<longleftrightarrow> True"

definition threads_inv :: "machine \<Rightarrow> bool" where
  "threads_inv s \<longleftrightarrow> store_inv (mc_budget s) (mc_log s) \<and> flt_ok (mc_now s) \<and> 0 \<le> mc_now s
     \<and> (\<forall>i. times_ok (mc_phase s i))
     \<and> (\<forall>i r. holds_token (mc_phase s i) r \<longrightarrow> r \<in> set (mc_log s))
     \<and> (\<forall>i j r. i \<noteq> j \<longrightarrow> holds_token (mc_phase s i) r \<longrightarrow> \<not> holds_token (mc_phase s j) r)"

lemma holds_token_simps [simp]:
  "\<not> holds_token Free r" "\<not> holds_token (Timed key c nb) r" "\<not> holds_token (Asking key c) r"
  "\<not> holds_token (Cleaning c) r" "holds_token (Holding r') r \<longleftrightarrow> r' = r" "holds_token (Releasing r' c) r \<longleftrightarrow> r' = r"
  by (auto simp: holds_token_def)

lemma without_other:
  assumes "distinct (map rs_token log)" "r \<in> set log" "x \<in> set log" "x \<noteq> r"
  shows "x \<in> set (without r log)"
  using assms by (auto simp: without_def distinct_map dest: inj_onD)

text \<open>A step of thread \<open>i\<close> leaves the phases of the others alone; this is what has to be shown for \<open>i\<close>.\<close>

lemma threads_inv_goto:
  assumes s: "threads_inv s" and st: "store_inv b log"
    and log: "\<And>j r. j \<noteq> i \<Longrightarrow> holds_token (mc_phase s j) r \<Longrightarrow> r \<in> set log"
    and ph: "times_ok ph" "\<And>r. holds_token ph r \<Longrightarrow> r \<in> set log \<and> (\<forall>j. j \<noteq> i \<longrightarrow> \<not> holds_token (mc_phase s j) r)"
  shows "threads_inv (goto i ph (operated b log c s))"
  using assms unfolding threads_inv_def by (auto split: if_splits)

lemma threads_inv_phase:
  assumes s: "threads_inv s"
    and ph: "times_ok ph" "\<And>r. holds_token ph r \<Longrightarrow> holds_token (mc_phase s i) r"
  shows "threads_inv (goto i ph s)"
  using assms unfolding threads_inv_def by (auto split: if_splits) blast+

lemma threads_inv_step: "thread_step ordered s s' \<Longrightarrow> threads_inv s \<Longrightarrow> threads_inv s'"
proof (induction rule: thread_step.induct)
  case (ticked s t)
  then show ?case by (auto simp: threads_inv_def)
next
  case (read_clock s i delay key)
  then show ?case by (intro threads_inv_phase) (auto simp: threads_inv_def)
next
  case (reserved s i key c nb r b)
  have t: "flt_ok c" "0 \<le> c" "flt_ok nb" and st: "store_inv (mc_budget s) (mc_log s)"
    using reserved.prems reserved.hyps(1) unfolding threads_inv_def by (metis times_ok.simps(1))+
  have "r \<notin> set (mc_log s)"
    using store_invD(4) [OF st, of r] live_reserve(6) [OF reserved.hyps(3)] by auto
  then show ?case
    using reserved.prems
    by (intro threads_inv_goto store_inv_reserve [OF st t reserved.hyps(3)]) (auto simp: threads_inv_def)
next
  case (retried s i r)
  then show ?case by (intro threads_inv_phase) auto
next
  case (abandoned s i r)
  then show ?case by (intro threads_inv_phase) (auto simp: threads_inv_def)
next
  case (released s i r c)
  have st: "store_inv (mc_budget s) (mc_log s)" and r: "r \<in> set (mc_log s)"
    using released.prems released.hyps(1) unfolding threads_inv_def by (metis holds_token_simps(6))+
  show ?case
  proof (intro threads_inv_goto released.prems store_inv_release st)
    fix j x assume "j \<noteq> i" "holds_token (mc_phase s j) x"
    then have "x \<in> set (mc_log s)" "x \<noteq> r"
      using released.prems released.hyps(1) unfolding threads_inv_def by (metis holds_token_simps(6))+
    then show "x \<in> set (without r (mc_log s))" using without_other [OF store_invD(3) [OF st] r] by blast
  qed auto
next
  case (asked s i key)
  then show ?case by (intro threads_inv_phase) (auto simp: threads_inv_def)
next
  case (answered s i key c res b)
  then show ?case
    by (intro threads_inv_goto store_inv_snapshot [OF _ answered.hyps(3)]) (auto simp: threads_inv_def)
next
  case (called_cleanup s i)
  then show ?case by (intro threads_inv_phase) (auto simp: threads_inv_def)
next
  case (cleaned s i c)
  then show ?case by (intro threads_inv_goto store_inv_cleanup) (auto simp: threads_inv_def)
qed

text \<open>In the order of the readings, the machine runs the budget as \<open>budget_run\<close> does.\<close>

lemma in_order_step:
  "thread_step True s s' \<Longrightarrow> threads_inv s \<Longrightarrow> budget_inv (mc_budget s) (mc_log s) (mc_used s) \<Longrightarrow>
    budget_inv (mc_budget s') (mc_log s') (mc_used s')"
proof (induction rule: thread_step.induct)
  case (reserved s i key c nb r b)
  have "flt_ok c" "flt_ok nb" using reserved.prems(1) reserved.hyps(1) unfolding threads_inv_def
    by (metis times_ok.simps(1))+
  with reserved show ?case using budget_inv_reserve [OF reserved.prems(2) _ _ _ reserved.hyps(3)] by (simp add: max_def)
next
  case (released s i r c)
  have "flt_ok c" using released.prems(1) released.hyps(1) unfolding threads_inv_def by (metis times_ok.simps(2))
  with released show ?case using budget_inv_release [OF released.prems(2), of c r] by (simp add: max_def without_def)
next
  case (answered s i key c res b)
  have "flt_ok c" using answered.prems(1) answered.hyps(1) unfolding threads_inv_def by (metis times_ok.simps(3))
  with answered show ?case using budget_inv_snapshot [OF answered.prems(2) _ _ answered.hyps(3)] by (simp add: max_def)
next
  case (cleaned s i c)
  have "flt_ok c" using cleaned.prems(1) cleaned.hyps(1) unfolding threads_inv_def by (metis times_ok.simps(4))
  with cleaned show ?case using budget_inv_cleanup [OF cleaned.prems(2), of c] by (simp add: max_def)
qed simp_all

lemma threads_run:
  assumes "(thread_step ordered)\<^sup>*\<^sup>* s s'" "threads_inv s"
    and "ordered \<longrightarrow> budget_inv (mc_budget s) (mc_log s) (mc_used s)"
  shows "threads_inv s' \<and> (ordered \<longrightarrow> budget_inv (mc_budget s') (mc_log s') (mc_used s'))"
  using assms by (induction rule: rtranclp_induct) (auto dest: threads_inv_step in_order_step)

lemma threads_start_inv:
  assumes "budget_init m p = Ok b" "flt_ok (bg_per b)" "flt_ok t" "0 \<le> t"
  shows "threads_inv (threads_start b t) \<and> budget_inv b [] t"
  using store_inv_init [OF assms(1,2)] budget_init_inv [OF assms] assms(3,4)
  by (simp add: threads_inv_def threads_start_def)

section \<open>The steps of the code\<close>

text \<open>
  With a budget, \<open>plan_retry_wait\<close> reads the clock and reserves, and \<open>release_retry_wait\<close> reads the clock and
  releases: two steps each, between which nothing else happens when the thread is alone.
\<close>

lemma plan_retry_wait_path:
  assumes "plan_retry_wait E p n st w = (Ok (Some plan), w')"
    and "pol_budget p = Some b" "pol_budget_key p = Some key" "wp_reservation plan = Some r"
    and delay: "resolve_delay E (pol_delay p) (int n) st w = (Ok v, w1)" "ensure_resolved_delay v = Ok delay" "flt_ok delay"
    and s: "mc_phase s i = Free" "mc_budget s = w_budgets w1 b" "mc_now s = env_clock E (w_reads w1)"
      "ordered \<Longrightarrow> mc_used s \<le> mc_now s"
  shows "\<exists>s'. (thread_step ordered)\<^sup>*\<^sup>* s s' \<and> mc_phase s' i = Holding r \<and> mc_budget s' = w_budgets w' b
    \<and> mc_log s' = r # mc_log s"
proof -
  let ?nb = "fl_add (mc_now s) delay"
  obtain x budget where res: "reserve (mc_budget s) (VStr key) (mc_now s) ?nb = (x, budget)" by (metis prod.exhaust)
  have r: "x = Ok r" "w_budgets w' b = budget"
    using assms(1-4) res unfolding s(2,3)
    by (auto simp: plan_retry_wait_def py_bind_def delay py_eval clock_now_eq budget_reserve_def on_error_def py_catch_def
        Let_def py_return_def budget_release_def simp del: ensure_resolved_delay.simps
        split: res.splits if_splits prod.splits)
  let ?s1 = "goto i (Timed key (mc_now s) ?nb) s"
  have "thread_step ordered s ?s1" by (rule read_clock [OF s(1) delay(3)])
  moreover have "thread_step ordered ?s1 (goto i (Holding r) (operated budget (r # mc_log ?s1) (mc_now s) ?s1))"
    by (rule reserved) (use res r s(4) in auto)
  ultimately show ?thesis
    using r by (intro exI [of _ "goto i (Holding r) (operated budget (r # mc_log ?s1) (mc_now s) ?s1)"])
      (auto intro: rtranclp.rtrancl_into_rtrancl)
qed

lemma release_retry_wait_path:
  assumes "release_retry_wait E plan w = (Ok (), w')" "wp_reservation plan = Some r" "wp_budget plan = Some b"
    and s: "mc_phase s i = Holding r" "mc_budget s = w_budgets w b" "mc_now s = env_clock E (w_reads w)"
      "ordered \<Longrightarrow> mc_used s \<le> mc_now s"
  shows "\<exists>s'. (thread_step ordered)\<^sup>*\<^sup>* s s' \<and> mc_phase s' i = Free \<and> mc_budget s' = w_budgets w' b
    \<and> mc_log s' = without r (mc_log s)"
proof -
  let ?s1 = "goto i (Releasing r (mc_now s)) s"
  let ?s2 = "goto i Free (operated (release (mc_budget ?s1) r (mc_now s)) (without r (mc_log ?s1)) (mc_now s) ?s1)"
  have "thread_step ordered s ?s1" by (rule abandoned [OF s(1)])
  moreover have "thread_step ordered ?s1 ?s2" by (rule released) (use s(4) in auto)
  moreover have "w_budgets w' b = release (mc_budget s) r (mc_now s)"
    using assms(1-3) unfolding s(2,3)
    by (auto simp: release_retry_wait_def budget_release_def py_bind_def clock_now_def)
  ultimately show ?thesis
    by (intro exI [of _ ?s2]) (auto intro: rtranclp.rtrancl_into_rtrancl)
qed

section \<open>Properties\<close>

text \<open>
  C6 (invariant B3): however threads are preempted between reading the clock and taking the lock, what the budget
  stores of a key keeps the rolling capacity, so a reservation is never granted against one that is stored,
  and no two threads hold the same reservation. When operations reach the budget in the order of their
  readings, all that was granted and not released keeps the capacity.
\<close>

theorem threads_keep_store:
  assumes "budget_init m p = Ok b0" "flt_ok (bg_per b0)" "flt_ok t" "0 \<le> t"
    and "(thread_step ordered)\<^sup>*\<^sup>* (threads_start b0 t) s"
  defines "b \<equiv> mc_budget s"
  shows "rolling_ok (bg_per b) (bg_max_retries b) (map rs_scheduled_at (live b key))
    \<and> (\<forall>i j r. holds_token (mc_phase s i) r \<and> holds_token (mc_phase s j) r \<longrightarrow> i = j)
    \<and> (ordered \<longrightarrow> rolling_ok (bg_per b) (bg_max_retries b) (map rs_scheduled_at (key_log key (mc_log s))))"
proof -
  have "threads_inv s \<and> (ordered \<longrightarrow> budget_inv b (mc_log s) (mc_used s))"
    using threads_run [OF assms(5)] threads_start_inv [OF assms(1-4)] by (simp add: b_def threads_start_def)
  then show ?thesis
    using store_invD(8) [of b "mc_log s"] budget_invD(8) [of b "mc_log s" "mc_used s"]
    unfolding threads_inv_def b_def by blast
qed

text \<open>
  A run of two threads with one retry every ten seconds. A retry is carried out at second 100. At second 109 a
  thread reads the clock; before it takes the lock another thread calls \<open>cleanup\<close>, at second 110, which
  forgets the retry. The reservation of the first thread is then granted for second 109.
\<close>

definition stale_start :: machine where
  "stale_start = (threads_start ex_b0 (sec 100))
     \<lparr>mc_budget := ex_b1, mc_log := [ex_r1], mc_phase := (\<lambda>i. Free)(0 := Holding ex_r1)\<rparr>"

lemma stale_first: "(thread_step ordered)\<^sup>*\<^sup>* (threads_start ex_b0 (sec 100)) stale_start"
proof -
  let ?s = "threads_start ex_b0 (sec 100)"
  have zero: "fl_add (sec 100) 0 = sec 100" using fl_add_sec [of 100 0] by (simp add: sec_0)
  have "thread_step ordered ?s (goto 0 (Timed ''api'' (sec 100) (sec 100)) ?s)"
    using read_clock [of ?s 0 0 ordered "''api''"] by (simp add: zero threads_start_def)
  moreover have "thread_step ordered (goto 0 (Timed ''api'' (sec 100) (sec 100)) ?s) stale_start"
    using reserved [of "goto 0 (Timed ''api'' (sec 100) (sec 100)) ?s" 0 "''api''" "sec 100" "sec 100" ordered ex_r1 ex_b1]
    by (simp add: ex_reserve1 threads_start_def stale_start_def goto_def operated_def)
  ultimately show ?thesis by (blast intro: converse_rtranclp_into_rtranclp)
qed

definition stale_reservation :: reservation where
  "stale_reservation = \<lparr>rs_token = 2, rs_key = ''api'', rs_scheduled_at = sec 109\<rparr>"

lemma stale_cleanup: "cleanup ex_b1 (sec 110) = ex_b1\<lparr>bg_reservations := Map.empty\<rparr>"
  by (auto simp: cleanup_def cleanup_expired_keys_def ex_b1_def ex_r1_def)

lemma stale_reserve:
  "\<exists>b. reserve (ex_b1\<lparr>bg_reservations := Map.empty\<rparr>) (VStr ''api'') (sec 109) (sec 109) = (Ok stale_reservation, b)
    \<and> bg_per b = sec 10 \<and> bg_max_retries b = 1"
  by (simp add: reserve_def ex_key ex_b1_def stale_reservation_def maybe_cleanup_def CLEANUP_INTERVAL_def prune_def
      scheduled_times_def slot_free Let_def numeral_2_eq_2 del: validate_key.simps)

text \<open>
  C7: the clock reading is taken before the lock, so a preempted thread can hand the budget a reading that
  is older than one already used. What the later reading pruned is missing then: two retries are granted and
  carried out in one window of a budget that allows one, although every operation was atomic.
\<close>

theorem stale_reading_overfills:
  "\<exists>s. (thread_step False)\<^sup>*\<^sup>* (threads_start ex_b0 (sec 100)) s \<and> mc_phase s = (\<lambda>i. Free)
     \<and> map rs_scheduled_at (key_log ''api'' (mc_log s)) = [sec 109, sec 100] \<and> mc_now s = sec 110
     \<and> \<not> rolling_ok (bg_per (mc_budget s)) (bg_max_retries (mc_budget s)) [sec 109, sec 100]"
proof -
  obtain b where b: "reserve (ex_b1\<lparr>bg_reservations := Map.empty\<rparr>) (VStr ''api'') (sec 109) (sec 109) = (Ok stale_reservation, b)"
      "bg_per b = sec 10" "bg_max_retries b = 1" using stale_reserve by blast
  have zero: "fl_add (sec 109) 0 = sec 109" using fl_add_sec [of 109 0] by (simp add: sec_0)
  define s1 where "s1 = (goto 0 Free stale_start)\<lparr>mc_now := sec 109\<rparr>"
  define s2 where "s2 = (goto 1 (Timed ''api'' (sec 109) (sec 109)) s1)\<lparr>mc_now := sec 110\<rparr>"
  define s3 where "s3 = goto 2 Free (operated (cleanup ex_b1 (sec 110)) [ex_r1] (sec 110) (goto 2 (Cleaning (sec 110)) s2))"
  define s4 where "s4 = goto 1 Free (goto 1 (Holding stale_reservation) (operated b [stale_reservation, ex_r1] (sec 109) s3))"
  note start = stale_start_def threads_start_def
  have "thread_step False stale_start (goto 0 Free stale_start)"
    by (rule retried [of _ _ ex_r1]) (simp add: start)
  moreover have "thread_step False (goto 0 Free stale_start) s1"
    unfolding s1_def by (rule ticked) (simp_all add: start)
  moreover have "thread_step False s1 (goto 1 (Timed ''api'' (sec 109) (sec 109)) s1)"
    using read_clock [of s1 1 0 False "''api''"] by (simp add: zero s1_def start)
  moreover have "thread_step False (goto 1 (Timed ''api'' (sec 109) (sec 109)) s1) s2"
    unfolding s2_def by (rule ticked) (simp_all add: s1_def)
  moreover have "thread_step False s2 (goto 2 (Cleaning (sec 110)) s2)"
    using called_cleanup [of s2 2 False] by (simp add: s2_def s1_def start)
  moreover have "thread_step False (goto 2 (Cleaning (sec 110)) s2) s3"
    using cleaned [of "goto 2 (Cleaning (sec 110)) s2" 2 "sec 110" False] by (simp add: s3_def s2_def s1_def start)
  moreover have "thread_step False s3 (goto 1 (Holding stale_reservation) (operated b [stale_reservation, ex_r1] (sec 109) s3))"
    using reserved [of s3 1 "''api''" "sec 109" "sec 109" False stale_reservation b]
    by (simp add: s3_def s2_def b stale_cleanup)
  moreover have "thread_step False (goto 1 (Holding stale_reservation) (operated b [stale_reservation, ex_r1] (sec 109) s3)) s4"
    unfolding s4_def by (rule retried [of _ _ stale_reservation]) simp
  ultimately have "(thread_step False)\<^sup>*\<^sup>* (threads_start ex_b0 (sec 100)) s4"
    using stale_first [of False] by (meson rtranclp.rtrancl_into_rtrancl)
  moreover have "mc_phase s4 = (\<lambda>i. Free)" "mc_now s4 = sec 110" "mc_budget s4 = b"
      "map rs_scheduled_at (key_log ''api'' (mc_log s4)) = [sec 109, sec 100]"
    by (auto simp: s4_def s3_def s2_def s1_def start key_log_def stale_reservation_def ex_r1_def)
  moreover have "\<not> rolling_ok (bg_per b) (bg_max_retries b) [sec 109, sec 100]"
    unfolding b rolling_ok_def not_all
    by (rule exI [of _ "sec 109"]) (simp add: count_in_def)
  ultimately show ?thesis by metis
qed

theorem threads_keep_store_witness:
  "rolling_ok (sec 10) 1 [sec 100] \<and> \<not> holds_token (mc_phase stale_start 1) ex_r1"
  using threads_keep_store [OF ex_init _ _ _ stale_first [of False], of "''api''"]
  by (auto simp: ex_b0_def ex_b1_def ex_r1_def stale_start_def threads_start_def live_def)

end
