(* ===== verification/Http.thy ===== *)
theory Http
  imports Main Executors
begin

text \<open>
  \<open>http.py\<close> and \<open>result_conditions.py\<close>: retrying on response status, the \<open>Retry-After\<close> header and the
  ready-made HTTP policy. What the standard library and the user's response objects do is a parameter:
  the wall clock, the e-mail date parser, \<open>str\<close> on objects, and the mapping methods of header objects.
\<close>

section \<open>What is outside\<close>

record 'u web =
  web_time :: "('u, flt) io"
  web_date :: "string \<Rightarrow> flt option res"
  web_str :: "pyval \<Rightarrow> string res"
  web_has_get :: "pyval \<Rightarrow> bool"
  web_get :: "pyval \<Rightarrow> string \<Rightarrow> pyval res"
  web_keys :: "pyval \<Rightarrow> pyval list res"
  web_item :: "pyval \<Rightarrow> pyval \<Rightarrow> pyval res"

text \<open>
  \<open>web_date\<close> is \<open>parsedate_tz\<close> and then \<open>float(mktime_tz(...))\<close>: \<open>None\<close> when it is no date, and it may
  raise. Dictionaries have their own methods below.
\<close>

section \<open>Status codes\<close>

text \<open>Equality of hashed elements: numbers by value.\<close>

fun number_of :: "pyval \<Rightarrow> pynum option" where
  "number_of (VInt n) = Some (PInt n)"
| "number_of (VBool b) = Some (PInt (of_bool b))"
| "number_of (VFloat x) = Some (PFlt x)"
| "number_of _ = None"

definition same_element :: "pyval \<Rightarrow> pyval \<Rightarrow> bool" where
  "same_element x y \<longleftrightarrow>
     (case (number_of x, number_of y) of (Some a, Some b) \<Rightarrow> num_eq a b | _ \<Rightarrow> x = y)"

fun unhashable :: "pyval \<Rightarrow> bool" where
  "unhashable (VList _) = True"
| "unhashable (VDict _) = True"
| "unhashable _ = False"

text \<open>\<open>frozenset(elements)\<close>: of equal elements the first stays.\<close>

fun frozen :: "pyval list \<Rightarrow> pyval list \<Rightarrow> pyval list res" where
  "frozen [] kept = Ok kept"
| "frozen (x # xs) kept =
     (if unhashable x then Raise (new_exn TypeError_t (''unhashable type: '' @ type_name x))
      else frozen xs (if list_ex (same_element x) kept then kept else kept @ [x]))"

definition status_ok :: "pyval \<Rightarrow> bool" where
  "status_ok v = (case v of VInt n \<Rightarrow> 100 \<le> n \<and> n \<le> 599 | _ \<Rightarrow> False)"

definition normalize_statuses :: "pyval list \<Rightarrow> pyval list res" where
  "normalize_statuses statuses =
     res_bind (frozen statuses []) (\<lambda>normalized.
       if list_all status_ok normalized then Ok normalized
       else Raise (config_error ''HTTP status codes must be integers between 100 and 599''))"

fun is_int :: "pyval \<Rightarrow> bool" where
  "is_int (VInt _) = True"
| "is_int (VBool _) = True"
| "is_int _ = False"

definition should_retry_http_status :: "pyval \<Rightarrow> pyval list \<Rightarrow> bool res" where
  "should_retry_http_status status_code statuses =
     (if \<not> is_int status_code then Ok False
      else res_bind (normalize_statuses statuses) (\<lambda>normalized.
        Ok (list_ex (same_element status_code) normalized)))"

text \<open>\<open>response.status_code\<close> or \<open>response["status_code"]\<close>; likewise for the headers.\<close>

definition dict_get :: "(pyval \<times> pyval) list \<Rightarrow> string \<Rightarrow> pyval option" where
  "dict_get entries key = map_of entries (VStr key)"

fun response_part :: "string \<Rightarrow> pyval \<Rightarrow> pyval option" where
  "response_part name (VObj i attrs) = map_of attrs name"
| "response_part name (VDict entries) = dict_get entries name"
| "response_part name _ = None"

definition status_predicate :: "pyval list \<Rightarrow> pyval \<Rightarrow> bool" where
  "status_predicate statuses response =
     (case response_part ''status_code'' response of
        None \<Rightarrow> False
      | Some code \<Rightarrow> is_int code \<and> list_ex (same_element code) statuses)"

definition retry_if_status :: "pyval list \<Rightarrow> (pyval \<Rightarrow> ('s, bool) py) pyfun res" where
  "retry_if_status statuses =
     res_bind (normalize_statuses statuses) (\<lambda>normalized.
       Ok (PyFun (Function PlainFunction) (\<lambda>response. py_return (status_predicate normalized response))))"

section \<open>The header\<close>

definition py_str :: "'u web \<Rightarrow> pyval \<Rightarrow> string res" where
  "py_str W v = (case v of VStr s \<Rightarrow> Ok s | VInt n \<Rightarrow> Ok (int_str n) | _ \<Rightarrow> web_str W v)"

definition has_get :: "'u web \<Rightarrow> pyval \<Rightarrow> bool" where
  "has_get W headers = (case headers of VDict _ \<Rightarrow> True | VObj _ _ \<Rightarrow> web_has_get W headers | _ \<Rightarrow> False)"

definition header_get :: "'u web \<Rightarrow> pyval \<Rightarrow> string \<Rightarrow> pyval res" where
  "header_get W headers name =
     (case headers of
        VDict entries \<Rightarrow> Ok (case dict_get entries name of None \<Rightarrow> VNone | Some v \<Rightarrow> v)
      | _ \<Rightarrow> web_get W headers name)"

definition header_keys :: "'u web \<Rightarrow> pyval \<Rightarrow> pyval list res" where
  "header_keys W headers = (case headers of VDict entries \<Rightarrow> Ok (map fst entries) | _ \<Rightarrow> web_keys W headers)"

definition header_item :: "'u web \<Rightarrow> pyval \<Rightarrow> pyval \<Rightarrow> pyval res" where
  "header_item W headers key =
     (case headers of
        VDict entries \<Rightarrow>
          (case map_of entries key of None \<Rightarrow> Raise (new_exn KeyError_t []) | Some v \<Rightarrow> Ok v)
      | _ \<Rightarrow> web_item W headers key)"

definition ascii_lower :: "string \<Rightarrow> string" where
  "ascii_lower s = map (\<lambda>c. let n = of_char c :: nat in if 65 \<le> n \<and> n \<le> 90 then char_of (n + 32) else c) s"

text \<open>The loop over the three usual spellings.\<close>

fun usual_header :: "'u web \<Rightarrow> pyval \<Rightarrow> string list \<Rightarrow> string option res" where
  "usual_header W headers [] = Ok None"
| "usual_header W headers (name # names) =
     res_bind (header_get W headers name) (\<lambda>v.
       if v \<noteq> VNone then res_bind (py_str W v) (\<lambda>s. Ok (Some s)) else usual_header W headers names)"

text \<open>The loop over the keys, inside the \<open>try\<close>.\<close>

fun other_header :: "'u web \<Rightarrow> pyval \<Rightarrow> pyval list \<Rightarrow> string option res" where
  "other_header W headers [] = Ok None"
| "other_header W headers (key # keys) =
     (if (case key of VStr k \<Rightarrow> ascii_lower k = ''retry-after'' | _ \<Rightarrow> False)
      then res_bind (header_item W headers key) (\<lambda>v.
        if v \<noteq> VNone then res_bind (py_str W v) (\<lambda>s. Ok (Some s)) else other_header W headers keys)
      else other_header W headers keys)"

definition extract_retry_after_header :: "'u web \<Rightarrow> pyval \<Rightarrow> string option res" where
  "extract_retry_after_header W response =
     (case response_part ''headers'' response of
        None \<Rightarrow> Ok None
      | Some headers \<Rightarrow>
          if headers = VNone \<or> \<not> has_get W headers then Ok None
          else res_bind (usual_header W headers [''Retry-After'', ''retry-after'', ''RETRY-AFTER'']) (\<lambda>found.
            if found \<noteq> None then Ok found
            else case res_bind (header_keys W headers) (other_header W headers) of
                   Ok r \<Rightarrow> Ok r
                 | Raise e \<Rightarrow> if is_exception e then Ok None else Raise e))"

section \<open>Its value\<close>

definition is_digit :: "char \<Rightarrow> bool" where
  "is_digit c \<longleftrightarrow> (let n = of_char c :: nat in 48 \<le> n \<and> n \<le> 57)"

definition digits_value :: "string \<Rightarrow> nat" where
  "digits_value s = foldl (\<lambda>n c. 10 * n + (of_char c - 48)) 0 s"

text \<open>\<open>_DELAY_SECONDS.fullmatch\<close>, and \<open>int\<close> on what it matches\<close>

definition delay_seconds :: "string \<Rightarrow> bool" where
  "delay_seconds s \<longleftrightarrow>
     (let t = (case s of [] \<Rightarrow> [] | c # cs \<Rightarrow> if c = CHR ''-'' then cs else s)
      in t \<noteq> [] \<and> list_all is_digit t)"

definition int_value :: "string \<Rightarrow> int" where
  "int_value s =
     (case s of [] \<Rightarrow> 0 | c # cs \<Rightarrow> if c = CHR ''-'' then - int (digits_value cs) else int (digits_value s))"

definition parse_retry_after :: "'u web \<Rightarrow> string \<Rightarrow> pyval \<Rightarrow> pyval \<Rightarrow> ('u, pynum) io" where
  "parse_retry_after W header_value default_value maximum =
     py_bind (py_lift (ensure_non_negative ''default'' default_value)) (\<lambda>_.
     py_bind (py_lift (ensure_non_negative ''maximum'' maximum)) (\<lambda>_.
     py_bind (py_lift (num_float (num_of default_value))) (\<lambda>d.
       let cap = num_of maximum;
           safe_default = num_min (PFlt d) cap;
           stripped = strip header_value
       in if stripped = [] \<or> 256 < length stripped then py_return safe_default
          else if delay_seconds stripped
          then (if int_value stripped < 0 then py_return safe_default
                else py_bind (py_lift (py_float (int_value stripped))) (\<lambda>raw.
                  py_return (num_min (PFlt raw) cap)))
          else py_catch
            (py_bind (py_lift (web_date W stripped)) (\<lambda>parsed.
               case parsed of
                 None \<Rightarrow> py_return safe_default
               | Some target \<Rightarrow> py_bind (web_time W) (\<lambda>now.
                   py_return (num_max (PFlt 0) (num_min (PFlt (fl_sub target now)) cap)))))
            (\<lambda>e. if is_exception e then py_return safe_default else py_raise e))))"

section \<open>Delays and policies\<close>

text \<open>\<open>ensure_safe_delay\<close> on an optional maximum, with its value.\<close>

definition safe_maximum :: "pyval option \<Rightarrow> flt option res" where
  "safe_maximum maximum =
     (case maximum of None \<Rightarrow> Ok None | Some v \<Rightarrow> res_bind (ensure_safe_delay ''maximum'' v) (\<lambda>x. Ok (Some x)))"

text \<open>The function \<open>delay\<close> inside \<open>retry_after_delay\<close>; \<open>MAX_RETRY_AFTER_SECONDS\<close> is the same ceiling.\<close>

definition header_delay :: "'u web \<Rightarrow> flt \<Rightarrow> flt option \<Rightarrow> retry_state \<Rightarrow> ('u, pyval) io" where
  "header_delay W safe_default maximum state =
     py_bind (py_lift (extract_retry_after_header W (st_last_value state))) (\<lambda>header_value.
     py_bind
       (case header_value of
          None \<Rightarrow> py_return (PFlt safe_default)
        | Some h \<Rightarrow> parse_retry_after W h (VFloat safe_default)
            (VFloat (case maximum of Some m \<Rightarrow> m | None \<Rightarrow> MAX_SLEEP_SECONDS))) (\<lambda>resolved.
       let capped = (case maximum of Some m \<Rightarrow> num_min resolved (PFlt m) | None \<Rightarrow> resolved)
       in py_return (val_of_num (num_max (PFlt 0) capped))))"

definition retry_after_delay ::
    "'u web \<Rightarrow> pyval \<Rightarrow> pyval option \<Rightarrow> (retry_state \<Rightarrow> ('u, pyval) io) pyfun res" where
  "retry_after_delay W default_value maximum =
     res_bind (ensure_safe_delay ''default'' default_value) (\<lambda>safe_default.
     res_bind (safe_maximum maximum) (\<lambda>m.
       Ok (PyFun (Function PlainFunction) (header_delay W safe_default m))))"

fun normalize_transport_exceptions :: "pyval list \<Rightarrow> unit res" where
  "normalize_transport_exceptions [] = Ok ()"
| "normalize_transport_exceptions (VExcType c # rest) =
     (if issubclass c Exception_t then normalize_transport_exceptions rest
      else Raise (config_error (et_name c @ '' is a BaseException subclass that the executor never catches'')))"
| "normalize_transport_exceptions (VClass n # rest) =
     Raise (config_error (n @ '' is a BaseException subclass that the executor never catches''))"
| "normalize_transport_exceptions (v # rest) =
     Raise (config_error ''transport_exceptions must contain exception classes'')"

definition http_retry_policy ::
    "'u web \<Rightarrow> pyval \<Rightarrow> pyval list \<Rightarrow> pyval list \<Rightarrow> pyval \<Rightarrow> pyval option \<Rightarrow> bool
      \<Rightarrow> 'u world_scheme policy res" where
  "http_retry_policy W max_attempts statuses transport_exceptions default_delay maximum_delay
      respect_retry_after =
     res_bind (ensure_positive_int ''attempts'' max_attempts) (\<lambda>_.
     res_bind (ensure_safe_delay ''default_delay'' default_delay) (\<lambda>_.
     res_bind (case maximum_delay of None \<Rightarrow> Ok () | Some v \<Rightarrow>
       res_bind (ensure_safe_delay ''maximum_delay'' v) (\<lambda>_. Ok ())) (\<lambda>_.
     res_bind (normalize_transport_exceptions transport_exceptions) (\<lambda>_.
     res_bind (attempts max_attempts default_policy) (\<lambda>p.
     res_bind (retry_if_status statuses) (\<lambda>predicate.
     res_bind (retry_if_result predicate p) (\<lambda>p.
     res_bind (if transport_exceptions = [] then Ok p else or_on transport_exceptions p) (\<lambda>p.
       if respect_retry_after
       then res_bind (retry_after_delay W default_delay maximum_delay) (\<lambda>d. stateful_delay d p)
       else exponential_delay default_delay (VFloat (sec 2)) maximum_delay p))))))))"

section \<open>Predicates on results\<close>

definition retry_if_none :: "pyval \<Rightarrow> bool" where
  "retry_if_none v \<longleftrightarrow> v = VNone"

definition retry_if_false :: "pyval \<Rightarrow> bool" where
  "retry_if_false v \<longleftrightarrow> v = VBool False"

text \<open>\<open>len\<close> of a \<open>Sized\<close> value; \<open>size_of\<close> is that of objects.\<close>

definition retry_if_empty :: "(pyval \<Rightarrow> nat option) \<Rightarrow> pyval \<Rightarrow> bool" where
  "retry_if_empty size_of v =
     (case v of
        VStr s \<Rightarrow> s = []
      | VList xs \<Rightarrow> xs = []
      | VDict entries \<Rightarrow> entries = []
      | VObj _ _ \<Rightarrow> size_of v = Some 0
      | _ \<Rightarrow> False)"

text \<open>\<open>value == expected\<close> with the equality of the value, which a class may define.\<close>

definition retry_if_value :: "(pyval \<Rightarrow> pyval \<Rightarrow> ('s, bool) py) \<Rightarrow> pyval \<Rightarrow> pyval \<Rightarrow> ('s, bool) py" where
  "retry_if_value eq expected v = eq v expected"

section \<open>Numbers\<close>

lemma nat_str_digits: "nat_str n \<noteq> [] \<and> list_all is_digit (nat_str n)"
proof (induction n rule: nat_str.induct)
  case (1 n)
  have d: "is_digit (digit_char k)" if "k < 10" for k
    using that by (simp add: is_digit_def digit_char_def Let_def)
  show ?case using 1 d by (subst (1 2) nat_str.simps) auto
qed

lemma digits_value_nat_str: "digits_value (nat_str n) = n"
proof (induction n rule: nat_str.induct)
  case (1 n)
  have d: "of_char (digit_char k) - 48 = k" if "k < 10" for k :: nat
    using that by (simp add: digit_char_def)
  show ?case
  proof (cases "n < 10")
    case True
    then show ?thesis using d by (subst nat_str.simps) (simp add: digits_value_def)
  next
    case False
    then have "foldl (\<lambda>n c. 10 * n + (of_char c - 48)) 0 (nat_str (n div 10)) = n div 10"
      using 1 by (simp add: digits_value_def)
    then show ?thesis using False d by (subst nat_str.simps) (simp add: digits_value_def)
  qed
qed

lemma digits_value_bound: "list_all is_digit s \<Longrightarrow> digits_value s < 10 ^ length s"
proof (induction s rule: rev_induct)
  case (snoc c s)
  then have "digits_value s < 10 ^ length s" by simp
  moreover have "of_char c - 48 \<le> (9::nat)"
    using snoc.prems le_diff_conv [of "of_char c" 48 9] by (simp add: is_digit_def Let_def)
  ultimately show ?case by (simp add: digits_value_def)
qed (simp add: digits_value_def)

lemma fl_of_int_total:
  assumes "0 \<le> n" "n < 10 ^ 256"
  shows "\<exists>x. fl_of_int n = Some x \<and> 0 \<le> x"
proof -
  have "n \<le> 2 ^ 1023" using assms(2) by (rule order_less_imp_le [OF order_less_trans]) simp
  then have "rnd (n * 2 ^ 1074) 0 \<le> rnd (2 ^ 1023 * 2 ^ 1074) 0" by (intro rnd_mono) (rule mult_right_mono, simp_all)
  moreover have "rnd 0 0 \<le> rnd (n * 2 ^ 1074) 0" using assms(1) by (intro rnd_mono) simp
  ultimately show ?thesis
    using fl_of_int_1023(1) unfolding fl_of_int_def Let_def
    by (auto simp: rnd_small_int split: if_splits)
qed

lemma num_min_le: "num_le (num_min a b) b"
  by (simp add: num_min_def num_le_def)

lemma num_min_nonneg: "nonneg_num a \<Longrightarrow> nonneg_num b \<Longrightarrow> nonneg_num (num_min a b)"
  by (simp add: num_min_def)

lemma num_max_bounds: "nonneg_num b \<Longrightarrow> num_le a b \<Longrightarrow> nonneg_num (num_max (PFlt 0) a) \<and> num_le (num_max (PFlt 0) a) b"
proof -
  assume b: "nonneg_num b" "num_le a b"
  have "num_le (PFlt 0) b" using b(1) fl_inf_pos by (cases b) (auto simp: num_le_def sec_def)
  moreover have "nonneg_num a" if "num_less (PFlt 0) a"
    using that fl_inf_pos by (cases a) (auto simp: sec_def split: if_splits simp del: fl_inf_pos)
  ultimately show ?thesis using b(2) by (simp add: num_max_def)
qed

lemma ensure_non_negative_num:
  assumes "ensure_non_negative name v = Ok ()"
  shows "nonneg_num (num_of v) \<and> (\<exists>x. num_float (num_of v) = Ok x \<and> 0 \<le> x)"
proof -
  have "\<exists>x. num_float (num_of v) = Ok x \<and> 0 \<le> x"
    using assms
    by (cases "(name, v)" rule: ensure_finite_float.cases)
      (auto simp: ensure_non_negative_def res_bind_Ok_iff not_less split: if_splits)
  with accepted_numbers(1) [OF assms] show ?thesis by simp
qed

section \<open>The header value\<close>

lemma strip_digits:
  assumes "blank a" "blank b" "s \<noteq> []" "list_all is_digit s"
  shows "strip (a @ s @ b) = s"
proof -
  have "\<not> is_space c" if "is_digit c" for c
    using that by (auto simp: is_digit_def is_space_def Let_def)
  with assms show ?thesis by (intro strip_padded) (auto simp: list_all_iff)
qed

lemma digits_are_seconds:
  assumes "s \<noteq> []" "list_all is_digit s"
  shows "delay_seconds s" "int_value s = int (digits_value s)"
proof -
  have "hd s \<noteq> CHR ''-''" using assms by (cases s) (auto simp: is_digit_def)
  with assms show "delay_seconds s" "int_value s = int (digits_value s)"
    by (cases s; simp add: delay_seconds_def int_value_def)+
qed

lemma int_value_bound:
  assumes "delay_seconds s" "length s \<le> 256" "\<not> int_value s < 0"
  shows "\<exists>x. py_float (int_value s) = Ok x \<and> 0 \<le> x"
proof -
  have "int_value s < 10 ^ 256"
  proof -
    have "digits_value t < 10 ^ 256" if "list_all is_digit t" "length t \<le> 256" for t
      using digits_value_bound [OF that(1)] power_increasing [OF that(2), of "10::nat"] by simp
    then have "int (digits_value t) < 10 ^ 256" if "list_all is_digit t" "length t \<le> 256" for t
      using that by (metis of_nat_less_iff of_nat_numeral of_nat_power)
    then show ?thesis
      using assms(1,2) by (auto simp: delay_seconds_def int_value_def Let_def split: list.splits if_splits)
  qed
  with fl_of_int_total [of "int_value s"] assms(3) show ?thesis by (auto simp: py_float_def)
qed

text \<open>Every result lies between zero and the maximum; nothing but the wall clock can end the call.\<close>

definition within :: "pyval \<Rightarrow> pynum res \<Rightarrow> bool" where
  "within maximum r \<longleftrightarrow> (case r of
     Ok v \<Rightarrow> nonneg_num v \<and> num_le v (num_of maximum) | Raise e \<Rightarrow> \<not> is_exception e)"

lemma parse_retry_after_within:
  assumes d: "ensure_non_negative ''default'' default_value = Ok ()"
    and m: "ensure_non_negative ''maximum'' maximum = Ok ()"
    and r: "parse_retry_after W h default_value maximum w = (r, w')"
  shows "within maximum r"
proof -
  from ensure_non_negative_num [OF d] obtain x where x: "num_float (num_of default_value) = Ok x" "0 \<le> x" by blast
  have cap: "nonneg_num (num_of maximum)" using ensure_non_negative_num [OF m] by blast
  have default: "within maximum (Ok (num_min (PFlt x) (num_of maximum)))"
    using x cap by (simp add: within_def num_min_le num_min_nonneg)
  have whole: "within maximum (Ok (num_min (PFlt y) (num_of maximum)))" if "0 \<le> y" for y
    using that cap by (simp add: within_def num_min_le num_min_nonneg)
  have date: "within maximum (Ok (num_max (PFlt 0) (num_min (PFlt y) (num_of maximum))))" for y
    using num_max_bounds [OF cap num_min_le] by (simp add: within_def)
  note bind = py_bind_def py_lift_def py_return_def py_catch_def py_raise_def
  show ?thesis
  proof (cases "strip h = [] \<or> 256 < length (strip h)")
    case True
    with r d m x default show ?thesis by (auto simp: parse_retry_after_def bind Let_def)
  next
    case False
    note short = this
    show ?thesis
    proof (cases "delay_seconds (strip h)")
      case True
      with short r d m x default whole int_value_bound [OF True] show ?thesis
        by (fastforce simp: parse_retry_after_def bind Let_def split: if_splits)
    next
      case False
      with short r d m x default date show ?thesis
        by (auto simp: parse_retry_after_def bind Let_def within_def
            split: if_splits res.splits option.splits prod.splits)
    qed
  qed
qed

text \<open>The ceiling of a delay callback.\<close>

definition ceiling_of :: "flt option \<Rightarrow> flt" where
  "ceiling_of m = (case m of Some c \<Rightarrow> c | None \<Rightarrow> MAX_SLEEP_SECONDS)"

lemma safe_ceiling: "safe_maximum maximum = Ok m \<Longrightarrow> safe_delay (ceiling_of m)"
  using MAX_SLEEP_pos
  by (auto simp: safe_maximum_def ceiling_of_def safe_delay_def res_bind_Ok_iff split: option.splits
      dest!: ensure_safe_delay_safe)

lemma safe_non_negative: "safe_delay y \<Longrightarrow> ensure_non_negative name (VFloat y) = Ok ()"
  using safe_delay_finite [of y] by (auto simp: ensure_non_negative_def safe_delay_def)

lemma capped_resolves:
  assumes "nonneg_num a" "num_le a (PFlt c)" "safe_delay c"
  shows "\<exists>y. ensure_resolved_delay (val_of_num a) = Ok y \<and> y \<le> c"
proof -
  have "safe_num a"
    using assms MAX_SLEEP_lt_inf
    by (cases a) (auto simp: safe_num_def nonneg_num_le num_le_def safe_delay_def split: if_splits)
  moreover have "num_to_flt a \<le> c"
    using assms \<open>safe_num a\<close> MAX_SLEEP_lt_inf
    by (cases a) (auto simp: num_le_def num_to_flt_def py_float_def safe_num_iff safe_delay_def not_less split: if_splits)
  ultimately show ?thesis using resolve_safe_num by blast
qed

lemma header_delay_bounded:
  assumes x: "safe_delay x" and c: "safe_delay (ceiling_of m)"
    and h: "extract_retry_after_header W (st_last_value st) = Ok header"
    and r: "header_delay W x m st w = (r, w')"
  shows "(\<exists>v y. r = Ok v \<and> ensure_resolved_delay v = Ok y \<and> y \<le> ceiling_of m) \<or> (\<exists>e. r = Raise e \<and> \<not> is_exception e)"
proof -
  let ?c = "PFlt (ceiling_of m)"
  have cap: "nonneg_num ?c" using c by (simp add: safe_delay_def)
  have safe: "\<exists>y. ensure_resolved_delay (val_of_num (num_max (PFlt 0) a)) = Ok y \<and> y \<le> ceiling_of m"
    if "num_le a ?c" for a
    using num_max_bounds [OF cap that] capped_resolves [OF _ _ c] by blast
  define cut where "cut a = (case m of Some c \<Rightarrow> num_min a (PFlt c) | None \<Rightarrow> a)" for a
  have cut: "num_le (cut a) ?c" if "num_le a ?c \<or> m \<noteq> None" for a
    using that num_min_le by (auto simp: cut_def ceiling_of_def split: option.splits)
  show ?thesis
  proof (cases header)
    case None
    have "num_le (PFlt x) ?c \<or> m \<noteq> None" using x by (auto simp: num_le_def ceiling_of_def safe_delay_def split: option.splits)
    from safe [OF cut [OF this]] r h None show ?thesis
      by (auto simp: header_delay_def py_bind_def py_lift_def py_return_def Let_def cut_def)
  next
    case (Some hv)
    obtain res pw where p: "parse_retry_after W hv (VFloat x) (VFloat (ceiling_of m)) w = (res, pw)" by (metis prod.exhaust)
    have "within (VFloat (ceiling_of m)) res"
      by (rule parse_retry_after_within [OF _ _ p]) (rule safe_non_negative, rule x c)+
    moreover have "\<exists>y. ensure_resolved_delay (val_of_num (num_max (PFlt 0) (cut a))) = Ok y \<and> y \<le> ceiling_of m"
      if "within (VFloat (ceiling_of m)) (Ok a)" for a
      using safe [OF cut] that by (simp add: within_def)
    ultimately show ?thesis
      using r h p Some
      by (cases res) (auto simp: header_delay_def py_bind_def py_lift_def py_return_def Let_def within_def cut_def
          ceiling_of_def [symmetric])
  qed
qed

text \<open>The value of a header that is a number, and the default where there is none.\<close>

lemma parse_number:
  assumes "ensure_non_negative ''default'' default_value = Ok ()" "ensure_non_negative ''maximum'' maximum = Ok ()"
    and pad: "blank a" "blank b" and len: "length (nat_str n) \<le> 256"
  shows "\<exists>x. fl_of_int (int n) = Some x \<and> 0 \<le> x \<and>
    parse_retry_after W (a @ nat_str n @ b) default_value maximum w = (Ok (num_min (PFlt x) (num_of maximum)), w)"
proof -
  let ?s = "nat_str n"
  have d: "?s \<noteq> []" "list_all is_digit ?s" using nat_str_digits [of n] by auto
  note seconds = digits_are_seconds [OF d] digits_value_nat_str [of n]
  from int_value_bound [OF seconds(1) len] obtain x where x: "py_float (int n) = Ok x" "0 \<le> x"
    using seconds(2,3) by auto
  obtain y where y: "num_float (num_of default_value) = Ok y" using ensure_non_negative_num [OF assms(1)] by blast
  have "fl_of_int (int n) = Some x" using x by (simp add: py_float_def split: option.splits)
  moreover have "parse_retry_after W (a @ ?s @ b) default_value maximum w = (Ok (num_min (PFlt x) (num_of maximum)), w)"
    using assms y x d len seconds
    by (simp add: parse_retry_after_def py_bind_def py_lift_def py_return_def Let_def strip_digits [OF pad d])
  ultimately show ?thesis using x(2) by blast
qed

lemma header_delay_value:
  assumes x: "safe_delay x" and c: "safe_delay (ceiling_of m)"
  shows "extract_retry_after_header W (st_last_value st) = Ok None \<Longrightarrow>
      header_delay W x m st w = (Ok (VFloat (min x (ceiling_of m))), w)"
    and "extract_retry_after_header W (st_last_value st) = Ok (Some (a @ nat_str n @ b)) \<Longrightarrow>
      blank a \<Longrightarrow> blank b \<Longrightarrow> length (nat_str n) \<le> 256 \<Longrightarrow>
      \<exists>y. fl_of_int (int n) = Some y \<and> 0 \<le> y \<and> header_delay W x m st w = (Ok (VFloat (min y (ceiling_of m))), w)"
proof -
  have cut: "num_max (PFlt 0) (num_min (PFlt y) (PFlt (ceiling_of m))) = PFlt (min y (ceiling_of m))" if "0 \<le> y" for y
    using that c by (auto simp: num_max_def num_min_def safe_delay_def min_def)
  have twice: "num_min (num_min a q) q = num_min a q" for a q by (simp add: num_min_def)
  show "header_delay W x m st w = (Ok (VFloat (min x (ceiling_of m))), w)"
    if "extract_retry_after_header W (st_last_value st) = Ok None"
    using that x cut [of x]
    by (cases m) (auto simp: header_delay_def py_bind_def py_lift_def py_return_def Let_def ceiling_of_def
        safe_delay_def num_max_def)
  assume h: "extract_retry_after_header W (st_last_value st) = Ok (Some (a @ nat_str n @ b))"
    and pad: "blank a" "blank b" "length (nat_str n) \<le> 256"
  from parse_number [OF safe_non_negative [OF x] safe_non_negative [OF c] pad, of W w] obtain y where
    y: "fl_of_int (int n) = Some y" "0 \<le> y"
    "parse_retry_after W (a @ nat_str n @ b) (VFloat x) (VFloat (ceiling_of m)) w
      = (Ok (num_min (PFlt y) (PFlt (ceiling_of m))), w)" by auto
  have "header_delay W x m st w = (Ok (VFloat (min y (ceiling_of m))), w)"
    using h y(3) cut [OF y(2)] twice
    by (cases m) (auto simp: header_delay_def py_bind_def py_lift_def py_return_def Let_def ceiling_of_def)
  with y(1,2) show "\<exists>y. fl_of_int (int n) = Some y \<and> 0 \<le> y \<and> header_delay W x m st w = (Ok (VFloat (min y (ceiling_of m))), w)"
    by blast
qed

text \<open>A value that the callback returns is the delay of the wait plan of a policy without a budget.\<close>

lemma callback_wait:
  assumes "pol_delay p = StatefulCustomDelay callback" "pol_budget p = None"
    and "callback st w = (Ok (VFloat t), w)" "safe_delay t"
  shows "plan_retry_wait E p k (Some st) w = (Ok (Some \<lparr>wp_policy_delay = t, wp_budget_delay = 0,
      wp_total_delay = t, wp_reservation = None, wp_budget = None\<rparr>), w)"
  using assms(1-3) ensure_resolved_delay_id [OF assms(4)]
  by (simp add: plan_retry_wait_def resolve_delay_def checked_delay_def py_bind_def py_lift_def py_return_def
      del: ensure_resolved_delay.simps)

lemma http_policy_delay:
  assumes "http_retry_policy W n statuses transport d maximum respect = Ok p"
  obtains x m where "ensure_safe_delay ''default'' d = Ok x" "safe_maximum maximum = Ok m"
    "respect \<Longrightarrow> pol_delay p = StatefulCustomDelay (header_delay W x m)"
    "\<not> respect \<Longrightarrow> mk_ExponentialDelay d (VFloat (sec 2)) maximum = Ok (pol_delay p)"
proof (cases respect)
  case True
  with assms obtain dl q where dl: "retry_after_delay W d maximum = Ok dl" and q: "stateful_delay dl q = Ok p"
    by (auto simp: http_retry_policy_def res_bind_Ok_iff)
  from dl obtain x m where xm: "ensure_safe_delay ''default'' d = Ok x" "safe_maximum maximum = Ok m"
    and f: "pf_run dl = header_delay W x m"
    by (auto simp: retry_after_delay_def res_bind_Ok_iff)
  from q have "pol_delay p = StatefulCustomDelay (pf_run dl)"
    by (auto simp: stateful_delay_def with_delay_def mk_StatefulCustomDelay_def res_bind_Ok_iff dest!: post_init_same)
  with xm f True show thesis using that by simp
next
  case False
  with assms obtain q where e: "exponential_delay d (VFloat (sec 2)) maximum q = Ok p"
    and "\<exists>x. ensure_safe_delay ''default_delay'' d = Ok x"
    and "(case maximum of None \<Rightarrow> Ok () | Some v \<Rightarrow>
       res_bind (ensure_safe_delay ''maximum_delay'' v) (\<lambda>_. Ok ())) = Ok ()"
    by (auto simp: http_retry_policy_def res_bind_Ok_iff)
  moreover from this have "\<exists>x. ensure_safe_delay ''default'' d = Ok x" "\<exists>m. safe_maximum maximum = Ok m"
    by (auto simp: safe_maximum_def res_bind_Ok_iff ensure_resolved_delay_iff [symmetric] split: option.splits)
  moreover from e have "mk_ExponentialDelay d (VFloat (sec 2)) maximum = Ok (pol_delay p)"
    by (auto simp: exponential_delay_def with_delay_def res_bind_Ok_iff dest!: post_init_same)
  ultimately show thesis using that False by blast
qed

text \<open>The exponential delay of the policy stays below the ceiling.\<close>

lemma ensure_safe_value: "ensure_safe_delay name v = Ok x \<Longrightarrow> num_float (num_of v) = Ok x"
  by (cases "(name, v)" rule: ensure_finite_float.cases)
    (auto simp: ensure_safe_delay_def res_bind_Ok_iff split: if_splits)

lemma exponential_bounded:
  assumes E: "env_ok E" and d: "mk_ExponentialDelay base factor maximum = Ok d" and m: "safe_maximum maximum = Ok m"
  shows "\<exists>v y. resolve_delay E d k st w = (Ok v, w) \<and> ensure_resolved_delay v = Ok y \<and> 0 \<le> y \<and> y \<le> ceiling_of m"
proof -
  obtain u u' where n: "ensure_non_negative ''base'' base = Ok u" "ensure_positive ''factor'' factor = Ok u'"
    and eq: "d = ExponentialDelay (num_of base) (num_of factor) (map_option num_of maximum)"
    using d by (auto simp: mk_ExponentialDelay_def res_bind_Ok_iff)
  define a where "a = exponential_next E (num_of base) (num_of factor) (map_option num_of maximum) k"
  note c = safe_ceiling [OF m]
  have nn: "nonneg_num (exponential_value E (num_of base) (num_of factor) k)"
    by (rule exponential_value_nonneg [OF E]) (use n ensure_nonneg_num ensure_positive_num in blast)+
  have "nonneg_num a \<and> num_le a (PFlt (ceiling_of m))"
  proof (cases maximum)
    case None
    with m have "m = None" by (simp add: safe_maximum_def)
    moreover have "\<not> MAX_SLEEP_SECONDS < 0" using MAX_SLEEP_pos(1) by linarith
    ultimately show ?thesis using None nn c
      by (auto simp: a_def exponential_next_def Let_def ceiling_of_def num_le_def safe_delay_def)
  next
    case (Some v)
    with m obtain x where x: "ensure_safe_delay ''maximum'' v = Ok x" "m = Some x"
      by (auto simp: safe_maximum_def res_bind_Ok_iff)
    note s = ensure_safe_num [OF x(1)] ensure_safe_value [OF x(1)]
    have le: "num_le (num_of v) (PFlt x)"
      using s ensure_safe_delay_safe [OF x(1)] MAX_SLEEP_lt_inf
      by (cases "num_of v") (auto simp: num_le_def safe_num_iff py_float_def safe_delay_def)
    have cut: "num_le (num_min b (num_of v)) (PFlt x)" for b
      using le MAX_SLEEP_lt_inf s ensure_safe_delay_safe [OF x(1)]
      by (cases "num_less b (num_of v)"; cases b; cases "num_of v")
        (auto simp: num_min_def num_le_def safe_num_iff safe_delay_def py_float_def split: if_splits)
    have "nonneg_num (num_of v)" using s(1) by (cases "num_of v") (auto simp: safe_num_iff)
    with Some nn cut x(2) c show ?thesis
      by (auto simp: a_def exponential_next_def Let_def ceiling_of_def num_min_nonneg num_le_def safe_delay_def)
  qed
  from capped_resolves [OF _ _ c] this obtain y where y: "ensure_resolved_delay (val_of_num a) = Ok y" "y \<le> ceiling_of m"
    by blast
  have "resolve_delay E d k st w = (Ok (val_of_num a), w)"
    by (simp add: resolve_delay_def eq next_delay_def additive_parts_def a_def py_return_def)
  with y ensure_resolved_delay_safe [OF y(1)] show ?thesis by (auto simp: safe_delay_def simp del: ensure_resolved_delay.simps)
qed

section \<open>Properties\<close>

text \<open>
  C38: a \<open>Retry-After\<close> header is honoured. Let \<open>retry_after_delay\<close> accept its default and maximum; the ceiling is the
  maximum, or one day when there is none. A policy that uses its callback waits, after a response whose header is
  a decimal number of at most 256 digits with white space around it, that number of seconds, rounded to
  a float, or the ceiling where that is smaller; and after a response without the header the default,
  capped by the ceiling. Whatever the header, the date parser and the wall clock do, the delay is at most the ceiling, and no
  \<open>Exception\<close> leaves the callback once the header was read. The parser itself keeps to the default and the maximum it is given in the
  same way.
\<close>

theorem retry_after_honoured:
  assumes "retry_after_delay W default_value maximum = Ok dl"
  shows "\<exists>x m. ensure_safe_delay ''default'' default_value = Ok x \<and> safe_maximum maximum = Ok m
    \<and> (\<forall>E p k st w a b n. pol_delay p = StatefulCustomDelay (pf_run dl) \<longrightarrow> pol_budget p = None \<longrightarrow>
        extract_retry_after_header W (st_last_value st) = Ok (Some (a @ nat_str n @ b)) \<longrightarrow>
        blank a \<longrightarrow> blank b \<longrightarrow> length (nat_str n) \<le> 256 \<longrightarrow>
        (\<exists>y plan. fl_of_int (int n) = Some y \<and> plan_retry_wait E p k (Some st) w = (Ok (Some plan), w)
          \<and> wp_total_delay plan = min y (ceiling_of m)))
    \<and> (\<forall>E p k st w. pol_delay p = StatefulCustomDelay (pf_run dl) \<longrightarrow> pol_budget p = None \<longrightarrow>
        extract_retry_after_header W (st_last_value st) = Ok None \<longrightarrow>
        (\<exists>plan. plan_retry_wait E p k (Some st) w = (Ok (Some plan), w) \<and> wp_total_delay plan = min x (ceiling_of m)))
    \<and> (\<forall>st w r w' header. extract_retry_after_header W (st_last_value st) = Ok header \<longrightarrow>
        pf_run dl st w = (r, w') \<longrightarrow>
        (\<exists>v y. r = Ok v \<and> ensure_resolved_delay v = Ok y \<and> y \<le> ceiling_of m) \<or> (\<exists>e. r = Raise e \<and> \<not> is_exception e))
    \<and> (\<forall>d c. ensure_non_negative ''default'' d = Ok () \<longrightarrow> ensure_non_negative ''maximum'' c = Ok () \<longrightarrow>
        (\<forall>h w r w'. parse_retry_after W h d c w = (r, w') \<longrightarrow> within c r)
        \<and> (\<forall>a b n w. blank a \<longrightarrow> blank b \<longrightarrow> length (nat_str n) \<le> 256 \<longrightarrow>
            (\<exists>y. fl_of_int (int n) = Some y \<and>
              parse_retry_after W (a @ nat_str n @ b) d c w = (Ok (num_min (PFlt y) (num_of c)), w))))"
proof -
  from assms obtain x m where x: "ensure_safe_delay ''default'' default_value = Ok x" and m: "safe_maximum maximum = Ok m"
    and f: "pf_run dl = header_delay W x m"
    by (auto simp: retry_after_delay_def res_bind_Ok_iff)
  note safe = ensure_safe_delay_safe [OF x] safe_ceiling [OF m]
  have least: "safe_delay (min y (ceiling_of m))" if "0 \<le> y" for y
    using that safe(2) by (auto simp: safe_delay_def)
  have number: "\<exists>y plan. fl_of_int (int n) = Some y \<and> plan_retry_wait E p k (Some st) w = (Ok (Some plan), w)
      \<and> wp_total_delay plan = min y (ceiling_of m)"
    if p: "pol_delay p = StatefulCustomDelay (pf_run dl)" "pol_budget p = None"
      and h: "extract_retry_after_header W (st_last_value st) = Ok (Some (a @ nat_str n @ b))"
      and pad: "blank a" "blank b" "length (nat_str n) \<le> 256" for E p k st w a b n
  proof -
    from header_delay_value(2) [OF safe h pad, of w] obtain y where y: "fl_of_int (int n) = Some y" "0 \<le> y"
      "pf_run dl st w = (Ok (VFloat (min y (ceiling_of m))), w)" unfolding f by blast
    from callback_wait [OF p y(3) least [OF y(2)]] y(1) show ?thesis by fastforce
  qed
  have none: "\<exists>plan. plan_retry_wait E p k (Some st) w = (Ok (Some plan), w) \<and> wp_total_delay plan = min x (ceiling_of m)"
    if p: "pol_delay p = StatefulCustomDelay (pf_run dl)" "pol_budget p = None"
      and h: "extract_retry_after_header W (st_last_value st) = Ok None" for E p k st w
  proof -
    have "0 \<le> x" using safe(1) by (simp add: safe_delay_def)
    moreover have "pf_run dl st w = (Ok (VFloat (min x (ceiling_of m))), w)"
      using header_delay_value(1) [OF safe h] unfolding f .
    ultimately show ?thesis using callback_wait [OF p] least by fastforce
  qed
  have parser: "(\<forall>h w r w'. parse_retry_after W h d c w = (r, w') \<longrightarrow> within c r)
      \<and> (\<forall>a b n w. blank a \<longrightarrow> blank b \<longrightarrow> length (nat_str n) \<le> 256 \<longrightarrow>
          (\<exists>y. fl_of_int (int n) = Some y \<and>
            parse_retry_after W (a @ nat_str n @ b) d c w = (Ok (num_min (PFlt y) (num_of c)), w)))"
    if "ensure_non_negative ''default'' d = Ok ()" "ensure_non_negative ''maximum'' c = Ok ()" for d c
    using parse_retry_after_within [OF that] parse_number [OF that] by blast
  have bounded: "(\<exists>v y. r = Ok v \<and> ensure_resolved_delay v = Ok y \<and> y \<le> ceiling_of m) \<or> (\<exists>e. r = Raise e \<and> \<not> is_exception e)"
    if "extract_retry_after_header W (st_last_value st) = Ok header" "pf_run dl st w = (r, w')" for st w r w' header
    using header_delay_bounded [OF safe that(1)] that(2) unfolding f .
  show ?thesis
    by (intro exI [of _ x] exI [of _ m] conjI;
      (rule x m | (intro allI impI, (rule number none bounded parser; assumption))))
qed

text \<open>A world outside where nothing is a date and objects have no header.\<close>

definition ex_web :: "'u web" where
  "ex_web = \<lparr>web_time = py_return (sec 1700000000), web_date = (\<lambda>s. Ok None), web_str = (\<lambda>v. Ok []),
     web_has_get = (\<lambda>v. False), web_get = (\<lambda>v n. Ok VNone), web_keys = (\<lambda>v. Ok []),
     web_item = (\<lambda>v k. Ok VNone)\<rparr>"

text \<open>A response that asks for two minutes, to a callback that waits for at most one.\<close>

definition ex_response :: pyval where
  "ex_response = VDict [(VStr ''headers'', VDict [(VStr ''Retry-After'', VStr '' 120 '')])]"

lemma ex_safe: "0 \<le> k \<Longrightarrow> k < 100 \<Longrightarrow> ensure_safe_delay name (VInt k) = Ok (sec k)"
  by (simp add: ensure_safe_delay_def py_float_def sec_MAX)

lemma ex_header:
  "extract_retry_after_header ex_web ex_response = Ok (Some ('' '' @ nat_str 120 @ '' ''))"
  by (simp add: extract_retry_after_header_def ex_response_def dict_get_def has_get_def header_get_def py_str_def
      nat_str.simps digit_char_def char_of_def bit_Suc_0_iff)

theorem retry_after_honoured_witness:
  "\<exists>dl plan. retry_after_delay (ex_web :: unit web) (VInt 1) (Some (VInt 60)) = Ok dl
    \<and> plan_retry_wait ex_env (default_policy\<lparr>pol_delay := StatefulCustomDelay (pf_run dl)\<rparr>) 1
        (Some ((minimal_state 1)\<lparr>st_last_value := ex_response\<rparr>)) ex_world = (Ok (Some plan), ex_world)
    \<and> wp_total_delay plan = sec 60"
proof -
  let ?p = "\<lambda>dl. (default_policy :: world policy)\<lparr>pol_delay := StatefulCustomDelay (pf_run dl)\<rparr>"
  let ?st = "(minimal_state 1)\<lparr>st_last_value := ex_response\<rparr>"
  obtain dl where dl: "retry_after_delay (ex_web :: unit web) (VInt 1) (Some (VInt 60)) = Ok dl"
    by (simp add: retry_after_delay_def safe_maximum_def ex_safe)
  have p: "pol_delay (?p dl) = StatefulCustomDelay (pf_run dl)" "pol_budget (?p dl) = None"
    by (simp_all add: default_policy_def)
  have h: "extract_retry_after_header ex_web (st_last_value ?st) = Ok (Some ('' '' @ nat_str 120 @ '' ''))"
    using ex_header by simp
  have b: "blank '' ''" by (simp add: blank_def is_space_def)
  have len: "length (nat_str 120) \<le> 256" by (simp add: nat_str.simps)
  have m: "safe_maximum (Some (VInt 60)) = Ok (Some (sec 60))" by (simp add: safe_maximum_def ex_safe)
  have "\<exists>y plan. fl_of_int (int 120) = Some y \<and> plan_retry_wait ex_env (?p dl) 1 (Some ?st) ex_world = (Ok (Some plan), ex_world)
      \<and> wp_total_delay plan = min y (ceiling_of (Some (sec 60)))"
    using retry_after_honoured [OF dl] p h b len unfolding m by (metis res.inject(1))
  then show ?thesis using dl by (auto simp: ceiling_of_def min_def)
qed

text \<open>
  C39: the delays of the HTTP policy stay below its maximum. Let \<open>http_retry_policy\<close> accept its
  arguments; the ceiling is \<open>maximum_delay\<close>, or one day when there is none. When the policy honours \<open>Retry-After\<close>, every
  wait it resolves is an accepted delay of at most the ceiling, whatever the server sent, as long as the header object itself does not
  raise; and after an exception, when there is no response, it is the default delay capped by the ceiling. Otherwise it backs off
  exponentially, and every delay is between zero and the ceiling too, at every attempt.
\<close>

theorem http_policy_delays_bounded:
  assumes "http_retry_policy W n statuses transport d maximum respect = Ok p"
  shows "\<exists>x m. ensure_safe_delay ''default'' d = Ok x \<and> safe_maximum maximum = Ok m \<and>
    (respect \<longrightarrow>
      (\<forall>E k st w r w' header. extract_retry_after_header W (st_last_value st) = Ok header \<longrightarrow>
        resolve_delay E (pol_delay p) k (Some st) w = (r, w') \<longrightarrow>
        (\<exists>v y. r = Ok v \<and> ensure_resolved_delay v = Ok y \<and> y \<le> ceiling_of m) \<or> (\<exists>e. r = Raise e \<and> \<not> is_exception e)) \<and>
      (\<forall>E k st w. st_last_value st = VNone \<longrightarrow>
        resolve_delay E (pol_delay p) k (Some st) w = (Ok (VFloat (min x (ceiling_of m))), w))) \<and>
    (\<not> respect \<longrightarrow>
      (\<forall>E k st w. env_ok E \<longrightarrow> (\<exists>v y. resolve_delay E (pol_delay p) k st w = (Ok v, w)
        \<and> ensure_resolved_delay v = Ok y \<and> 0 \<le> y \<and> y \<le> ceiling_of m)))"
proof -
  from assms obtain x m where x: "ensure_safe_delay ''default'' d = Ok x" and m: "safe_maximum maximum = Ok m"
    and stateful: "respect \<Longrightarrow> pol_delay p = StatefulCustomDelay (header_delay W x m)"
    and exponential: "\<not> respect \<Longrightarrow> mk_ExponentialDelay d (VFloat (sec 2)) maximum = Ok (pol_delay p)"
    by (rule http_policy_delay) blast
  note safe = ensure_safe_delay_safe [OF x] safe_ceiling [OF m]
  have resolve: "resolve_delay E (pol_delay p) k (Some st) = checked_delay (header_delay W x m st)" if respect for E k st
    by (simp add: resolve_delay_def stateful [OF that])
  have bounded: "(\<exists>v y. r = Ok v \<and> ensure_resolved_delay v = Ok y \<and> y \<le> ceiling_of m) \<or> (\<exists>e. r = Raise e \<and> \<not> is_exception e)"
    if h: "extract_retry_after_header W (st_last_value st) = Ok header"
      and r: "checked_delay (header_delay W x m st) w = (r, w')" for st w r w' header
  proof -
    obtain r1 w1 where d: "header_delay W x m st w = (r1, w1)" by (metis prod.exhaust)
    from header_delay_bounded [OF safe h d] r d show ?thesis
      using ensure_resolved_delay_id [OF ensure_resolved_delay_safe]
      by (auto simp: checked_delay_def py_bind_def py_lift_def py_return_def simp del: ensure_resolved_delay.simps)
  qed
  have none: "checked_delay (header_delay W x m st) w = (Ok (VFloat (min x (ceiling_of m))), w)"
    if "st_last_value st = VNone" for st w
  proof -
    have "extract_retry_after_header W (st_last_value st) = Ok None" by (simp add: that extract_retry_after_header_def)
    moreover have "safe_delay (min x (ceiling_of m))" using safe by (auto simp: safe_delay_def)
    ultimately show ?thesis
      using header_delay_value(1) [OF safe, of W st w] ensure_resolved_delay_id [of "min x (ceiling_of m)"]
      by (simp add: checked_delay_def py_bind_def py_lift_def py_return_def del: ensure_resolved_delay.simps)
  qed
  have backoff: "\<exists>v y. resolve_delay E (pol_delay p) k st w = (Ok v, w) \<and> ensure_resolved_delay v = Ok y \<and> 0 \<le> y \<and> y \<le> ceiling_of m"
    if "\<not> respect" "env_ok E" for E k st w
    using exponential_bounded [OF that(2) exponential [OF that(1)] m] .
  from x m bounded none backoff resolve show ?thesis
    by (intro exI [of _ x] exI [of _ m] conjI impI allI) (simp_all del: ensure_resolved_delay.simps)
qed

theorem http_policy_delays_bounded_witness:
  "\<exists>p q. http_retry_policy ex_web (VInt 5) [VInt 429, VInt 503] [] (VInt 1) (Some (VInt 60)) True = Ok p
    \<and> resolve_delay ex_env (pol_delay p) 1 (Some (minimal_state 1)) ex_world = (Ok (VFloat (sec 1)), ex_world)
    \<and> http_retry_policy ex_web (VInt 5) [VInt 429, VInt 503] [] (VInt 1) (Some (VInt 60)) False = Ok q
    \<and> (\<exists>v y. resolve_delay ex_env (pol_delay q) 9 None ex_world = (Ok v, ex_world)
        \<and> ensure_resolved_delay v = Ok y \<and> y \<le> sec 60)"
proof -
  note defs = http_retry_policy_def attempts_def with_stop_def mk_StopAfterAttempt_def retry_if_status_def
        normalize_statuses_def same_element_def status_ok_def num_eq_def retry_if_result_def with_condition_def
        mk_ResultCondition_def retry_after_delay_def safe_maximum_def stateful_delay_def with_delay_def
        mk_StatefulCustomDelay_def post_init_def default_policy_def explicit_behaviors_def check_sleepers_def
  have f: "ensure_non_negative name (VInt k) = Ok ()" if "0 \<le> k" "k < 100" for name k
    using that by (simp add: ensure_non_negative_def py_float_def)
  have two: "ensure_positive name (VFloat (sec 2)) = Ok ()" for name by (simp add: ensure_positive_def)
  obtain p where p: "http_retry_policy (ex_web :: unit web) (VInt 5) [VInt 429, VInt 503] [] (VInt 1) (Some (VInt 60)) True = Ok p"
    by (simp add: defs ex_safe)
  obtain q where q: "http_retry_policy (ex_web :: unit web) (VInt 5) [VInt 429, VInt 503] [] (VInt 1) (Some (VInt 60)) False = Ok q"
    by (simp add: defs exponential_delay_def mk_ExponentialDelay_def ensure_safe_maximum_def ex_safe f two)
  have m: "safe_maximum (Some (VInt 60)) = Ok (Some (sec 60))" "ensure_safe_delay ''default'' (VInt 1) = Ok (sec 1)"
    by (simp_all add: safe_maximum_def ex_safe)
  have c: "ceiling_of (Some (sec 60)) = sec 60" "min (sec 1) (sec 60) = sec 1" by (simp_all add: ceiling_of_def min_def)
  have "st_last_value (minimal_state 1) = VNone" by (simp add: minimal_state_def)
  then have one: "resolve_delay ex_env (pol_delay p) 1 (Some (minimal_state 1)) ex_world = (Ok (VFloat (sec 1)), ex_world)"
    using http_policy_delays_bounded [OF p] unfolding m by (auto simp: c simp del: ensure_resolved_delay.simps)
  have "\<exists>v y. resolve_delay ex_env (pol_delay q) 9 None ex_world = (Ok v, ex_world)
      \<and> ensure_resolved_delay v = Ok y \<and> 0 \<le> y \<and> y \<le> sec 60"
    using http_policy_delays_bounded [OF q] ex_env_ok unfolding m by (auto simp: c simp del: ensure_resolved_delay.simps)
  with p q one show ?thesis by blast
qed

end
