(* ===== verification/Logging.thy ===== *)
theory Logging
  imports Main Policy
begin

text \<open>
  \<open>internal/policy_logging.py\<close> and the console events of \<open>RetryPolicy.debug\<close>: event handlers that
  write to a logger or to the console. The logger's \<open>log\<close>, \<open>print\<close>, \<open>json.dumps\<close> and \<open>str\<close> on a user's
  exception are parameters; the exception that a logger formats itself is passed to it as an object.
\<close>

section \<open>What is logged\<close>

datatype log_arg = ArgVal pyval | ArgExn exn

text \<open>\<open>logger.log(level, message, *args)\<close>\<close>

type_synonym 'u logger = "int \<Rightarrow> string \<Rightarrow> log_arg list \<Rightarrow> ('u, unit) io"

definition error_class :: "exn \<Rightarrow> pyval" where
  "error_class e = VStr (et_name (exn_type e))"

definition policy_label :: "retry_event \<Rightarrow> string" where
  "policy_label event =
     (case ev_policy_name event of None \<Rightarrow> [] | Some n \<Rightarrow> if n = [] then [] else '' policy='' @ n)"

text \<open>\<open>make_logging_handler\<close>\<close>

definition make_logging_handler ::
    "int \<Rightarrow> 'u logger \<Rightarrow> bool \<Rightarrow> 'u world_scheme handler" where
  "make_logging_handler level log include_error_message event =
     (let number = ArgVal (VNat (ev_attempt_number event));
          label = ArgVal (VStr (policy_label event))
      in if ev_name event = BeforeSleep
         then log level ''Attempt %d failed (%s), retrying in %.2fs%s''
           [number,
            ArgVal (case ev_error event of Some e \<Rightarrow> error_class e | None \<Rightarrow> VStr ''result rejected''),
            ArgVal (VFloat (case ev_delay event of Some d \<Rightarrow> d | None \<Rightarrow> 0)), label]
         else if ev_name event = AfterGiveup
         then (case ev_error event of
             Some e \<Rightarrow>
               if include_error_message
               then log level ''Giving up after attempt %d: %s: %s%s''
                 [number, ArgVal (error_class e), ArgExn e, label]
               else log level ''Giving up after attempt %d: %s%s'' [number, ArgVal (error_class e), label]
           | None \<Rightarrow> log level ''Giving up after attempt %d: result retry exhausted%s'' [number, label])
         else py_return ())"

text \<open>\<open>if x is not None: payload[key] = x\<close>\<close>

definition entry_if :: "string \<Rightarrow> ('a \<Rightarrow> pyval) \<Rightarrow> 'a option \<Rightarrow> (string \<times> pyval) list" where
  "entry_if key f o' = (case o' of None \<Rightarrow> [] | Some x \<Rightarrow> [(key, f x)])"

definition state_payload :: "retry_state \<Rightarrow> (string \<times> pyval) list" where
  "state_payload st =
     [(''elapsed'', VFloat (py_round 6 (st_elapsed st))),
      (''attempt_count'', VNat (state_attempt_count st)),
      (''retry_cause'', cause_val (st_retry_cause st)),
      (''will_retry'', VBool (st_will_retry st)), (''will_stop'', VBool (st_will_stop st))]
     @ entry_if ''policy_delay'' VFloat (st_policy_delay st)
     @ entry_if ''budget_delay'' VFloat (st_budget_delay st)
     @ entry_if ''total_delay'' VFloat (st_next_delay st)"

text \<open>\<open>_structured_payload\<close>; \<open>render\<close> is \<open>str\<close> on an exception, which may raise.\<close>

definition structured_payload ::
    "(exn \<Rightarrow> string res) \<Rightarrow> bool \<Rightarrow> retry_event \<Rightarrow> (string \<times> pyval) list res" where
  "structured_payload render include_error_message event =
     res_bind
       (case ev_error event of
          Some e \<Rightarrow>
            if include_error_message
            then res_bind (render e) (\<lambda>text. Ok [(''error_type'', error_class e), (''error_message'', VStr text)])
            else Ok [(''error_type'', error_class e)]
        | None \<Rightarrow> Ok [])
       (\<lambda>error_part. Ok
         ([(''library'', VStr ''relinker''), (''event'', VStr (event_str (ev_name event))),
           (''function'', VStr (ev_function_name event)), (''attempt'', VNat (ev_attempt_number event))]
          @ entry_if ''policy'' VStr (ev_policy_name event)
          @ entry_if ''delay'' VFloat (ev_delay event)
          @ error_part
          @ (case ev_state event of Some st \<Rightarrow> state_payload st | None \<Rightarrow> [])))"

text \<open>\<open>make_structured_logging_handler\<close>; \<open>dumps\<close> is \<open>json.dumps\<close> with its options.\<close>

definition make_structured_logging_handler ::
    "(exn \<Rightarrow> string res) \<Rightarrow> (pyval \<Rightarrow> string res) \<Rightarrow> int \<Rightarrow> 'u logger \<Rightarrow> bool \<Rightarrow> 'u world_scheme handler" where
  "make_structured_logging_handler render dumps level log include_error_message event =
     py_bind (py_lift (structured_payload render include_error_message event)) (\<lambda>payload.
     py_bind (py_lift (dumps (py_dict payload))) (\<lambda>text.
       log level ''%s'' [ArgVal (VStr text)]))"

text \<open>The function \<open>print_event\<close> inside \<open>debug\<close>.\<close>

definition error_part :: "(exn \<Rightarrow> string res) \<Rightarrow> bool \<Rightarrow> exn \<Rightarrow> string res" where
  "error_part render include_error_message e =
     (if include_error_message
      then case render e of
             Ok text \<Rightarrow> Ok (et_name (exn_type e) @ '': '' @ text)
           | Raise x \<Rightarrow>
               if is_exception x then Ok (et_name (exn_type e) @ '': <error rendering message>'') else Raise x
      else Ok (et_name (exn_type e)))"

definition print_event ::
    "(exn \<Rightarrow> string res) \<Rightarrow> (string \<Rightarrow> ('u, unit) io) \<Rightarrow> bool \<Rightarrow> 'u world_scheme handler" where
  "print_event render print include_error_message event =
     (let number = nat_str (ev_attempt_number event)
      in if ev_name event = BeforeAttempt
         then print (''[relinker] attempt '' @ number @ '' started: '' @ ev_function_name event)
         else if ev_name event = AfterFailure \<and> ev_error event \<noteq> None
         then py_bind (py_lift (error_part render include_error_message (the (ev_error event)))) (\<lambda>text.
           print (''[relinker] attempt '' @ number @ '' failed: '' @ text))
         else if ev_name event = BeforeSleep \<and> ev_delay event \<noteq> None
         then print (''[relinker] sleeping '' @ fmt_fixed 4 (the (ev_delay event)) @ ''s before next attempt'')
         else if ev_name event = AfterSuccess
         then print (''[relinker] attempt '' @ number @ '' succeeded'')
         else if ev_name event = AfterGiveup
         then print (''[relinker] giving up after attempt '' @ number)
         else py_return ())"

section \<open>The builder methods\<close>

definition plain_function :: "'s handler \<Rightarrow> 's handler pyfun" where
  "plain_function h = PyFun (Function PlainFunction) h"

definition debug ::
    "(exn \<Rightarrow> string res) \<Rightarrow> (string \<Rightarrow> ('u, unit) io) \<Rightarrow> bool \<Rightarrow> 'u world_scheme policy
      \<Rightarrow> 'u world_scheme policy res" where
  "debug render print include_error_message p =
     on_events [''before_attempt'', ''after_failure'', ''before_sleep'', ''after_success'', ''after_giveup'']
       (plain_function (print_event render print include_error_message)) p"

definition with_logging ::
    "int \<Rightarrow> 'u logger \<Rightarrow> bool \<Rightarrow> 'u world_scheme policy \<Rightarrow> 'u world_scheme policy res" where
  "with_logging level log include_error_message p =
     on_events [''before_sleep'', ''after_giveup'']
       (plain_function (make_logging_handler level log include_error_message)) p"

definition with_structured_logging ::
    "(exn \<Rightarrow> string res) \<Rightarrow> (pyval \<Rightarrow> string res) \<Rightarrow> int \<Rightarrow> 'u logger \<Rightarrow> bool
      \<Rightarrow> 'u world_scheme policy \<Rightarrow> 'u world_scheme policy res" where
  "with_structured_logging render dumps level log include_error_message p =
     on_events [''before_sleep'', ''after_giveup'']
       (plain_function (make_structured_logging_handler render dumps level log include_error_message)) p"

section \<open>What an event shows\<close>

text \<open>
  The parts of an event that are no secrets: its name, counters, delays and flags, and of an error only
  the name of its class. Values, messages and the recorded attempts are not among them.
\<close>

definition public_state :: "retry_state \<Rightarrow> retry_state" where
  "public_state st =
     st\<lparr>st_attempts := replicate (length (st_attempts st)) (AttemptRecord 0 0 0 VNone None False),
        st_last_value := VNone, st_last_error := None\<rparr>"

definition public_event :: "retry_event \<Rightarrow> string option \<times> retry_event" where
  "public_event event =
     (map_option (\<lambda>e. et_name (exn_type e)) (ev_error event),
      event\<lparr>ev_value := VNone, ev_error := None, ev_state := map_option public_state (ev_state event)\<rparr>)"

lemma public_eqD:
  assumes "public_event a = public_event b"
  shows "ev_name a = ev_name b" "ev_attempt_number a = ev_attempt_number b"
    "ev_function_name a = ev_function_name b" "ev_delay a = ev_delay b"
    "ev_policy_name a = ev_policy_name b" "map_option error_class (ev_error a) = map_option error_class (ev_error b)"
    "map_option public_state (ev_state a) = map_option public_state (ev_state b)"
proof -
  have e: "map_option (\<lambda>e. et_name (exn_type e)) (ev_error a) = map_option (\<lambda>e. et_name (exn_type e)) (ev_error b)"
    and r: "a\<lparr>ev_value := VNone, ev_error := None, ev_state := map_option public_state (ev_state a)\<rparr> =
      b\<lparr>ev_value := VNone, ev_error := None, ev_state := map_option public_state (ev_state b)\<rparr>"
    using assms by (simp_all add: public_event_def)
  from arg_cong [OF r, of ev_name] arg_cong [OF r, of ev_attempt_number] arg_cong [OF r, of ev_function_name]
    arg_cong [OF r, of ev_delay] arg_cong [OF r, of ev_policy_name] arg_cong [OF r, of ev_state]
  show "ev_name a = ev_name b" "ev_attempt_number a = ev_attempt_number b"
    "ev_function_name a = ev_function_name b" "ev_delay a = ev_delay b" "ev_policy_name a = ev_policy_name b"
    "map_option public_state (ev_state a) = map_option public_state (ev_state b)"
    by simp_all
  show "map_option error_class (ev_error a) = map_option error_class (ev_error b)"
    using e by (cases "ev_error a"; cases "ev_error b") (simp_all add: error_class_def)
qed

lemma state_payload_public: "state_payload (public_state st) = state_payload st"
  by (simp add: state_payload_def public_state_def state_attempt_count_def)

lemma state_eqD:
  assumes "public_event a = public_event b"
  shows "(case ev_state a of None \<Rightarrow> [] | Some st \<Rightarrow> state_payload st) =
    (case ev_state b of None \<Rightarrow> [] | Some st \<Rightarrow> state_payload st)"
proof -
  have "map_option (\<lambda>st. state_payload (public_state st)) (ev_state a) =
      map_option (\<lambda>st. state_payload (public_state st)) (ev_state b)"
    using arg_cong [OF public_eqD(7) [OF assms], of "map_option state_payload"] by (simp add: option.map_comp o_def)
  then show ?thesis by (cases "ev_state a"; cases "ev_state b") (simp_all add: state_payload_public)
qed

lemma logging_hides:
  assumes "public_event a = public_event b"
  shows "make_logging_handler level log False a = make_logging_handler level log False b"
  using public_eqD [OF assms]
  by (cases "ev_error a"; cases "ev_error b")
    (auto simp: make_logging_handler_def Let_def policy_label_def)

lemma structured_hides:
  assumes "public_event a = public_event b"
  shows "structured_payload r False a = structured_payload r' False b"
  using public_eqD [OF assms] state_eqD [OF assms]
  by (cases "ev_error a"; cases "ev_error b") (simp_all add: structured_payload_def)

lemma debug_hides:
  assumes "public_event a = public_event b"
  shows "print_event r print False a = print_event r' print False b"
  using public_eqD [OF assms]
  by (cases "ev_error a"; cases "ev_error b") (auto simp: print_event_def Let_def error_part_def error_class_def)

section \<open>Observers are contained\<close>

lemma report_contained:
  "report_isolated_event_failure E event error w = (Raise e, w') \<Longrightarrow> \<not> is_exception e"
  by (auto simp: report_isolated_event_failure_def py_catch_def py_return_def py_raise_def
      split: prod.splits res.splits if_splits)

lemma emit_loop_isolated:
  assumes "\<And>h. h \<in> set hs \<Longrightarrow> entry_name h = ev_name event \<Longrightarrow> entry_mode h = Isolate"
  shows "emit_loop E hs event w = (Raise e, w') \<Longrightarrow> \<not> is_exception e"
  using assms
proof (induction hs arbitrary: w)
  case (Cons h hs)
  show ?case
  proof (cases "entry_name h = ev_name event")
    case True
    obtain r w1 where h: "entry_handler h event w = (r, w1)" by (metis prod.exhaust)
    show ?thesis
    proof (cases r)
      case (Ok u)
      with Cons True h show ?thesis by (auto simp: py_bind_def py_catch_def)
    next
      case (Raise x)
      obtain r2 w2 where rep: "report_isolated_event_failure E event x w1 = (r2, w2)" by (metis prod.exhaust)
      with Cons True h Raise show ?thesis
        by (cases r2)
          (auto simp: py_bind_def py_catch_def py_raise_def dest: report_contained split: if_splits)
    qed
  qed (use Cons in auto)
qed (simp add: py_return_def)

lemma emit_loop_none: "list_all (\<lambda>h. entry_name h \<noteq> ev_name event) hs \<Longrightarrow> emit_loop E hs event = py_return ()"
  by (induction hs) auto

lemma on_event_Ok:
  assumes "on_event name h ''isolate'' p = Ok q"
  shows "\<exists>n. pol_handlers q = pol_handlers p @ [Registration n (pf_run h) Isolate]"
  using assms
  by (auto simp: on_event_def res_bind_Ok_iff dest!: post_init_same split: option.splits if_splits)

lemma on_events_handlers:
  assumes "on_events names (plain_function h) p = Ok q"
  shows "\<exists>ns. pol_handlers q = pol_handlers p @ map (\<lambda>n. Registration n h Isolate) ns"
  using assms
proof (induction names arbitrary: p)
  case Nil
  then show ?case by (auto intro: exI [of _ "[]"])
next
  case (Cons name names)
  then obtain p' where e: "on_event name (plain_function h) ''isolate'' p = Ok p'"
    and rest: "on_events names (plain_function h) p' = Ok q"
    by (auto simp: res_bind_Ok_iff)
  from on_event_Ok [OF e] obtain n where p': "pol_handlers p' = pol_handlers p @ [Registration n h Isolate]"
    by (auto simp: plain_function_def)
  from Cons.IH [OF rest] obtain ns where "pol_handlers q = pol_handlers p' @ map (\<lambda>n. Registration n h Isolate) ns"
    by blast
  then show ?case using p' by (intro exI [of _ "n # ns"]) simp
qed

section \<open>Properties\<close>

text \<open>
  C35: by default the observers leak nothing. With \<open>include_error_message\<close> off, the logging handler, the
  payload of the structured one and the console handler do the same for any two events that agree on
  their public parts, however the values, the error messages and the recorded attempts differ, and
  whatever \<open>str\<close> does on the exceptions.
\<close>

theorem default_logs_hide_messages:
  assumes "public_event a = public_event b"
  shows "make_logging_handler level log False a = make_logging_handler level log False b
    \<and> make_structured_logging_handler r dumps level log False a
      = make_structured_logging_handler r' dumps level log False b
    \<and> print_event r print False a = print_event r' print False b"
  using logging_hides [OF assms, of level log] structured_hides [OF assms, of r r']
    debug_hides [OF assms, of r print r']
  by (simp add: make_structured_logging_handler_def fun_eq_iff)

definition ex_event :: "string \<Rightarrow> retry_event" where
  "ex_event secret = \<lparr>ev_name = AfterGiveup, ev_attempt_number = 3, ev_function_name = ''f'', ev_delay = None,
     ev_value = VStr secret, ev_error = Some (new_exn TimeoutError_t secret), ev_state = None,
     ev_policy_name = None\<rparr>"

definition ex_failure :: "string \<Rightarrow> retry_event" where
  "ex_failure secret = (ex_event secret)\<lparr>ev_name := AfterFailure\<rparr>"

definition ex_log_world :: world where
  "ex_log_world = \<lparr>w_reads = 0, w_draws = 0, w_budgets = (\<lambda>i. ex_b0)\<rparr>"

text \<open>A logger and a console whose effects show what they were given.\<close>

definition ex_logger :: "unit logger" where
  "ex_logger level message args w = (Ok (), w\<lparr>w_reads := w_reads w + length message + length args\<rparr>)"

definition ex_print :: "string \<Rightarrow> (unit, unit) io" where
  "ex_print line w = (Ok (), w\<lparr>w_reads := w_reads w + length line\<rparr>)"

theorem default_logs_hide_messages_witness:
  "make_logging_handler 30 ex_logger False (ex_event ''token=a'')
      = make_logging_handler 30 ex_logger False (ex_event ''token=bc'')
    \<and> print_event (\<lambda>e. Ok (exn_msg e)) ex_print False (ex_event ''token=a'')
      = print_event (\<lambda>e. Ok (exn_msg e)) ex_print False (ex_event ''token=bc'')
    \<and> print_event (\<lambda>e. Ok (exn_msg e)) ex_print True (ex_failure ''token=a'')
      \<noteq> print_event (\<lambda>e. Ok (exn_msg e)) ex_print True (ex_failure ''token=bc'')"
proof -
  have "public_event (ex_event ''token=a'') = public_event (ex_event ''token=bc'')"
    by (simp add: public_event_def ex_event_def new_exn_def)
  from default_logs_hide_messages [OF this, of 30 ex_logger "\<lambda>e. Ok (exn_msg e)" "\<lambda>p. Ok []" "\<lambda>e. Ok (exn_msg e)" ex_print]
  have public: "make_logging_handler 30 ex_logger False (ex_event ''token=a'')
      = make_logging_handler 30 ex_logger False (ex_event ''token=bc'')"
    "print_event (\<lambda>e. Ok (exn_msg e)) ex_print False (ex_event ''token=a'')
      = print_event (\<lambda>e. Ok (exn_msg e)) ex_print False (ex_event ''token=bc'')" by blast+
  have "print_event (\<lambda>e. Ok (exn_msg e)) ex_print True (ex_failure ''token=a'') ex_log_world
      \<noteq> print_event (\<lambda>e. Ok (exn_msg e)) ex_print True (ex_failure ''token=bc'') ex_log_world"
    by (simp add: print_event_def ex_failure_def ex_event_def error_part_def ex_print_def new_exn_def py_bind_def
        py_lift_def ex_log_world_def)
  with public show ?thesis by metis
qed

text \<open>
  C36: the observers the builders install cannot interrupt a retry. On a policy without other handlers,
  \<open>debug\<close>, \<open>with_logging\<close> and \<open>with_structured_logging\<close> give a policy whose \<open>emit\<close> returns or ends with
  an exception that is no \<open>Exception\<close>, whatever the logger, the console, \<open>json.dumps\<close> or \<open>str\<close> raise.
\<close>

theorem observers_contained:
  assumes "debug render print include p = Ok q \<or> with_logging level log include p = Ok q
      \<or> with_structured_logging render dumps level log include p = Ok q"
    and "pol_handlers p = []" "emit E q event w = (Raise e, w')"
  shows "\<not> is_exception e"
proof -
  from assms(1) obtain h ns where "pol_handlers q = pol_handlers p @ map (\<lambda>n. Registration n h Isolate) ns"
    unfolding debug_def with_logging_def with_structured_logging_def by (metis on_events_handlers)
  then have "entry_mode x = Isolate" if "x \<in> set (pol_handlers q)" for x
    using that assms(2) by auto
  with emit_loop_isolated [OF _ assms(3) [unfolded emit_def]] show ?thesis by blast
qed

text \<open>A logger that raises for ever, and one that is interrupted.\<close>

theorem observers_contained_witness:
  "\<exists>q. with_logging 30 (\<lambda>level message args. py_raise (new_exn RuntimeError_t ''disk full'')
        :: (world, unit) py) False ex_policy = Ok q
    \<and> \<not> (\<exists>w e w'. emit ex_env q (ex_event []) w = (Raise e, w') \<and> is_exception e)"
proof -
  let ?log = "\<lambda>level message args. py_raise (new_exn RuntimeError_t ''disk full'') :: (world, unit) py"
  let ?p = "ex_policy :: world policy"
  have h: "pol_handlers ?p = []" by (simp add: ex_policy_def default_policy_def)
  obtain q where q: "with_logging 30 ?log False ?p = Ok q"
    by (simp add: with_logging_def on_event_def event_names_def plain_function_def ex_policy_def default_policy_def
        post_init_def explicit_behaviors_def check_sleepers_def)
  from observers_contained [OF disjI2 [OF disjI1 [OF q]] h] q show ?thesis by blast
qed

end
