(* ===== verification/Builders.thy ===== *)
theory Builders
  imports Main Decorator Logging
begin

text \<open>
  What every policy the builder methods can produce satisfies: the checks of \<open>__post_init__\<close> hold of it,
  its parts are ones their constructors accept, and exactly one exhaustion behaviour is configured.
\<close>

section \<open>Well-formed policies\<close>

fun condition_accepted :: "'s condition \<Rightarrow> bool" where
  "condition_accepted (ExceptionCondition types) \<longleftrightarrow> types \<noteq> [] \<and> list_all (\<lambda>c. issubclass c Exception_t) types"
| "condition_accepted (AnyCondition cs) \<longleftrightarrow> cs \<noteq> [] \<and> list_all condition_accepted cs"
| "condition_accepted (AllCondition cs) \<longleftrightarrow> cs \<noteq> [] \<and> list_all condition_accepted cs"
| "condition_accepted _ \<longleftrightarrow> True"

text \<open>The numbers of a delay tree; objects of the user may be in it.\<close>

fun delay_accepted :: "'s delay \<Rightarrow> bool" where
  "delay_accepted (FixedDelay d) \<longleftrightarrow> safe_num d"
| "delay_accepted (LinearDelay start step maximum) \<longleftrightarrow>
     safe_num start \<and> nonneg_num step \<and> pred_option safe_num maximum"
| "delay_accepted (ExponentialDelay base factor maximum) \<longleftrightarrow>
     nonneg_num base \<and> positive_num factor \<and> pred_option safe_num maximum"
| "delay_accepted (ChainDelay ds) \<longleftrightarrow> ds \<noteq> [] \<and> list_all safe_num ds"
| "delay_accepted (RandomDelay minimum maximum seed) \<longleftrightarrow>
     safe_num minimum \<and> safe_num maximum \<and> \<not> num_less maximum minimum"
| "delay_accepted (RandomExponentialDelay base factor minimum maximum seed) \<longleftrightarrow>
     nonneg_num base \<and> positive_num factor \<and> safe_num minimum \<and>
     pred_option (\<lambda>m. safe_num m \<and> \<not> num_less m minimum) maximum"
| "delay_accepted (AdditiveDelay ds) \<longleftrightarrow> list_all delay_accepted ds"
| "delay_accepted _ \<longleftrightarrow> True"

definition policy_ok :: "'s policy \<Rightarrow> bool" where
  "policy_ok p \<longleftrightarrow> post_init p = Ok p \<and> stop_wf (pol_stop p) \<and> delay_accepted (pol_delay p)
     \<and> condition_accepted (pol_condition p) \<and> of_bool (pol_raise_last p) + explicit_behaviors p = (1 :: nat)"

section \<open>The policies that can be buildable\<close>

text \<open>
  One step per builder method, on any arguments it accepts. Strategies and conditions given as objects
  are ones that were constructed.
\<close>

inductive builder_step :: "'u world_scheme policy \<Rightarrow> 'u world_scheme policy \<Rightarrow> bool" where
  "named v p = Ok q \<Longrightarrow> builder_step p q"
| "attempts v p = Ok q \<Longrightarrow> builder_step p q"
| "forever p = Ok q \<Longrightarrow> builder_step p q"
| "max_time v p = Ok q \<Longrightarrow> builder_step p q"
| "stop_when s p = Ok q \<Longrightarrow> stop_wf s \<Longrightarrow> builder_step p q"
| "or_stop_after_attempts v p = Ok q \<Longrightarrow> builder_step p q"
| "or_stop_after_time v p = Ok q \<Longrightarrow> builder_step p q"
| "and_stop_after_attempts v p = Ok q \<Longrightarrow> builder_step p q"
| "and_stop_after_time v p = Ok q \<Longrightarrow> builder_step p q"
| "on vs p = Ok q \<Longrightarrow> builder_step p q"
| "retry_if_result f p = Ok q \<Longrightarrow> builder_step p q"
| "retry_if g p = Ok q \<Longrightarrow> builder_step p q"
| "any_condition cs p = Ok q \<Longrightarrow> list_all condition_accepted cs \<Longrightarrow> builder_step p q"
| "all_conditions cs p = Ok q \<Longrightarrow> list_all condition_accepted cs \<Longrightarrow> builder_step p q"
| "or_on vs p = Ok q \<Longrightarrow> builder_step p q"
| "or_retry_if_result f p = Ok q \<Longrightarrow> builder_step p q"
| "fixed_delay v p = Ok q \<Longrightarrow> builder_step p q"
| "no_delay p = Ok q \<Longrightarrow> builder_step p q"
| "linear_delay v w m p = Ok q \<Longrightarrow> builder_step p q"
| "chain_delay vs p = Ok q \<Longrightarrow> builder_step p q"
| "exponential_delay v w m p = Ok q \<Longrightarrow> builder_step p q"
| "random_exponential_delay v w x m seed p = Ok q \<Longrightarrow> builder_step p q"
| "random_delay v w seed p = Ok q \<Longrightarrow> builder_step p q"
| "jitter v w seed p = Ok q \<Longrightarrow> builder_step p q"
| "add_delay d p = Ok q \<Longrightarrow> delay_accepted d \<Longrightarrow> builder_step p q"
| "custom_delay h p = Ok q \<Longrightarrow> builder_step p q"
| "stateful_delay k p = Ok q \<Longrightarrow> builder_step p q"
| "raise_last p = Ok q \<Longrightarrow> builder_step p q"
| "return_result p = Ok q \<Longrightarrow> builder_step p q"
| "raise_on_result_exhausted p = Ok q \<Longrightarrow> builder_step p q"
| "return_last_on_result_exhausted p = Ok q \<Longrightarrow> builder_step p q"
| "on_exhausted_return r p = Ok q \<Longrightarrow> builder_step p q"
| "on_exhausted_return_value v p = Ok q \<Longrightarrow> builder_step p q"
| "fallback r p = Ok q \<Longrightarrow> builder_step p q"
| "fallback_value v p = Ok q \<Longrightarrow> builder_step p q"
| "on_exhausted_raise a p = Ok q \<Longrightarrow> builder_step p q"
| "keep_history v p = Ok q \<Longrightarrow> builder_step p q"
| "with_retry_budget b v p = Ok q \<Longrightarrow> builder_step p q"
| "without_retry_budget p = Ok q \<Longrightarrow> builder_step p q"
| "with_sleep s1 s2 p = Ok q \<Longrightarrow> builder_step p q"
| "for_testing p = Ok q \<Longrightarrow> builder_step p q"
| "on_event name e mode p = Ok q \<Longrightarrow> builder_step p q"
| "debug render print include p = Ok q \<Longrightarrow> builder_step p q"
| "with_logging level log include p = Ok q \<Longrightarrow> builder_step p q"
| "with_structured_logging render dumps level log include p = Ok q \<Longrightarrow> builder_step p q"

inductive buildable :: "'u world_scheme policy \<Rightarrow> bool" where
  buildable_default: "buildable default_policy"
| buildable_step: "buildable p \<Longrightarrow> builder_step p q \<Longrightarrow> buildable q"

section \<open>Accepted arguments\<close>

lemma constructed_stops:
  "mk_StopAfterAttempt v = Ok s \<Longrightarrow> stop_wf s" "mk_StopAfterDelay v = Ok s \<Longrightarrow> stop_wf s"
  "mk_AnyStop ss = Ok s \<Longrightarrow> list_all stop_wf ss \<Longrightarrow> stop_wf s"
  "mk_AllStop ss = Ok s \<Longrightarrow> list_all stop_wf ss \<Longrightarrow> stop_wf s"
  by (auto simp: mk_StopAfterAttempt_def mk_StopAfterDelay_def mk_AnyStop_def mk_AllStop_def res_bind_Ok_iff
      ensure_positive_int_iff accepted_numbers(1) simp flip: nonneg_num_le split: if_splits)

lemma flattened_any_stops: "list_all stop_wf ss \<Longrightarrow> list_all stop_wf (flatten_any_stop_strategies ss)"
  by (rule any_stops.flatten_list_all) (auto simp: any_stop_parts_def split: stop.splits)

lemma flattened_all_stops: "list_all stop_wf ss \<Longrightarrow> list_all stop_wf (flatten_all_stop_strategies ss)"
  by (rule all_stops.flatten_list_all) (auto simp: all_stop_parts_def split: stop.splits)

lemma constructed_conditions:
  "mk_ExceptionCondition vs = Ok c \<Longrightarrow> condition_accepted c" "mk_ResultCondition f = Ok c \<Longrightarrow> condition_accepted c"
  "mk_CustomCondition g = Ok c \<Longrightarrow> condition_accepted c"
  "mk_AnyCondition cs = Ok c \<Longrightarrow> list_all condition_accepted cs \<Longrightarrow> condition_accepted c"
  "mk_AllCondition cs = Ok c \<Longrightarrow> list_all condition_accepted cs \<Longrightarrow> condition_accepted c"
  by (force simp: mk_ExceptionCondition_def mk_ResultCondition_def mk_CustomCondition_def mk_AnyCondition_def
      mk_AllCondition_def res_bind_Ok_iff ensure_exception_types_def ensure_exception_type_list_iff list_all_iff
      split: if_splits)+

lemma flattened_any_conditions: "list_all condition_accepted cs \<Longrightarrow> list_all condition_accepted (flatten_any_conditions cs)"
  by (rule any_errors.flatten_list_all) (auto simp: any_condition_parts_def split: condition.splits)

lemma flattened_all_conditions: "list_all condition_accepted cs \<Longrightarrow> list_all condition_accepted (flatten_all_conditions cs)"
  by (rule all_errors.flatten_list_all) (auto simp: all_condition_parts_def split: condition.splits)

lemma constructed_delays:
  "mk_FixedDelay v = Ok d \<Longrightarrow> delay_accepted d" "mk_LinearDelay v w m = Ok d \<Longrightarrow> delay_accepted d"
  "mk_ExponentialDelay v w m = Ok d \<Longrightarrow> delay_accepted d" "mk_ChainDelay vs = Ok d \<Longrightarrow> delay_accepted d"
  "mk_RandomDelay v w seed = Ok d \<Longrightarrow> delay_accepted d"
  "mk_RandomExponentialDelay v w x m seed = Ok d \<Longrightarrow> delay_accepted d"
  "mk_CustomDelay h = Ok d \<Longrightarrow> delay_accepted d" "mk_StatefulCustomDelay k = Ok d \<Longrightarrow> delay_accepted d"
proof -
  have chain: "ensure_chain vs = Ok () \<Longrightarrow> list_all safe_num (map num_of vs)" for vs
    by (induction vs) (auto simp: res_bind_Ok_iff accepted_numbers(3))
  note defs = mk_FixedDelay_def mk_LinearDelay_def mk_ExponentialDelay_def mk_ChainDelay_def mk_RandomDelay_def
    mk_RandomExponentialDelay_def mk_CustomDelay_def mk_StatefulCustomDelay_def ensure_safe_maximum_def
  show "mk_FixedDelay v = Ok d \<Longrightarrow> delay_accepted d" "mk_LinearDelay v w m = Ok d \<Longrightarrow> delay_accepted d"
    "mk_ExponentialDelay v w m = Ok d \<Longrightarrow> delay_accepted d" "mk_ChainDelay vs = Ok d \<Longrightarrow> delay_accepted d"
    "mk_RandomDelay v w seed = Ok d \<Longrightarrow> delay_accepted d"
    "mk_RandomExponentialDelay v w x m seed = Ok d \<Longrightarrow> delay_accepted d"
    "mk_CustomDelay h = Ok d \<Longrightarrow> delay_accepted d" "mk_StatefulCustomDelay k = Ok d \<Longrightarrow> delay_accepted d"
    using chain by (auto simp: defs res_bind_Ok_iff accepted_numbers split: option.splits if_splits)
qed

section \<open>Every step keeps a policy well-formed\<close>

lemma policy_ok_post:
  assumes "post_init r = Ok q" "stop_wf (pol_stop r)" "delay_accepted (pol_delay r)" "condition_accepted (pol_condition r)"
    and "of_bool (pol_raise_last r) + explicit_behaviors r = (1 :: nat)"
  shows "policy_ok q"
  using assms post_init_same [OF assms(1)] by (simp add: policy_ok_def)

lemma policy_okD:
  assumes "policy_ok p"
  shows "stop_wf (pol_stop p)" "delay_accepted (pol_delay p)" "condition_accepted (pol_condition p)"
    "of_bool (pol_raise_last p) + explicit_behaviors p = (1 :: nat)" "post_init p = Ok p"
  using assms by (simp_all add: policy_ok_def)

lemma ok_with_part:
  assumes "policy_ok p"
  shows "with_stop p s = Ok q \<Longrightarrow> (\<And>x. s = Ok x \<Longrightarrow> stop_wf x) \<Longrightarrow> policy_ok q"
    and "with_delay p d = Ok q \<Longrightarrow> (\<And>x. d = Ok x \<Longrightarrow> delay_accepted x) \<Longrightarrow> policy_ok q"
    and "with_condition p c = Ok q \<Longrightarrow> (\<And>x. c = Ok x \<Longrightarrow> condition_accepted x) \<Longrightarrow> policy_ok q"
  using policy_okD [OF assms]
  by (auto simp: with_stop_def with_delay_def with_condition_def res_bind_Ok_iff explicit_behaviors_def
      elim!: policy_ok_post)

lemma ok_exhaustion:
  assumes "policy_ok p" "of_bool l + of_bool t + of_bool (c \<noteq> None) + of_bool (f \<noteq> None) = (1 :: nat)"
  shows "replace_exhaustion l t c f p = Ok q \<Longrightarrow> policy_ok q"
  using policy_okD [OF assms(1)] assms(2)
  by (auto simp: replace_exhaustion_def explicit_behaviors_def elim!: policy_ok_post)

lemma ok_event:
  assumes "policy_ok p"
  shows "on_event name e mode p = Ok q \<Longrightarrow> policy_ok q"
  using policy_okD [OF assms]
  by (auto simp: on_event_def res_bind_Ok_iff explicit_behaviors_def elim!: policy_ok_post
      split: option.splits if_splits)

lemma ok_events: "on_events names h p = Ok q \<Longrightarrow> policy_ok p \<Longrightarrow> policy_ok q"
  by (induction names arbitrary: p) (auto simp: res_bind_Ok_iff dest: ok_event [rotated])

lemmas stop_builders = attempts_def forever_def max_time_def stop_when_def or_stop_after_attempts_def
  or_stop_after_time_def and_stop_after_attempts_def and_stop_after_time_def

lemmas condition_builders = on_def retry_if_result_def retry_if_def any_condition_def all_conditions_def
  or_on_def or_retry_if_result_def

lemmas delay_builders = no_delay_def fixed_delay_def linear_delay_def chain_delay_def exponential_delay_def
  random_exponential_delay_def random_delay_def jitter_def add_delay_def custom_delay_def stateful_delay_def

lemmas exhaustion_builders = raise_last_def return_result_def fallback_def fallback_value_def
  on_exhausted_return_value_def on_exhausted_return_def on_exhausted_raise_def

lemmas other_builders = named_def raise_on_result_exhausted_def return_last_on_result_exhausted_def
  keep_history_def with_retry_budget_def without_retry_budget_def with_sleep_def for_testing_def

lemma combined_stops:
  "mk_AnyStop (flatten_any_stop_strategies [a, b]) = Ok s \<Longrightarrow> stop_wf a \<Longrightarrow> stop_wf b \<Longrightarrow> stop_wf s"
  "mk_AllStop (flatten_all_stop_strategies [a, b]) = Ok s \<Longrightarrow> stop_wf a \<Longrightarrow> stop_wf b \<Longrightarrow> stop_wf s"
  using constructed_stops(3,4) flattened_any_stops [of "[a, b]"] flattened_all_stops [of "[a, b]"] by auto

lemma ok_stop_builders:
  assumes "policy_ok p"
  shows "attempts v p = Ok q \<Longrightarrow> policy_ok q" "forever p = Ok q \<Longrightarrow> policy_ok q" "max_time v p = Ok q \<Longrightarrow> policy_ok q"
    "stop_when s p = Ok q \<Longrightarrow> stop_wf s \<Longrightarrow> policy_ok q"
    "or_stop_after_attempts v p = Ok q \<Longrightarrow> policy_ok q" "or_stop_after_time v p = Ok q \<Longrightarrow> policy_ok q"
    "and_stop_after_attempts v p = Ok q \<Longrightarrow> policy_ok q" "and_stop_after_time v p = Ok q \<Longrightarrow> policy_ok q"
  unfolding stop_builders using policy_okD(1) [OF assms]
  by (auto elim!: ok_with_part(1) [OF assms] simp: res_bind_Ok_iff
      simp del: flatten_any_stop_strategies.simps flatten_all_stop_strategies.simps)
    (metis combined_stops constructed_stops(1,2))+

lemma combined_conditions:
  "mk_AnyCondition (flatten_any_conditions cs) = Ok c \<Longrightarrow> list_all condition_accepted cs \<Longrightarrow> condition_accepted c"
  "mk_AllCondition (flatten_all_conditions cs) = Ok c \<Longrightarrow> list_all condition_accepted cs \<Longrightarrow> condition_accepted c"
  using constructed_conditions(4,5) flattened_any_conditions flattened_all_conditions by blast+

lemma extended_condition:
  "mk_AnyCondition (flatten_any_conditions [a, b]) = Ok c \<Longrightarrow> condition_accepted a \<Longrightarrow> condition_accepted b
    \<Longrightarrow> condition_accepted c"
  by (rule combined_conditions(1)) auto

lemma ok_condition_builders:
  assumes "policy_ok p"
  shows "on vs p = Ok q \<Longrightarrow> policy_ok q" "retry_if_result f p = Ok q \<Longrightarrow> policy_ok q"
    "retry_if g p = Ok q \<Longrightarrow> policy_ok q"
    "any_condition cs p = Ok q \<Longrightarrow> list_all condition_accepted cs \<Longrightarrow> policy_ok q"
    "all_conditions cs p = Ok q \<Longrightarrow> list_all condition_accepted cs \<Longrightarrow> policy_ok q"
    "or_on vs p = Ok q \<Longrightarrow> policy_ok q" "or_retry_if_result f p = Ok q \<Longrightarrow> policy_ok q"
  unfolding condition_builders Let_def using policy_okD(3) [OF assms]
  by (auto elim!: ok_with_part(3) [OF assms] simp: res_bind_Ok_iff
      simp del: flatten_any_conditions.simps flatten_all_conditions.simps)
    (metis combined_conditions extended_condition constructed_conditions(1-3))+

lemma ok_delay_builders:
  assumes "policy_ok p"
  shows "fixed_delay v p = Ok q \<Longrightarrow> policy_ok q" "no_delay p = Ok q \<Longrightarrow> policy_ok q"
    "linear_delay v w m p = Ok q \<Longrightarrow> policy_ok q" "chain_delay vs p = Ok q \<Longrightarrow> policy_ok q"
    "exponential_delay v w m p = Ok q \<Longrightarrow> policy_ok q"
    "random_exponential_delay v w x m seed p = Ok q \<Longrightarrow> policy_ok q"
    "random_delay v w seed p = Ok q \<Longrightarrow> policy_ok q" "jitter v w seed p = Ok q \<Longrightarrow> policy_ok q"
    "add_delay d p = Ok q \<Longrightarrow> delay_accepted d \<Longrightarrow> policy_ok q"
    "custom_delay h p = Ok q \<Longrightarrow> policy_ok q" "stateful_delay k p = Ok q \<Longrightarrow> policy_ok q"
  unfolding delay_builders using policy_okD(2) [OF assms]
  by (auto elim!: ok_with_part(2) [OF assms] simp: res_bind_Ok_iff) (erule constructed_delays)+

lemma ok_exhaustion_builders:
  assumes "policy_ok p"
  shows "raise_last p = Ok q \<Longrightarrow> policy_ok q" "return_result p = Ok q \<Longrightarrow> policy_ok q"
    "on_exhausted_return r p = Ok q \<Longrightarrow> policy_ok q" "on_exhausted_return_value v p = Ok q \<Longrightarrow> policy_ok q"
    "fallback r p = Ok q \<Longrightarrow> policy_ok q" "fallback_value v p = Ok q \<Longrightarrow> policy_ok q"
    "on_exhausted_raise a p = Ok q \<Longrightarrow> policy_ok q"
  unfolding exhaustion_builders
  by (auto elim!: ok_exhaustion [OF assms, rotated] simp: res_bind_Ok_iff)

lemma ok_other_builders:
  assumes "policy_ok p"
  shows "named v p = Ok q \<Longrightarrow> policy_ok q" "raise_on_result_exhausted p = Ok q \<Longrightarrow> policy_ok q"
    "return_last_on_result_exhausted p = Ok q \<Longrightarrow> policy_ok q" "keep_history v p = Ok q \<Longrightarrow> policy_ok q"
    "with_retry_budget b v p = Ok q \<Longrightarrow> policy_ok q" "without_retry_budget p = Ok q \<Longrightarrow> policy_ok q"
    "with_sleep s1 s2 p = Ok q \<Longrightarrow> policy_ok q"
  unfolding other_builders Let_def using policy_okD [OF assms]
  by (auto elim!: policy_ok_post simp: res_bind_Ok_iff explicit_behaviors_def
      split: pyval.splits option.splits if_splits)

lemma ok_for_testing: "policy_ok p \<Longrightarrow> for_testing p = Ok q \<Longrightarrow> policy_ok q"
proof -
  assume "policy_ok p" "for_testing p = Ok q"
  then obtain r where r: "policy_ok r" "post_init (r\<lparr>pol_testing := True\<rparr>) = Ok q"
    using ok_other_builders(7) unfolding for_testing_def res_bind_Ok_iff by blast
  then show ?thesis using policy_okD [OF r(1)]
    by (auto elim!: policy_ok_post simp: explicit_behaviors_def)
qed

lemma ok_observers:
  assumes "policy_ok p"
  shows "debug render print include p = Ok q \<Longrightarrow> policy_ok q" "with_logging level log include p = Ok q \<Longrightarrow> policy_ok q"
    "with_structured_logging render dumps level log include p = Ok q \<Longrightarrow> policy_ok q"
  using ok_events [OF _ assms] unfolding debug_def with_logging_def with_structured_logging_def by blast+

lemmas ok_builders = ok_stop_builders ok_condition_builders ok_delay_builders ok_exhaustion_builders
  ok_other_builders ok_for_testing ok_event ok_observers

lemma ok_step: "builder_step p q \<Longrightarrow> policy_ok p \<Longrightarrow> policy_ok q"
  by (induction rule: builder_step.induct) (blast intro: ok_builders)+

lemma default_ok: "policy_ok (default_policy :: 's policy)"
  by (simp add: policy_ok_def default_policy_def post_init_def explicit_behaviors_def check_sleepers_def
      safe_num_iff)

lemma buildable_ok: "buildable p \<Longrightarrow> policy_ok p"
  by (induction rule: buildable.induct) (auto simp: default_ok intro: ok_step)

text \<open>The parts that \<open>replace\<close> leaves alone were checked before.\<close>

lemma post_init_iff:
  "post_init p = Ok q \<longleftrightarrow> q = p \<and> \<not> (case pol_name p of None \<Rightarrow> False | Some n \<Rightarrow> blank n)
     \<and> (case pol_history_limit p of None \<Rightarrow> Ok () | Some n \<Rightarrow> ensure_positive_int ''history_limit'' (VInt (int n))) = Ok ()
     \<and> \<not> (pol_budget p = None \<and> pol_budget_key p \<noteq> None)
     \<and> \<not> (pol_budget p \<noteq> None \<and> (case pol_budget_key p of None \<Rightarrow> True | Some k \<Rightarrow> blank k))
     \<and> \<not> (1 < explicit_behaviors p \<or> (pol_raise_last p \<and> 0 < explicit_behaviors p))
     \<and> check_sleepers p = Ok ()"
  unfolding post_init_def res_bind_Ok_iff by (auto simp: res_bind_Ok_iff simp del: not_less not_gr_zero)

lemma replaced_again:
  assumes "policy_ok p"
  shows "post_init (p\<lparr>pol_stop := s\<rparr>) = Ok (p\<lparr>pol_stop := s\<rparr>)"
    "post_init (p\<lparr>pol_raise_last := False, pol_return_result := True, pol_callback := None, pol_factory := None\<rparr>)
       = Ok (p\<lparr>pol_raise_last := False, pol_return_result := True, pol_callback := None, pol_factory := None\<rparr>)"
    "post_init (p\<lparr>pol_budget := None, pol_budget_key := None\<rparr>) = Ok (p\<lparr>pol_budget := None, pol_budget_key := None\<rparr>)"
  using policy_okD(5) [OF assms] unfolding post_init_iff by (simp_all add: explicit_behaviors_def check_sleepers_def)

text \<open>
  C40: Whatever sequence of builder methods made a policy, on whatever arguments they accepted, it passes
  the checks of \<open>__post_init__\<close>, its stop, delay and condition are ones their constructors accept, and
  exactly one exhaustion behaviour is configured; and the methods that take no new argument
  (\<open>forever\<close>, \<open>return_result\<close>, \<open>without_retry_budget\<close>) never raise on it and change only
  their own fields.
\<close>
theorem builders_keep_policies_valid:
  assumes "buildable p"
  shows "policy_ok p \<and> of_bool (pol_raise_last p) + explicit_behaviors p = (1 :: nat)
    \<and> forever p = Ok (p\<lparr>pol_stop := StopForever\<rparr>)
    \<and> return_result p = Ok (p\<lparr>pol_raise_last := False, pol_return_result := True, pol_callback := None, pol_factory := None\<rparr>)
    \<and> without_retry_budget p = Ok (p\<lparr>pol_budget := None, pol_budget_key := None\<rparr>)"
  using buildable_ok [OF assms] policy_okD(4) [OF buildable_ok [OF assms]]
  by (simp add: replaced_again forever_def with_stop_def return_result_def replace_exhaustion_def without_retry_budget_def)

definition built_policy :: "unit world_scheme policy" where
  "built_policy = default_policy\<lparr>pol_stop := AnyStop [StopAfterAttempt 5, StopAfterAttempt 7]\<rparr>"

theorem builders_keep_policies_valid_witness:
  "buildable built_policy \<and> policy_ok built_policy
    \<and> return_result built_policy = Ok (built_policy\<lparr>pol_raise_last := False, pol_return_result := True\<rparr>)"
proof -
  let ?five = "default_policy\<lparr>pol_stop := StopAfterAttempt 5\<rparr> :: unit world_scheme policy"
  have "attempts (VInt 5) default_policy = Ok ?five"
    by (simp add: attempts_def with_stop_def mk_StopAfterAttempt_def ensure_positive_int_iff res_bind_Ok_iff
        default_policy_def post_init_def explicit_behaviors_def check_sleepers_def)
  moreover have "or_stop_after_attempts (VInt 7) ?five = Ok built_policy"
    by (simp add: or_stop_after_attempts_def with_stop_def mk_StopAfterAttempt_def mk_AnyStop_def ensure_positive_int_iff
        res_bind_Ok_iff built_policy_def default_policy_def post_init_def explicit_behaviors_def check_sleepers_def)
  ultimately have b: "buildable built_policy"
    by (meson builder_step.intros buildable_default buildable_step)
  then show ?thesis
    using builders_keep_policies_valid [OF b] by (simp add: built_policy_def default_policy_def)
qed

end
