(* ===== verification/Release.thy ===== *)
theory Release
  imports Main PyText
begin

text \<open>
  \<open>scripts/validate_release_version.py\<close>: a release is valid when its tag, the version of
  \<open>pyproject.toml\<close> and \<open>relinker.__version__\<close> agree. The two files are parameters: what \<open>tomllib.load\<close> and
  \<open>ast.parse\<close> return for them, or the exception that reading or parsing raises.
\<close>

section \<open>The release tag\<close>

definition VersionValidationError_t :: exc_type where
  "VersionValidationError_t = ExcType ''__main__'' ''VersionValidationError'' [RuntimeError_t]"

definition SyntaxError_t :: exc_type where
  "SyntaxError_t = ExcType ''builtins'' ''SyntaxError'' [Exception_t]"

definition version_error :: "string \<Rightarrow> exn" where
  "version_error message = new_exn VersionValidationError_t message"

text \<open>\<open>s.removeprefix(prefix)\<close>\<close>

definition removeprefix :: "string \<Rightarrow> string \<Rightarrow> string" where
  "removeprefix prefix s = (if prefix = take (length prefix) s then drop (length prefix) s else s)"

definition normalize_release_tag :: "string \<Rightarrow> string res" where
  "normalize_release_tag tag =
     (let stripped = strip tag;
          bare = (if ''refs/tags/'' = take 10 stripped then removeprefix ''refs/tags/'' stripped else stripped);
          normalized = removeprefix ''v'' bare
      in if normalized = [] then Raise (version_error ''release tag cannot be empty'') else Ok normalized)"

section \<open>The versions in the files\<close>

text \<open>\<open>data[key]\<close>; what is no table and no list cannot be subscribed with a string.\<close>

definition subscript :: "pyval \<Rightarrow> string \<Rightarrow> pyval res" where
  "subscript data key =
     (case data of
        VDict entries \<Rightarrow>
          (case map_of entries (VStr key) of None \<Rightarrow> Raise (new_exn KeyError_t key) | Some v \<Rightarrow> Ok v)
      | _ \<Rightarrow> Raise (new_exn TypeError_t ''not subscriptable with a string''))"

definition nonempty_string :: "pyval \<Rightarrow> string option" where
  "nonempty_string v = (case v of VStr s \<Rightarrow> if s = [] then None else Some s | _ \<Rightarrow> None)"

definition read_pyproject_version :: "pyval res \<Rightarrow> string res" where
  "read_pyproject_version file =
     res_bind file (\<lambda>data.
       case res_bind (subscript data ''project'') (\<lambda>project. subscript project ''version'') of
         Raise e \<Rightarrow>
           if isinstance_exn e KeyError_t then Raise (version_error ''project version is missing'') else Raise e
       | Ok v \<Rightarrow>
           (case nonempty_string v of
              None \<Rightarrow> Raise (version_error ''project version must be a non-empty string'')
            | Some s \<Rightarrow> Ok s))"

text \<open>
  The syntax the search looks at. \<open>OtherExpr r\<close> is an expression for which \<open>ast.literal_eval\<close> gives \<open>r\<close>.
\<close>

datatype expr = Name string | Constant pyval | OtherExpr "pyval res"

datatype statement = Assign "expr list" expr | AnnAssign expr "expr option" | OtherStatement

fun literal_eval :: "expr \<Rightarrow> pyval res" where
  "literal_eval (Constant v) = Ok v"
| "literal_eval (Name n) = Raise (new_exn ValueError_t ''malformed node'')"
| "literal_eval (OtherExpr r) = r"

text \<open>The value that a statement gives to \<open>__version__\<close>.\<close>

fun version_value :: "statement \<Rightarrow> expr option" where
  "version_value (Assign targets v) = (if Name ''__version__'' \<in> set targets then Some v else None)"
| "version_value (AnnAssign target (Some v)) = (if target = Name ''__version__'' then Some v else None)"
| "version_value _ = None"

fun find_version :: "statement list \<Rightarrow> string res" where
  "find_version [] = Raise (version_error ''could not find __version__'')"
| "find_version (statement # rest) =
     (case version_value statement of
        None \<Rightarrow> find_version rest
      | Some v \<Rightarrow>
          res_bind (literal_eval v) (\<lambda>resolved.
            case nonempty_string resolved of
              Some s \<Rightarrow> Ok s
            | None \<Rightarrow> Raise (version_error ''__version__ must be a non-empty string literal'')))"

definition read_package_version :: "statement list res \<Rightarrow> string res" where
  "read_package_version file = res_bind file find_version"

section \<open>The check and the program\<close>

definition validate_release_version ::
    "string \<Rightarrow> pyval res \<Rightarrow> statement list res \<Rightarrow> (string \<times> string) list res" where
  "validate_release_version tag pyproject package =
     res_bind (normalize_release_tag tag) (\<lambda>t.
     res_bind (read_pyproject_version pyproject) (\<lambda>v.
     res_bind (read_package_version package) (\<lambda>w.
       let versions = [(''tag'', t), (''pyproject.toml'', v), (''relinker.__version__'', w)]
       in if card (set (map snd versions)) \<noteq> 1 then Raise (version_error ''version mismatch'') else Ok versions)))"

text \<open>The exit status of the program; \<open>None\<close> for no tag. Other exceptions end it.\<close>

definition release_main :: "string option \<Rightarrow> pyval res \<Rightarrow> statement list res \<Rightarrow> int res" where
  "release_main tag pyproject package =
     (case tag of
        None \<Rightarrow> Ok 2
      | Some t \<Rightarrow>
          (case validate_release_version t pyproject package of
             Ok versions \<Rightarrow> Ok 0
           | Raise e \<Rightarrow>
               if isinstance_exn e OSError_t \<or> isinstance_exn e SyntaxError_t \<or> isinstance_exn e ValueError_t
                  \<or> isinstance_exn e VersionValidationError_t
               then Ok 1 else Raise e))"

section \<open>Facts\<close>

text \<open>A tag is read back from each of its three forms.\<close>

lemma normalize_forms:
  assumes "version \<noteq> []" "\<not> is_space (hd version)" "\<not> is_space (last version)" "hd version \<noteq> CHR ''v''"
    and "hd version \<noteq> CHR ''r''"
  shows "normalize_release_tag (''refs/tags/v'' @ version) = Ok version"
    "normalize_release_tag (''v'' @ version) = Ok version" "normalize_release_tag version = Ok version"
proof -
  have tags: "\<not> is_space (hd (prefix @ version))" if "prefix = [] \<or> \<not> is_space (hd prefix)" for prefix
    using that assms by (cases prefix) auto
  have stripped: "strip (prefix @ version) = prefix @ version" if "prefix = [] \<or> \<not> is_space (hd prefix)" for prefix
    using strip_padded [of "[]" "[]" "prefix @ version"] tags [OF that] assms by (simp add: blank_def)
  obtain c rest where v: "version = c # rest" using assms(1) by (cases version) auto
  have spaces: "\<not> is_space CHR ''r''" "\<not> is_space CHR ''v''" by (simp_all add: is_space_def)
  show "normalize_release_tag (''refs/tags/v'' @ version) = Ok version"
    using stripped [of "''refs/tags/v''"] spaces assms by (simp add: normalize_release_tag_def removeprefix_def)
  show "normalize_release_tag (''v'' @ version) = Ok version"
    using stripped [of "''v''"] spaces assms by (simp add: normalize_release_tag_def removeprefix_def)
  show "normalize_release_tag version = Ok version"
    using stripped [of "[]"] assms by (simp add: normalize_release_tag_def removeprefix_def v)
qed

text \<open>The check passes exactly when the three sources can be read and agree.\<close>

lemma validate_release_iff:
  "(\<exists>versions. validate_release_version tag pyproject package = Ok versions) \<longleftrightarrow>
    (\<exists>v. normalize_release_tag tag = Ok v \<and> read_pyproject_version pyproject = Ok v
      \<and> read_package_version package = Ok v)"
proof -
  have "card {t, v, w} = 1 \<longleftrightarrow> t = v \<and> v = w" for t v w :: string
    by (cases "t = v"; cases "v = w") (auto simp: card_insert_if)
  then show ?thesis
    by (auto simp: validate_release_version_def res_bind_Ok_iff Let_def)
qed

end
