(* ===== verification/Presets.thy ===== *)
theory Presets
  imports Main Executors
begin

text \<open>
  \<open>presets.py\<close>: the ready-made policies, as the chains of builder methods they are, with their float
  literals rounded as Python reads them.
\<close>

section \<open>The presets\<close>

text \<open>\<open>_exceptions_or_default\<close>\<close>

definition exceptions_or_default :: "pyval list \<Rightarrow> pyval list \<Rightarrow> pyval list" where
  "exceptions_or_default exception_types defaults =
     (if exception_types = [] then defaults else exception_types)"

definition transport_errors :: "pyval list" where
  "transport_errors = [VExcType TimeoutError_t, VExcType ConnectionError_t, VExcType OSError_t]"

text \<open>\<open>RetryPolicy().attempts(n).on(*exceptions)\<close>\<close>

definition attempts_on :: "int \<Rightarrow> pyval list \<Rightarrow> 's policy res" where
  "attempts_on n exceptions = res_bind (attempts (VInt n) default_policy) (on exceptions)"

definition fast :: "pyval list \<Rightarrow> 's policy res" where
  "fast exception_types =
     res_bind (attempts_on 3 (exceptions_or_default exception_types [VExcType Exception_t]))
       (fixed_delay (VFloat (fl_ratio 1 10)))"

definition network :: "pyval list \<Rightarrow> 's policy res" where
  "network exception_types =
     res_bind (attempts_on 5 (exceptions_or_default exception_types transport_errors))
       (random_exponential_delay (VFloat (fl_ratio 1 4)) (VFloat (sec 2)) (VFloat 0) (Some (VFloat (sec 10))) None)"

definition database :: "pyval list \<Rightarrow> 's policy res" where
  "database exception_types =
     res_bind (res_bind (attempts_on 4 (exceptions_or_default exception_types transport_errors))
       (exponential_delay (VFloat (fl_ratio 1 10)) (VFloat (sec 2)) (Some (VFloat (sec 2)))))
       (jitter (VFloat 0) (VFloat (fl_ratio 1 5)) None)"

definition patient :: "pyval list \<Rightarrow> 's policy res" where
  "patient exception_types =
     res_bind (res_bind (attempts_on 8 (exceptions_or_default exception_types transport_errors))
       (exponential_delay (VFloat (sec 1)) (VFloat (sec 2)) (Some (VFloat (sec 60)))))
       (jitter (VFloat 0) (VFloat (sec 1)) None)"

definition background_job :: "pyval list \<Rightarrow> 's policy res" where
  "background_job exception_types =
     res_bind (res_bind (attempts_on 10 (exceptions_or_default exception_types [VExcType Exception_t]))
       (exponential_delay (VFloat (fl_ratio 1 2)) (VFloat (sec 2)) (Some (VFloat (sec 30)))))
       (jitter (VFloat 0) (VFloat (sec 1)) None)"

section \<open>What the chains build\<close>

text \<open>The default policy with another stop strategy, delay and condition.\<close>

definition basic_policy :: "'s stop \<Rightarrow> 's delay \<Rightarrow> 's condition \<Rightarrow> 's policy" where
  "basic_policy s d c = default_policy\<lparr>pol_stop := s, pol_delay := d, pol_condition := c\<rparr>"

lemma basic_fields [simp]:
  "pol_stop (basic_policy s d c) = s" "pol_delay (basic_policy s d c) = d"
  "pol_condition (basic_policy s d c) = c"
  "(basic_policy s d c)\<lparr>pol_stop := s'\<rparr> = basic_policy s' d c"
  "(basic_policy s d c)\<lparr>pol_delay := d'\<rparr> = basic_policy s d' c"
  "(basic_policy s d c)\<lparr>pol_condition := c'\<rparr> = basic_policy s d c'"
  by (simp_all add: basic_policy_def)

lemma default_basic: "default_policy = basic_policy (StopAfterAttempt 3) (FixedDelay (PInt 0)) (ExceptionCondition [Exception_t])"
  by (simp add: basic_policy_def default_policy_def)

lemma post_init_basic [simp]: "post_init (basic_policy s d c) = Ok (basic_policy s d c)"
  by (simp add: basic_policy_def default_policy_def post_init_def explicit_behaviors_def check_sleepers_def)

lemma with_basic [simp]:
  "with_stop (basic_policy s d c) (Ok s') = Ok (basic_policy s' d c)"
  "with_delay (basic_policy s d c) (Ok d') = Ok (basic_policy s d' c)"
  "with_condition (basic_policy s d c) (Ok c') = Ok (basic_policy s d c')"
  by (simp_all add: with_stop_def with_delay_def with_condition_def)

text \<open>Arguments that are classes the executors can catch.\<close>

definition exception_classes :: "pyval list \<Rightarrow> bool" where
  "exception_classes vs \<longleftrightarrow> (\<forall>v\<in>set vs. \<exists>c. v = VExcType c \<and> issubclass c Exception_t)"

lemma check_on_types_classes: "exception_classes vs \<Longrightarrow> check_on_types vs = Ok ()"
  by (induction vs rule: check_on_types.induct) (auto simp: exception_classes_def)

lemma on_basic:
  assumes "exception_classes vs" "vs \<noteq> []"
  shows "on vs (basic_policy s d c) = Ok (basic_policy s d (ExceptionCondition (map exc_type_of vs)))"
proof -
  have "ensure_exception_types vs = Ok ()"
    using assms by (simp add: ensure_exception_types_def ensure_exception_type_list_iff exception_classes_def)
  with assms show ?thesis
    by (simp add: on_def check_on_types_classes mk_ExceptionCondition_def)
qed

lemma attempts_on_basic:
  assumes "0 < n" "exception_classes vs" "vs \<noteq> []"
  shows "attempts_on n vs = Ok (basic_policy (StopAfterAttempt n) (FixedDelay (PInt 0))
    (ExceptionCondition (map exc_type_of vs)))"
  using assms by (simp add: attempts_on_def attempts_def default_basic mk_StopAfterAttempt_def on_basic)

lemma classes_or_default:
  assumes "exception_classes vs"
  shows "exception_classes (exceptions_or_default vs [VExcType Exception_t])"
    "exception_classes (exceptions_or_default vs transport_errors)"
    "exceptions_or_default vs [VExcType Exception_t] \<noteq> []" "exceptions_or_default vs transport_errors \<noteq> []"
  using assms by (auto simp: exceptions_or_default_def transport_errors_def exception_classes_def exc_type_defs)

text \<open>The literals.\<close>

lemma literal_checks:
  assumes "safe_delay x"
  shows "ensure_safe_delay name (VFloat x) = Ok x" "ensure_non_negative name (VFloat x) = Ok ()"
  using assms safe_delay_finite [OF assms]
  by (auto simp: ensure_safe_delay_def ensure_non_negative_def safe_delay_def)

lemma literals:
  "safe_delay (fl_ratio 1 10)" "safe_delay (fl_ratio 1 4)" "safe_delay (fl_ratio 1 5)" "safe_delay (fl_ratio 1 2)"
  "safe_delay 0" "safe_delay (sec 1)" "safe_delay (sec 2)" "safe_delay (sec 10)" "safe_delay (sec 30)" "safe_delay (sec 60)"
proof -
  have "safe_delay (fl_ratio 1 d)" if "1 \<le> d" for d
    using fl_ratio_unit [of 1 d] that sec_MAX [of 1] by (auto simp: safe_delay_def)
  then show "safe_delay (fl_ratio 1 10)" "safe_delay (fl_ratio 1 4)" "safe_delay (fl_ratio 1 5)" "safe_delay (fl_ratio 1 2)"
    by simp_all
qed (auto simp: safe_delay_def sec_MAX not_less MAX_SLEEP_SECONDS_def)

lemma factor_check: "ensure_positive name (VFloat (sec 2)) = Ok ()"
  by (simp add: ensure_positive_def)

lemma preset_delays:
  "mk_FixedDelay (VFloat (fl_ratio 1 10)) = Ok (FixedDelay (PFlt (fl_ratio 1 10)))"
  "safe_delay b \<Longrightarrow> safe_delay m \<Longrightarrow> mk_ExponentialDelay (VFloat b) (VFloat (sec 2)) (Some (VFloat m))
    = Ok (ExponentialDelay (PFlt b) (PFlt (sec 2)) (Some (PFlt m)))"
  "safe_delay m \<Longrightarrow> mk_RandomDelay (VFloat 0) (VFloat m) None = Ok (RandomDelay (PFlt 0) (PFlt m) None)"
  "mk_RandomExponentialDelay (VFloat (fl_ratio 1 4)) (VFloat (sec 2)) (VFloat 0) (Some (VFloat (sec 10))) None
    = Ok (RandomExponentialDelay (PFlt (fl_ratio 1 4)) (PFlt (sec 2)) (PFlt 0) (Some (PFlt (sec 10))) None)"
  using literals
  by (simp_all add: mk_FixedDelay_def mk_ExponentialDelay_def mk_RandomDelay_def mk_RandomExponentialDelay_def
      ensure_safe_maximum_def literal_checks factor_check)
    (simp add: safe_delay_def)

lemmas preset_defs = fast_def network_def database_def patient_def background_job_def
  fixed_delay_def random_exponential_delay_def exponential_delay_def jitter_def

lemma preset_policies:
  assumes "exception_classes vs"
  defines "c defaults \<equiv> ExceptionCondition (map exc_type_of (exceptions_or_default vs defaults))"
  shows "fast vs = Ok (basic_policy (StopAfterAttempt 3) (FixedDelay (PFlt (fl_ratio 1 10))) (c [VExcType Exception_t]))"
    and "network vs = Ok (basic_policy (StopAfterAttempt 5)
      (RandomExponentialDelay (PFlt (fl_ratio 1 4)) (PFlt (sec 2)) (PFlt 0) (Some (PFlt (sec 10))) None)
      (c transport_errors))"
    and "database vs = Ok (basic_policy (StopAfterAttempt 4)
      (AdditiveDelay [ExponentialDelay (PFlt (fl_ratio 1 10)) (PFlt (sec 2)) (Some (PFlt (sec 2))),
        RandomDelay (PFlt 0) (PFlt (fl_ratio 1 5)) None]) (c transport_errors))"
    and "patient vs = Ok (basic_policy (StopAfterAttempt 8)
      (AdditiveDelay [ExponentialDelay (PFlt (sec 1)) (PFlt (sec 2)) (Some (PFlt (sec 60))),
        RandomDelay (PFlt 0) (PFlt (sec 1)) None]) (c transport_errors))"
    and "background_job vs = Ok (basic_policy (StopAfterAttempt 10)
      (AdditiveDelay [ExponentialDelay (PFlt (fl_ratio 1 2)) (PFlt (sec 2)) (Some (PFlt (sec 30))),
        RandomDelay (PFlt 0) (PFlt (sec 1)) None]) (c [VExcType Exception_t]))"
  using assms(1) literals
  by (simp_all add: preset_defs attempts_on_basic classes_or_default preset_delays c_def)

section \<open>Properties\<close>

text \<open>A preset is sound with \<open>n\<close> attempts: it builds, every delay resolves, and an execution returns.\<close>

definition preset_sound :: "'u world_scheme policy res \<Rightarrow> int \<Rightarrow> exc_type list \<Rightarrow> bool" where
  "preset_sound preset n types \<longleftrightarrow>
     (\<exists>p. preset = Ok p \<and> known_attempt_limit (pol_stop p) = Some n \<and> pol_condition p = ExceptionCondition types
       \<and> (\<forall>E k w. env_ok E \<longrightarrow> k < 2 ^ 50 \<longrightarrow>
           (\<exists>v w' x. next_delay E (pol_delay p) k w = (Ok v, w') \<and> ensure_resolved_delay v = Ok x
             \<and> 0 \<le> x \<and> x \<le> MAX_SLEEP_SECONDS))
       \<and> (\<forall>E name fn w. \<exists>r w'. execute_sync E p name fn w = Some (r, w')))"

lemma basic_preset_sound:
  assumes "delay_wf d"
  shows "preset_sound (Ok (basic_policy (StopAfterAttempt n) d (ExceptionCondition types))) n types"
proof -
  let ?p = "basic_policy (StopAfterAttempt n) d (ExceptionCondition types)"
  have "\<exists>r w'. execute_sync E ?p name fn w = Some (r, w')" for E name fn w
  proof -
    let ?f = "\<lparr>fw_runtime = runtime_init name (env_clock E (w_reads w)) (pol_history_limit ?p) (pol_name ?p),
         fw_attempt_started_at = env_clock E (w_reads w)\<rparr>"
    have "known_attempt_limit (pol_stop ?p) = Some n" by simp
    from sync.bounded [OF this, of E fn ?f "w\<lparr>w_reads := w_reads w + 1\<rparr>"]
    show ?thesis by (fastforce simp: execute_sync_def flow_init_eq drop_flow_def)
  qed
  then show ?thesis
    using next_delay_total [OF _ assms] by (auto simp: preset_sound_def)
qed

text \<open>
  C37: every preset works. For any exception classes the executors catch, and for none, each preset
  builds a policy that retries exactly those classes, or its defaults, at most the number of times it
  documents; its delays always resolve to between zero and the ceiling, and an execution under it
  returns, whatever the function does.
\<close>

theorem presets_are_sound:
  assumes "exception_classes types"
  defines "chosen defaults \<equiv> map exc_type_of (exceptions_or_default types defaults)"
  shows "preset_sound (fast types) 3 (chosen [VExcType Exception_t])
    \<and> preset_sound (network types) 5 (chosen transport_errors)
    \<and> preset_sound (database types) 4 (chosen transport_errors)
    \<and> preset_sound (patient types) 8 (chosen transport_errors)
    \<and> preset_sound (background_job types) 10 (chosen [VExcType Exception_t])"
proof -
  note l = literals [unfolded safe_delay_def]
  show ?thesis
    unfolding preset_policies [OF assms(1)] chosen_def
    by (intro conjI basic_preset_sound) (use l in \<open>simp_all add: safe_num_iff not_less\<close>)
qed

theorem presets_are_sound_witness:
  "preset_sound (network [] :: world policy res) 5 [TimeoutError_t, ConnectionError_t, OSError_t]"
proof -
  have "preset_sound (network [] :: world policy res) 5 (map exc_type_of (exceptions_or_default [] transport_errors))"
    by (rule presets_are_sound [THEN conjunct2, THEN conjunct1]) (simp add: exception_classes_def)
  then show ?thesis by (simp add: exceptions_or_default_def transport_errors_def)
qed

end
