(* ===== verification/WheelSmoke.thy ===== *)
theory WheelSmoke
  imports Main Blocks Decorator Presets BudgetFlow
begin

text \<open>
  \<open>scripts/validate_installed_wheel.py\<close>: the scenarios that the script runs through the public interface of
  an installed package, with their assertions. The local \<open>calls\<close> of the scenario that runs is part of the
  world. What the script asks of the file system and of the metadata of the distribution is left out.
\<close>

section \<open>Scenarios\<close>

record wheel_world = world +
  ww_calls :: nat

definition AssertionError_t :: exc_type where
  "AssertionError_t = ExcType ''builtins'' ''AssertionError'' [Exception_t]"

definition asserting :: "bool \<Rightarrow> unit res" where
  "asserting b = (if b then Ok () else Raise (new_exn AssertionError_t []))"

text \<open>A scenario that runs something, and then asserts something of its result and of the world.\<close>

definition then_assert :: "('a \<Rightarrow> 's \<Rightarrow> bool) \<Rightarrow> ('a res \<times> 's) option \<Rightarrow> (unit res \<times> 's) option" where
  "then_assert claim =
     map_option (\<lambda>(r, w). case r of Raise e \<Rightarrow> (Raise e, w) | Ok x \<Rightarrow> (asserting (claim x w), w))"

definition built :: "'a res \<Rightarrow> 's \<Rightarrow> ('a \<Rightarrow> ('b res \<times> 's) option) \<Rightarrow> ('b res \<times> 's) option" where
  "built r w f = (case r of Raise e \<Rightarrow> Some (Raise e, w) | Ok x \<Rightarrow> f x)"

text \<open>The local function of the scenarios: it raises until it has been called often enough.\<close>

definition operation :: "nat \<Rightarrow> pyval \<Rightarrow> ('v wheel_world_ext, pyval) io" where
  "operation enough value w =
     (let w1 = w\<lparr>ww_calls := ww_calls w + 1\<rparr>
      in if ww_calls w1 < enough then (Raise (new_exn TimeoutError_t ''temporary''), w1) else (Ok value, w1))"

text \<open>\<open>RetryPolicy[str]().attempts(n).on(TimeoutError).no_delay()\<close>\<close>

definition wheel_policy :: "int \<Rightarrow> 's policy res" where
  "wheel_policy n = res_bind (attempts_on n [VExcType TimeoutError_t]) no_delay"

definition validate_sync_run ::
    "'v wheel_world_ext pyenv \<Rightarrow> 'v wheel_world_scheme \<Rightarrow> (unit res \<times> 'v wheel_world_scheme) option" where
  "validate_sync_run E w =
     (let w0 = w\<lparr>ww_calls := 0\<rparr> in built (wheel_policy 3) w0 (\<lambda>p.
        then_assert (\<lambda>result w1. result = Plain (VStr ''ok'') \<and> ww_calls w1 = 3)
          (run E p ''operation'' (PyFun (Function PlainFunction) (operation 3 (VStr ''ok''))) w0)))"

definition validate_decorator ::
    "'v wheel_world_ext pyenv \<Rightarrow> 'v wheel_world_scheme \<Rightarrow> (unit res \<times> 'v wheel_world_scheme) option" where
  "validate_decorator E w =
     (let w0 = w\<lparr>ww_calls := 0\<rparr>
      in built (retry_policy_of (VInt 2) (VInt 0) [VExcType TimeoutError_t] False) w0 (\<lambda>p.
         built (make_decorated p (Function PlainFunction)) w0 (\<lambda>d.
           then_assert (\<lambda>result w1. result = Plain (VInt 42) \<and> ww_calls w1 = 2)
             (map_option (\<lambda>(x, d', w1). (x, w1))
               (sync_wrapper E ''operation'' (PyFun (Function PlainFunction) (operation 2 (VInt 42))) d w0)))))"

definition validate_async_run ::
    "'v wheel_world_ext pyenv \<Rightarrow> 'v wheel_world_scheme \<Rightarrow> (unit res \<times> 'v wheel_world_scheme) option" where
  "validate_async_run E w =
     (let w0 = w\<lparr>ww_calls := 0\<rparr> in built (wheel_policy 2) w0 (\<lambda>p.
        then_assert (\<lambda>result w1. result = Plain (VStr ''async-ok'') \<and> ww_calls w1 = 2)
          (run_async E p ''operation''
            (PyFun (Function CoroutineFunction) (\<lambda>w. (Ok (Awaitable (operation 2 (VStr ''async-ok''))), w))) w0)))"

text \<open>The assertions on the iterator of a block.\<close>

definition iterator_result :: "pyval \<Rightarrow> block_iterator option \<Rightarrow> bool" where
  "iterator_result value it =
     (case it of
        None \<Rightarrow> False
      | Some b \<Rightarrow> (case bi_result b of None \<Rightarrow> False | Some r \<Rightarrow> result_succeeded r \<and> rr_value r = value))"

definition block_claim ::
    "pyval \<Rightarrow> (unit res \<times> block_iterator option \<times> 'v wheel_world_scheme) option
      \<Rightarrow> (unit res \<times> 'v wheel_world_scheme) option" where
  "block_claim value finished =
     then_assert (\<lambda>it w1. ww_calls w1 = 2 \<and> iterator_result value it)
       (map_option (\<lambda>(r, it, w1). (case r of Raise e \<Rightarrow> Raise e | Ok _ \<Rightarrow> Ok it, w1)) finished)"

definition validate_sync_context_manager ::
    "'v wheel_world_ext pyenv \<Rightarrow> 'v wheel_world_scheme \<Rightarrow> (unit res \<times> 'v wheel_world_scheme) option" where
  "validate_sync_context_manager E w =
     (let w0 = w\<lparr>ww_calls := 0\<rparr> in built (wheel_policy 2) w0 (\<lambda>p.
        block_claim (VStr ''context-ok'')
          (sync_block E p ''wheel_sync_context'' (body_of (operation 2 (VStr ''context-ok''))) w0)))"

definition validate_async_context_manager ::
    "'v wheel_world_ext pyenv \<Rightarrow> 'v wheel_world_scheme \<Rightarrow> (unit res \<times> 'v wheel_world_scheme) option" where
  "validate_async_context_manager E w =
     (let w0 = w\<lparr>ww_calls := 0\<rparr> in built (wheel_policy 2) w0 (\<lambda>p.
        block_claim (VStr ''async-context-ok'')
          (async_block E p ''wheel_async_context'' (body_of (operation 2 (VStr ''async-context-ok''))) w0)))"

text \<open>The budget object of the scenario gets the address \<open>b\<close>.\<close>

definition validate_retry_budget ::
    "'v wheel_world_ext pyenv \<Rightarrow> nat \<Rightarrow> 'v wheel_world_scheme \<Rightarrow> (unit res \<times> 'v wheel_world_scheme) option" where
  "validate_retry_budget E b w =
     built (budget_init (VInt 2) (VInt 60)) (w\<lparr>ww_calls := 0\<rparr>) (\<lambda>budget.
       let w0 = w\<lparr>ww_calls := 0, w_budgets := (w_budgets w)(b := budget)\<rparr>
       in built (res_bind (wheel_policy 2) (with_retry_budget (Some b) (VStr ''wheel-smoke''))) w0 (\<lambda>p.
            then_assert (\<lambda>result w1. result = Plain (VStr ''budget-ok'') \<and> ww_calls w1 = 2)
              (run E p ''operation'' (PyFun (Function PlainFunction) (operation 2 (VStr ''budget-ok''))) w0)))"

fun in_turn :: "('s \<Rightarrow> (unit res \<times> 's) option) list \<Rightarrow> 's \<Rightarrow> (unit res \<times> 's) option" where
  "in_turn [] w = Some (Ok (), w)"
| "in_turn (scenario # rest) w =
     (case scenario w of
        None \<Rightarrow> None
      | Some (Raise e, w1) \<Rightarrow> Some (Raise e, w1)
      | Some (Ok _, w1) \<Rightarrow> in_turn rest w1)"

definition validate_async_scenarios where
  "validate_async_scenarios E = in_turn [validate_async_run E, validate_async_context_manager E]"

definition wheel_main ::
    "'v wheel_world_ext pyenv \<Rightarrow> nat \<Rightarrow> 'v wheel_world_scheme \<Rightarrow> (unit res \<times> 'v wheel_world_scheme) option" where
  "wheel_main E b =
     in_turn [validate_sync_run E, validate_decorator E, validate_sync_context_manager E,
       validate_retry_budget E b, validate_async_scenarios E]"

section \<open>The operation is a flaky function\<close>

lemma calls_of_user: "world.more w' = world.more w \<Longrightarrow> ww_calls w' = ww_calls w"
  by (cases w; cases w') simp

interpretation op: flaky_function "operation k v" "\<lambda>w. w\<lparr>ww_calls := ww_calls w + 1\<rparr>" ww_calls Suc
    "\<lambda>calls. Suc calls < k" v "new_exn TimeoutError_t ''temporary''" for k v
  by unfold_locales (auto simp: operation_def Let_def intro: calls_of_user)

text \<open>The loop on it, with the result tracked.\<close>

lemma tracked_operation:
  assumes P: "retries E n [TimeoutError_t] sleep J p" and k: "0 < k" "k \<le> n"
    and w: "ww_calls w = 0" "J 1 (w_budgets w)"
    and f_eq: "f = \<lparr>fw_runtime = runtime_init name c h pn, fw_attempt_started_at = c\<rparr>"
  obtains r g t where "while_true (tracked_turn E p sleep (operation k v)) (f, w) = Some (Ok (Tracked r), (g, t))"
    "ww_calls t = k" "rr_value r = v" "rr_error r = None" "\<not> rr_exhausted r"
proof -
  have f: "rn_attempt_number (fw_runtime f) = 0" "rn_failed (fw_runtime f) = 0" "rn_success (fw_runtime f) = 0"
    by (simp_all add: f_eq runtime_init_def)
  have q: "pol_handlers (tracking p) = []" "pol_return_result (tracking p)"
    using P by (simp_all add: retries_def tracking_def)
  have e: "list_ex (isinstance_exn (new_exn TimeoutError_t ''temporary'')) [TimeoutError_t]"
    "is_exception (new_exn TimeoutError_t ''temporary'')" "\<not> is_try_again (new_exn TimeoutError_t ''temporary'')"
    by (simp_all add: isinstance_exn_def new_exn_def exc_type_defs)
  have s: "Suc ((Suc ^^ i) (ww_calls w)) < k" if "i < k - 1" for i using that w by simp
  have "\<not> Suc ((Suc ^^ (k - 1)) (ww_calls w)) < k" "0 < n" "J (Suc 0) (w_budgets w)" using k w by simp_all
  from op.loop [OF P q e f this(2,3) s this(1), of v] that k w(1) show thesis by fastforce
qed

text \<open>What the front ends make of a tracked result of their loop.\<close>

lemma run_of_loop:
  assumes "while_true (tracked_turn E p (sleep_before_retry E p) fn)
      (\<lparr>fw_runtime = runtime_init name (env_clock E (w_reads w)) (pol_history_limit p) (pol_name p),
        fw_attempt_started_at = env_clock E (w_reads w)\<rparr>, w\<lparr>w_reads := w_reads w + 1\<rparr>)
      = Some (Ok (Tracked r), (g, t))"
    and r: "rr_value r = v" "rr_error r = None" "\<not> rr_exhausted r"
  shows "run E p name (PyFun (Function PlainFunction) fn) w
    = Some (Ok (if pol_return_result p then Tracked r else Plain v), t)"
proof -
  have "after_exception E (tracking p) = after_exception E p" by (rule ext) simp
  with assms(1) have "execute_sync E (tracking p) name fn w = Some (Ok (Tracked r), t)"
    by (simp add: execute_sync_def flow_init_eq sync_step_turn drop_flow_def tracking_fields)
  then have "execute_sync E p name fn w = Some (Ok (if pol_return_result p then Tracked r else Plain v), t)"
    unfolding execute_sync_tracking [of E p]
    using r by (simp add: resolve_end_def resolve_tracked_def resolve_tracked_result_def py_return_def)
  then show ?thesis by (simp add: run_def callable_defs)
qed

lemma block_of_loop:
  assumes "while_true (tracked_turn E p sleep fn)
      (\<lparr>fw_runtime = runtime_init name (env_clock E (w_reads w)) (pol_history_limit p) (pol_name p),
        fw_attempt_started_at = env_clock E (w_reads w)\<rparr>, w\<lparr>w_reads := w_reads w + 1\<rparr>)
      = Some (Ok (Tracked r), (g, t))"
    and r: "rr_value r = v" "rr_error r = None" "\<not> rr_exhausted r"
  shows "\<exists>b. run_block E p sleep name (body_of fn) w = Some (Ok (), Some b, t) \<and> iterator_result v (Some b)"
  using assms
  by (simp add: run_block_def block_init_def py_bind_def flow_init_eq py_return_def block_loop loop_end_def
      block_end_def iterator_result_def result_succeeded_def)

lemma run_operation:
  assumes P: "retries E n [TimeoutError_t] (sleep_before_retry E p) J p" and k: "0 < k" "k \<le> n"
    and w: "ww_calls w = 0" "J 1 (w_budgets w)" and "\<not> pol_return_result p"
  shows "\<exists>t. run E p name (PyFun (Function PlainFunction) (operation k v)) w = Some (Ok (Plain v), t) \<and> ww_calls t = k"
proof -
  let ?w = "w\<lparr>w_reads := w_reads w + 1\<rparr>" and ?c = "env_clock E (w_reads w)"
  obtain r g t where "while_true (tracked_turn E p (sleep_before_retry E p) (operation k v))
      (\<lparr>fw_runtime = runtime_init name ?c (pol_history_limit p) (pol_name p), fw_attempt_started_at = ?c\<rparr>, ?w)
      = Some (Ok (Tracked r), (g, t))" "ww_calls t = k" "rr_value r = v" "rr_error r = None" "\<not> rr_exhausted r"
    by (rule tracked_operation [OF P k _ _ refl, of ?w]) (use w in simp_all)
  with run_of_loop [of E p "operation k v" name w r g t v] assms(6) show ?thesis by auto
qed

lemma run_async_operation:
  assumes P: "retries E n [TimeoutError_t] (async_sleep_before_retry E p) J p" and k: "0 < k" "k \<le> n"
    and w: "ww_calls w = 0" "J 1 (w_budgets w)" and "\<not> pol_return_result p"
  shows "\<exists>t. run_async E p name (PyFun (Function CoroutineFunction) (\<lambda>w. (Ok (Awaitable (operation k v)), w))) w
    = Some (Ok (Plain v), t) \<and> ww_calls t = k"
proof -
  let ?w = "w\<lparr>w_reads := w_reads w + 1\<rparr>" and ?c = "env_clock E (w_reads w)"
  obtain r g t where "while_true (tracked_turn E p (async_sleep_before_retry E p) (operation k v))
      (\<lparr>fw_runtime = runtime_init name ?c (pol_history_limit p) (pol_name p), fw_attempt_started_at = ?c\<rparr>, ?w)
      = Some (Ok (Tracked r), (g, t))" "ww_calls t = k" "rr_value r = v" "rr_error r = None" "\<not> rr_exhausted r"
    by (rule tracked_operation [OF P k _ _ refl, of ?w]) (use w in simp_all)
  moreover have "after_exception E (tracking p) = after_exception E p" by (rule ext) simp
  ultimately have "execute_async E (tracking p) name (\<lambda>w. (Ok (Awaitable (operation k v)), w)) w
      = Some (Ok (Tracked r), t)"
    by (simp add: execute_async_def flow_init_eq async_turn_await drop_flow_def tracking_fields)
  then have "execute_async E p name (\<lambda>w. (Ok (Awaitable (operation k v)), w)) w = Some (Ok (Plain v), t)"
    unfolding execute_async_tracking [of E p]
    using assms(6) \<open>rr_value r = v\<close> \<open>rr_error r = None\<close> \<open>\<not> rr_exhausted r\<close>
    by (simp add: resolve_end_def resolve_tracked_def resolve_tracked_result_def py_return_def)
  with \<open>ww_calls t = k\<close> show ?thesis by (simp add: run_async_def callable_defs)
qed

lemma block_operation:
  assumes P: "retries E n [TimeoutError_t] sleep J p" and k: "0 < k" "k \<le> n"
    and w: "ww_calls w = 0" "J 1 (w_budgets w)"
  shows "\<exists>b t. run_block E p sleep name (body_of (operation k v)) w = Some (Ok (), Some b, t) \<and> ww_calls t = k
    \<and> iterator_result v (Some b)"
proof -
  let ?w = "w\<lparr>w_reads := w_reads w + 1\<rparr>" and ?c = "env_clock E (w_reads w)"
  obtain r g t where "while_true (tracked_turn E p sleep (operation k v))
      (\<lparr>fw_runtime = runtime_init name ?c (pol_history_limit p) (pol_name p), fw_attempt_started_at = ?c\<rparr>, ?w)
      = Some (Ok (Tracked r), (g, t))" "ww_calls t = k" "rr_value r = v" "rr_error r = None" "\<not> rr_exhausted r"
    by (rule tracked_operation [OF P k _ _ refl, of ?w]) (use w in simp_all)
  with block_of_loop [where fn = "operation k v" and w = w and name = name and t = t and v = v] show ?thesis by blast
qed

section \<open>The policies of the script\<close>

abbreviation wheel_basic :: "nat \<Rightarrow> 's policy" where
  "wheel_basic n \<equiv> basic_policy (StopAfterAttempt (int n)) (FixedDelay (PInt 0)) (ExceptionCondition [TimeoutError_t])"

definition budgeted :: "string \<Rightarrow> nat \<Rightarrow> 's policy" where
  "budgeted key b = (wheel_basic 2)\<lparr>pol_budget := Some b, pol_budget_key := Some key\<rparr>"

lemma wheel_fixed: "fixed_delay (VInt 0) (basic_policy s d c) = Ok (basic_policy s (FixedDelay (PInt 0)) c)"
  by (simp add: fixed_delay_def mk_FixedDelay_def ensure_safe_delay_def py_float_def MAX_SLEEP_SECONDS_def)

lemma wheel_policies:
  "wheel_policy 2 = Ok (wheel_basic 2)" "wheel_policy 3 = Ok (wheel_basic 3)"
  "retry_policy_of (VInt 2) (VInt 0) [VExcType TimeoutError_t] False = Ok (wheel_basic 2)"
  "\<not> blank key \<Longrightarrow> with_retry_budget (Some b) (VStr key) (wheel_basic 2) = Ok (budgeted key b)"
proof -
  have e: "exception_classes [VExcType TimeoutError_t]" by (simp add: exception_classes_def exc_type_defs)
  show "wheel_policy 2 = Ok (wheel_basic 2)" "wheel_policy 3 = Ok (wheel_basic 3)"
    by (simp_all add: wheel_policy_def no_delay_def wheel_fixed attempts_on_basic [OF _ e])
  show "retry_policy_of (VInt 2) (VInt 0) [VExcType TimeoutError_t] False = Ok (wheel_basic 2)"
    by (simp add: retry_policy_of_def attempts_def default_basic mk_StopAfterAttempt_def wheel_fixed on_basic [OF e])
  show "with_retry_budget (Some b) (VStr key) (wheel_basic 2) = Ok (budgeted key b)" if "\<not> blank key"
    using that by (simp add: with_retry_budget_def budgeted_def basic_policy_def default_policy_def post_init_def
        explicit_behaviors_def check_sleepers_def)
qed

lemma wheel_basic_plain: "env_ok E \<Longrightarrow> n \<le> 3 \<Longrightarrow> plain_policy E n [TimeoutError_t] (wheel_basic n)"
  by (simp add: plain_policy_def basic_policy_def default_policy_def safe_num_iff)

text \<open>With nothing reserved at its key, a budget grants the retry at once.\<close>

definition clock_finite :: "'u pyenv \<Rightarrow> bool" where
  "clock_finite E \<longleftrightarrow> (\<forall>i. flt_ok (env_clock E i) \<and> flt_finite (env_clock E i))"

lemma reserve_fresh_key:
  assumes "bg_reservations b key = None" "\<not> blank key"
  shows "\<exists>r b'. reserve b (VStr key) c c = (Ok r, b') \<and> rs_scheduled_at r = c"
proof -
  have "bg_reservations (maybe_cleanup b c) key = None"
    using assms(1) by (simp add: maybe_cleanup_def cleanup_expired_keys_def Let_def)
  then show ?thesis using assms(2) by (simp add: reserve_def Let_def prune_def scheduled_times_def slot_free)
qed

lemma budgeted_wait:
  assumes "clock_finite E" "bg_reservations (w_budgets w b) key = None" "\<not> blank key"
  shows "\<exists>plan w2. plan_retry_wait E (budgeted key b) n st w = (Ok (Some plan), w2) \<and> world.more w2 = world.more w"
proof -
  let ?c = "env_clock E (w_reads w)"
  have c: "flt_ok ?c" "flt_finite ?c" using assms(1) by (auto simp: clock_finite_def)
  have add: "fl_add ?c 0 = ?c" "fl_sub ?c ?c = 0" "fl_add 0 0 = 0"
    using c by (auto simp: fl_add_def fl_sub_def flt_finite_def rnd_id saturate_id)
  obtain r b' where r: "reserve (w_budgets w b) (VStr key) ?c ?c = (Ok r, b')" "rs_scheduled_at r = ?c"
    using reserve_fresh_key [OF assms(2,3), of ?c] by auto
  have p: "pol_budget (budgeted key b) = Some b" "pol_budget_key (budgeted key b) = Some key"
    "pol_delay (budgeted key b) = FixedDelay (PInt 0)"
    by (simp_all add: budgeted_def)
  have v: "ensure_resolved_delay (VInt 0) = Ok 0" "ensure_resolved_delay (VFloat 0) = Ok 0" "\<not> MAX_SLEEP_SECONDS < 0"
    using sec_finite [of 0] by (simp_all add: py_float_def MAX_SLEEP_SECONDS_def sec_0)
  have d: "resolve_delay E (FixedDelay (PInt 0)) (int n) st w = (Ok (VInt 0), w)"
    by (simp add: resolve_delay_def next_delay_def additive_parts_def py_return_def)
  show ?thesis
    by (simp add: plan_retry_wait_def p py_bind_def d v py_eval clock_now_eq add budget_reserve_def r on_error_def
        py_catch_def Let_def del: ensure_resolved_delay.simps)
qed

definition fresh_until_retry :: "string \<Rightarrow> nat \<Rightarrow> nat \<Rightarrow> (nat \<Rightarrow> retry_budget) \<Rightarrow> bool" where
  "fresh_until_retry key b j budgets \<longleftrightarrow> (j = 1 \<and> bg_reservations (budgets b) key = None) \<or> 2 \<le> j"

lemma budgeted_retries:
  assumes "clock_finite E" "\<And>plan. quiet (sleep plan)" "\<not> blank key"
  shows "retries E 2 [TimeoutError_t] sleep (fresh_until_retry key b) (budgeted key b)"
proof -
  have p: "pol_stop (budgeted key b) = StopAfterAttempt (int 2)" "pol_handlers (budgeted key b) = []"
    "pol_condition (budgeted key b) = ExceptionCondition [TimeoutError_t]"
    for b by (simp_all add: budgeted_def basic_policy_def default_policy_def)
  have "\<exists>plan w' w''. plan_retry E (budgeted key b) a (f, w) = (Ok (Wait plan), (f, w')) \<and> sleep plan w' = (Ok (), w'')
      \<and> world.more w'' = world.more w \<and> 2 \<le> Suc (rn_attempt_number (fw_runtime f))"
    if n: "rn_attempt_number (fw_runtime f) < 2" "fresh_until_retry key b (rn_attempt_number (fw_runtime f)) (w_budgets w)" for f w a
  proof -
    have fresh: "bg_reservations (w_budgets w b) key = None" "2 \<le> Suc (rn_attempt_number (fw_runtime f))"
      using n by (auto simp: fresh_until_retry_def)
    obtain plan w' where plan: "plan_retry E (budgeted key b) a (f, w) = (Ok (Wait plan), (f, w'))"
      "world.more w' = world.more w"
    proof (rule plan_retry_waits [OF p(1,2) n(1), where w = w and E = E and Q = "\<lambda>v. world.more v = world.more w"])
      show "\<exists>plan w2. plan_retry_wait E (budgeted key b) (rn_attempt_number (fw_runtime f)) st w1 = (Ok (Some plan), w2)
          \<and> world.more w2 = world.more w" if "same_but_time w w1" for st w1
        using that budgeted_wait [OF assms(1) _ assms(3), of w1 b] fresh(1) by (simp add: same_but_time_def)
    qed (use that in auto)
    moreover obtain w'' where "sleep plan w' = (Ok (), w'')" "same_but_time w' w''"
      using assms(2) [of plan] unfolding quiet_def by blast
    ultimately show ?thesis using fresh(2) by (auto simp: same_but_time_def)
  qed
  then show ?thesis by (auto simp: retries_def p fresh_until_retry_def)
qed

section \<open>The scenarios pass\<close>

definition passes :: "('s \<Rightarrow> (unit res \<times> 's) option) \<Rightarrow> bool" where
  "passes scenario \<longleftrightarrow> (\<forall>w. \<exists>w'. scenario w = Some (Ok (), w'))"

lemma in_turn_passes: "list_all passes scenarios \<Longrightarrow> passes (in_turn scenarios)"
proof (induction scenarios)
  case (Cons scenario rest)
  show ?case
    unfolding passes_def
  proof
    fix w
    obtain w1 where "scenario w = Some (Ok (), w1)" using Cons.prems by (auto simp: passes_def)
    moreover obtain w2 where "in_turn rest w1 = Some (Ok (), w2)" using Cons by (auto simp: passes_def)
    ultimately show "\<exists>w'. in_turn (scenario # rest) w = Some (Ok (), w')" by simp
  qed
qed (simp add: passes_def)

lemma wheel_fields:
  "pol_sleep (basic_policy s d c) = DefaultSleep" "pol_async_sleep (basic_policy s d c) = DefaultSleepAsync"
  "\<not> pol_return_result (basic_policy s d c)"
  "pol_sleep (budgeted key b) = DefaultSleep" "\<not> pol_return_result (budgeted key b)"
  by (simp_all add: basic_policy_def budgeted_def default_policy_def)

lemma wheel_retries:
  assumes "env_ok E" "n \<le> 3"
  shows "(\<And>s. quiet (env_sleep E s)) \<Longrightarrow>
      retries E n [TimeoutError_t] (sleep_before_retry E (wheel_basic n)) (\<lambda>_ _. True) (wheel_basic n)"
    and "(\<And>s. quiet (env_async_sleep E s)) \<Longrightarrow>
      retries E n [TimeoutError_t] (async_sleep_before_retry E (wheel_basic n)) (\<lambda>_ _. True) (wheel_basic n)"
  by (rule plain_policy_retries [OF wheel_basic_plain [OF assms]], rule quiet_sleep,
      simp add: wheel_fields invoke_sync_sleep_def invoke_async_sleep_def)+

lemma sync_run_passes:
  assumes "env_ok E" "\<And>s. quiet (env_sleep E s)"
  shows "passes (validate_sync_run E)"
  unfolding passes_def
proof
  fix w
  obtain t where "run E (wheel_basic 3) ''operation'' (PyFun (Function PlainFunction) (operation 3 (VStr ''ok'')))
      (w\<lparr>ww_calls := 0\<rparr>) = Some (Ok (Plain (VStr ''ok'')), t)" "ww_calls t = 3"
    using run_operation [OF wheel_retries(1) [OF assms(1) _ assms(2)], of 3 3 "w\<lparr>ww_calls := 0\<rparr>" "''operation''" "VStr ''ok''"]
    by (auto simp: wheel_fields)
  then show "\<exists>w'. validate_sync_run E w = Some (Ok (), w')"
    by (simp add: validate_sync_run_def built_def wheel_policies then_assert_def asserting_def)
qed

lemma decorator_passes:
  assumes "env_ok E" "\<And>s. quiet (env_sleep E s)"
  shows "passes (validate_decorator E)"
  unfolding passes_def
proof
  fix w :: "'a wheel_world_scheme"
  obtain d where d: "make_decorated (wheel_basic 2 :: 'a wheel_world_scheme policy) (Function PlainFunction) = Ok d"
    by (simp add: make_decorated_def callable_defs Let_def basic_policy_def default_policy_def return_result_def
        replace_exhaustion_def post_init_def explicit_behaviors_def check_sleepers_def)
  let ?f = "PyFun (Function PlainFunction) (operation 2 (VInt 42))" and ?w = "w\<lparr>ww_calls := 0\<rparr>"
  obtain t where "run E (wheel_basic 2) ''operation'' ?f ?w = Some (Ok (Plain (VInt 42)), t)" "ww_calls t = 2"
    using run_operation [OF wheel_retries(1) [OF assms(1) _ assms(2)], of 2 2 ?w "''operation''" "VInt 42"]
    by (auto simp: wheel_fields)
  with sync_wrapper_run [of d E "''operation''" ?f ?w] make_decorated_tracking [OF d]
  obtain d' where "sync_wrapper E ''operation'' ?f d ?w = Some (Ok (Plain (VInt 42)), d', t)" by auto
  with \<open>ww_calls t = 2\<close> show "\<exists>w'. validate_decorator E w = Some (Ok (), w')"
    by (simp add: validate_decorator_def built_def wheel_policies d [simplified] then_assert_def asserting_def Let_def)
qed

lemma async_run_passes:
  assumes "env_ok E" "\<And>s. quiet (env_async_sleep E s)"
  shows "passes (validate_async_run E)"
  unfolding passes_def
proof
  fix w
  obtain t where "run_async E (wheel_basic 2) ''operation''
      (PyFun (Function CoroutineFunction) (\<lambda>w. (Ok (Awaitable (operation 2 (VStr ''async-ok''))), w)))
      (w\<lparr>ww_calls := 0\<rparr>) = Some (Ok (Plain (VStr ''async-ok'')), t)" "ww_calls t = 2"
    using run_async_operation [OF wheel_retries(2) [OF assms(1) _ assms(2)], of 2 2 "w\<lparr>ww_calls := 0\<rparr>"
        "''operation''" "VStr ''async-ok''"]
    by (auto simp: wheel_fields)
  then show "\<exists>w'. validate_async_run E w = Some (Ok (), w')"
    by (simp add: validate_async_run_def built_def wheel_policies then_assert_def asserting_def)
qed

lemma context_managers_pass:
  assumes "env_ok E"
  shows "(\<And>s. quiet (env_sleep E s)) \<Longrightarrow> passes (validate_sync_context_manager E)"
    and "(\<And>s. quiet (env_async_sleep E s)) \<Longrightarrow> passes (validate_async_context_manager E)"
proof -
  have claim: "\<exists>w'. block_claim v (run_block E (wheel_basic 2) sleep name (body_of (operation 2 v)) (w\<lparr>ww_calls := 0\<rparr>))
      = Some (Ok (), w')" if "retries E 2 [TimeoutError_t] sleep (\<lambda>_ _. True) (wheel_basic 2)" for v sleep name w
    using block_operation [OF that, of 2 "w\<lparr>ww_calls := 0\<rparr>" name v]
    by (auto simp: block_claim_def then_assert_def asserting_def)
  show "passes (validate_sync_context_manager E)" if "\<And>s. quiet (env_sleep E s)"
    using claim [OF wheel_retries(1) [OF assms _ that]]
    by (simp add: passes_def validate_sync_context_manager_def built_def wheel_policies sync_block_def)
  show "passes (validate_async_context_manager E)" if "\<And>s. quiet (env_async_sleep E s)"
    using claim [OF wheel_retries(2) [OF assms _ that]]
    by (simp add: passes_def validate_async_context_manager_def built_def wheel_policies async_block_def)
qed

lemma retry_budget_passes:
  assumes "clock_finite E" "\<And>s. quiet (env_sleep E s)"
  shows "passes (validate_retry_budget E b)"
  unfolding passes_def
proof
  fix w :: "'a wheel_world_scheme"
  obtain budget where budget: "budget_init (VInt 2) (VInt 60) = Ok budget" "bg_reservations budget = Map.empty"
    by (simp add: budget_init_def ensure_positive_def py_float_def not_le sec_pos)
  let ?w = "w\<lparr>ww_calls := 0, w_budgets := (w_budgets w)(b := budget)\<rparr>"
  have key: "\<not> blank ''wheel-smoke''" by (simp add: blank_def is_space_def)
  have sleep: "quiet (sleep_before_retry E (budgeted ''wheel-smoke'' b) plan)" for plan
    by (rule quiet_sleep) (simp add: wheel_fields invoke_sync_sleep_def assms(2))
  obtain t where "run E (budgeted ''wheel-smoke'' b) ''operation'' (PyFun (Function PlainFunction) (operation 2 (VStr ''budget-ok'')))
      ?w = Some (Ok (Plain (VStr ''budget-ok'')), t)" "ww_calls t = 2"
    using run_operation [OF budgeted_retries [OF assms(1) sleep key], of 2 ?w "''operation''" "VStr ''budget-ok''"]
    by (auto simp: wheel_fields fresh_until_retry_def budget(2))
  then show "\<exists>w'. validate_retry_budget E b w = Some (Ok (), w')"
    by (simp add: validate_retry_budget_def built_def budget(1) wheel_policies [simplified] key then_assert_def asserting_def Let_def)
qed

lemma scenarios_pass:
  assumes "env_ok E" "clock_finite E" "\<And>seconds. quiet (env_sleep E seconds)"
    and "\<And>seconds. quiet (env_async_sleep E seconds)"
  shows "passes (wheel_main E b)"
proof -
  have "passes (validate_async_scenarios E)"
    unfolding validate_async_scenarios_def
    by (rule in_turn_passes) (simp add: async_run_passes context_managers_pass assms)
  then show ?thesis
    unfolding wheel_main_def
    by (intro in_turn_passes)
      (simp add: sync_run_passes decorator_passes context_managers_pass retry_budget_passes assms)
qed

section \<open>Properties\<close>

text \<open>
  C26: the scenarios of the wheel validation pass in every environment: whatever the clock shows and however
  the sleeps pass the time, and whatever budgets the process holds already, no scenario fails an assertion,
  raises or runs for ever. Every front end makes exactly the calls the script counts.
\<close>

theorem wheel_validation_passes:
  assumes "env_ok E" "clock_finite E" "\<And>seconds. quiet (env_sleep E seconds)"
    and "\<And>seconds. quiet (env_async_sleep E seconds)"
  shows "\<exists>w'. wheel_main E b w = Some (Ok (), w')"
  using scenarios_pass [OF assms] by (simp add: passes_def)

definition ex_wheel_world :: wheel_world where
  "ex_wheel_world = \<lparr>w_reads = 0, w_draws = 0, w_budgets = (\<lambda>i. ex_b0), ww_calls = 0\<rparr>"

theorem wheel_validation_passes_witness: "\<exists>w'. wheel_main still_env 0 ex_wheel_world = Some (Ok (), w')"
  by (rule wheel_validation_passes [OF still_env_ok(1)])
    (simp_all add: clock_finite_def still_env_def ex_env_def quiet_def py_return_def)

end
