(* ===== verification/Package.thy ===== *)
theory Package
  imports Main WheelSmoke
begin

text \<open>
  The names of the package (\<open>__init__.py\<close>), and the checks of \<open>scripts/validate_installed_wheel.py\<close> that come before
  its scenarios: where the package was imported from, which files it has, and what it exports. What the
  script reads of the file system and of the metadata is a parameter, the record \<open>installation\<close>.
\<close>

section \<open>The package\<close>

text \<open>The names that the imports of \<open>__init__.py\<close> bind, module by module, \<open>__all__\<close> and \<open>__version__\<close>\<close>

definition import_table :: "(string \<times> string list) list" where
  "import_table = [(''relinker.budget'', [''RetryBudget'', ''RetryBudgetSnapshot'']),
     (''relinker.context'', [''AsyncRetryAttemptContext'', ''RetryAttemptContext'']),
     (''relinker.diagnostics'', [''PolicyHealthReport'', ''PolicyWarning'', ''RetryLoadEstimate'', ''RetrySimulation'', ''RetrySimulationAttempt'']),
     (''relinker.exceptions'', [''InvalidRetryConfigError'', ''RelinkerError'', ''RetryExhaustedError'', ''TryAgain'']),
     (''relinker.http'', [''DEFAULT_RETRYABLE_STATUSES'', ''DEFAULT_RETRYABLE_TRANSPORT_EXCEPTIONS'', ''MAX_RETRY_AFTER_SECONDS'', ''http_retry_policy'', ''parse_retry_after'', ''retry_after_delay'', ''retry_if_status'', ''should_retry_http_status'']),
     (''relinker.policy'', [''RetryPolicy'']),
     (''relinker.presets'', [''background_job'', ''database'', ''fast'', ''network'', ''patient'']),
     (''relinker.result'', [''RetryResult'']),
     (''relinker.retry'', [''retry'']),
     (''relinker.state'', [''RetryState'']),
     (''relinker.stats'', [''RetryStats'', ''RetryStatsSnapshot'']),
     (''relinker.typing'', [''RetryWrappedFunction''])]"

definition package_all :: "string list" where
  "package_all = [
     ''AsyncRetryAttemptContext'', ''DEFAULT_RETRYABLE_STATUSES'',
     ''DEFAULT_RETRYABLE_TRANSPORT_EXCEPTIONS'', ''MAX_RETRY_AFTER_SECONDS'', ''InvalidRetryConfigError'',
     ''PolicyHealthReport'', ''PolicyWarning'', ''RetryAttemptContext'', ''RetryBudget'',
     ''RetryBudgetSnapshot'', ''RetryExhaustedError'', ''RetryLoadEstimate'', ''RelinkerError'',
     ''RetryPolicy'', ''RetryResult'', ''RetrySimulation'', ''RetrySimulationAttempt'', ''RetryState'',
     ''RetryStats'', ''RetryStatsSnapshot'', ''RetryWrappedFunction'', ''TryAgain'', ''background_job'',
     ''database'', ''fast'', ''http_retry_policy'', ''network'', ''parse_retry_after'', ''patient'',
     ''retry'', ''retry_after_delay'', ''retry_if_status'', ''should_retry_http_status'']"

definition package_version :: string where
  "package_version = ''1.3.2''"

section \<open>The checks\<close>

text \<open>
  Resolved paths are lists of their parts; \<open>in_files\<close> are those of \<open>package_root.rglob("*")\<close> relative to the root.
  \<open>in_getattr\<close> is \<open>getattr(relinker, name)\<close>, where \<open>None\<close> is an \<open>AttributeError\<close>.
\<close>

record installation =
  in_module_file :: "string list"
  in_source_package :: "string list"
  in_files :: "string list list"
  in_is_file :: "string list \<Rightarrow> bool"
  in_all :: "string list"
  in_getattr :: "string \<Rightarrow> pyval option"
  in_version :: pyval
  in_distribution_version :: string

text \<open>\<open>path.parents\<close>\<close>

definition parents :: "string list \<Rightarrow> string list list" where
  "parents path = map (\<lambda>n. take n path) (rev [0..<length path])"

definition assert_installed_distribution :: "installation \<Rightarrow> unit res" where
  "assert_installed_distribution I = asserting (in_source_package I \<notin> set (parents (in_module_file I)))"

definition hidden_files :: "installation \<Rightarrow> string list list" where
  "hidden_files I = filter (list_ex (\<lambda>part. take 1 part = ''.'')) (in_files I)"

definition validate_package_contents :: "installation \<Rightarrow> unit res" where
  "validate_package_contents I =
     res_bind (asserting (hidden_files I = [])) (\<lambda>_. asserting (in_is_file I [''py.typed'']))"

fun exported :: "installation \<Rightarrow> string list \<Rightarrow> unit res" where
  "exported I [] = Ok ()"
| "exported I (name # names) =
     (case in_getattr I name of
        None \<Rightarrow> Raise (new_exn AttributeError_t name)
      | Some value \<Rightarrow> res_bind (asserting (value \<noteq> VNone)) (\<lambda>_. exported I names))"

definition validate_public_api :: "installation \<Rightarrow> unit res" where
  "validate_public_api I =
     res_bind (exported I (in_all I)) (\<lambda>_.
     res_bind (asserting (case in_version I of VStr _ \<Rightarrow> True | _ \<Rightarrow> False)) (\<lambda>_.
     res_bind (asserting (in_version I \<noteq> VStr [])) (\<lambda>_.
     res_bind (asserting (in_version I = VStr ''1.3.2'')) (\<lambda>_.
     asserting (in_distribution_version I = ''1.3.2'')))))"

definition validate_wheel ::
    "installation \<Rightarrow> 'v wheel_world_ext pyenv \<Rightarrow> nat \<Rightarrow> 'v wheel_world_scheme
      \<Rightarrow> (unit res \<times> 'v wheel_world_scheme) option" where
  "validate_wheel I E b w =
     built (res_bind (assert_installed_distribution I) (\<lambda>_.
       res_bind (validate_package_contents I) (\<lambda>_. validate_public_api I))) w (\<lambda>_. wheel_main E b w)"

section \<open>What they ask\<close>

lemma asserting_iff: "asserting c = Ok () \<longleftrightarrow> c"
  by (simp add: asserting_def)

lemma exported_iff: "exported I names = Ok () \<longleftrightarrow> (\<forall>name\<in>set names. \<exists>v. in_getattr I name = Some v \<and> v \<noteq> VNone)"
  by (induction names) (auto simp: asserting_def res_bind_Ok_iff split: option.splits)

text \<open>The script refuses an import from the source tree: its package is above the module file.\<close>

lemma parents_iff: "p \<in> set (parents path) \<longleftrightarrow> (\<exists>rest. rest \<noteq> [] \<and> path = p @ rest)"
proof
  assume "p \<in> set (parents path)"
  then obtain n where "n < length path" "p = take n path" by (auto simp: parents_def)
  then show "\<exists>rest. rest \<noteq> [] \<and> path = p @ rest" by (intro exI [of _ "drop n path"]) simp
next
  assume "\<exists>rest. rest \<noteq> [] \<and> path = p @ rest"
  then show "p \<in> set (parents path)"
    by (auto simp: parents_def intro!: image_eqI [where x = "length p"])
qed

lemma installed_iff:
  "assert_installed_distribution I = Ok () \<longleftrightarrow> (\<nexists>rest. rest \<noteq> [] \<and> in_module_file I = in_source_package I @ rest)"
  by (simp add: assert_installed_distribution_def asserting_iff parents_iff)

lemma contents_iff:
  "validate_package_contents I = Ok () \<longleftrightarrow>
     (\<forall>path\<in>set (in_files I). \<forall>part\<in>set path. take 1 part \<noteq> ''.'') \<and> in_is_file I [''py.typed'']"
  by (auto simp: validate_package_contents_def hidden_files_def asserting_def filter_empty_conv list_ex_iff)

text \<open>Every name of \<open>__all__\<close> is bound by an import, once.\<close>

lemma package_all_bound: "set package_all \<subseteq> set (concat (map snd import_table))"
  by (simp add: package_all_def import_table_def)

lemma package_all_distinct: "distinct package_all"
  by (simp add: package_all_def)

text \<open>An installation of this package: what the imports bind is there, and the metadata has its version.\<close>

definition installs_package :: "installation \<Rightarrow> bool" where
  "installs_package I \<longleftrightarrow> in_all I = package_all \<and> in_version I = VStr package_version
     \<and> in_distribution_version I = package_version
     \<and> (\<forall>name\<in>set (concat (map snd import_table)). \<exists>v. in_getattr I name = Some v \<and> v \<noteq> VNone)"

lemma public_api_ok: "installs_package I \<Longrightarrow> validate_public_api I = Ok ()"
  using package_all_bound exported_iff [of I package_all]
  by (auto simp: installs_package_def validate_public_api_def package_version_def asserting_def)

text \<open>
  The whole validation passes exactly for installations outside the source tree, without hidden files, with the
  marker, when the package is this one.
\<close>

lemma validate_wheel_iff:
  assumes "env_ok E" "clock_finite E" "\<And>seconds. quiet (env_sleep E seconds)"
    and "\<And>seconds. quiet (env_async_sleep E seconds)" and "installs_package I"
  shows "(\<exists>w1. validate_wheel I E b w = Some (Ok (), w1)) \<longleftrightarrow>
    (\<nexists>rest. rest \<noteq> [] \<and> in_module_file I = in_source_package I @ rest)
    \<and> (\<forall>path\<in>set (in_files I). \<forall>part\<in>set path. take 1 part \<noteq> ''.'') \<and> in_is_file I [''py.typed'']"
proof -
  obtain w1 where "wheel_main E b w = Some (Ok (), w1)" using scenarios_pass [OF assms(1-4)] by (auto simp: passes_def)
  then show ?thesis
    unfolding installed_iff [symmetric] contents_iff [symmetric]
    by (auto simp: validate_wheel_def built_def public_api_ok [OF assms(5)] res_bind_Ok_iff split: res.splits)
qed

end
