(* ===== verification/PerfSmoke.thy ===== *)
theory PerfSmoke
  imports Main WheelSmoke
begin

text \<open>
  \<open>benchmarks/smoke.py\<close>: the five callbacks that the script times, and the loop that repeats them. The local
  \<open>calls\<close> of a callback is the counter of \<open>WheelSmoke\<close>, as is the function that fails once. Time measurement,
  printing and the parsing of arguments are left out.
\<close>

section \<open>The callbacks\<close>

text \<open>\<open>RetryPolicy[str]().attempts(1).no_delay()\<close>, and a function that returns at once\<close>

definition once_policy :: "'s policy res" where
  "once_policy = res_bind (attempts (VInt 1) default_policy) no_delay"

definition at_once :: "('s, pyval) py" where
  "at_once = py_return (VStr ''ok'')"

definition immediate_success ::
    "'v wheel_world_ext pyenv \<Rightarrow> 'v wheel_world_scheme \<Rightarrow> (outcome res \<times> 'v wheel_world_scheme) option" where
  "immediate_success E w =
     built once_policy w (\<lambda>p. run E p ''operation'' (PyFun (Function PlainFunction) at_once) w)"

definition one_failure_then_success ::
    "'v wheel_world_ext pyenv \<Rightarrow> 'v wheel_world_scheme \<Rightarrow> (outcome res \<times> 'v wheel_world_scheme) option" where
  "one_failure_then_success E w =
     (let w0 = w\<lparr>ww_calls := 0\<rparr> in built (wheel_policy 2) w0 (\<lambda>p.
        run E p ''operation'' (PyFun (Function PlainFunction) (operation 2 (VStr ''ok''))) w0))"

text \<open>\<open>bool(result.succeeded)\<close>\<close>

fun succeeded_attribute :: "outcome \<Rightarrow> bool res" where
  "succeeded_attribute (Tracked r) = Ok (result_succeeded r)"
| "succeeded_attribute (Plain v) = Raise (new_exn AttributeError_t (type_name v))"

definition smoke_return_result ::
    "'v wheel_world_ext pyenv \<Rightarrow> 'v wheel_world_scheme \<Rightarrow> (bool res \<times> 'v wheel_world_scheme) option" where
  "smoke_return_result E w =
     built (res_bind once_policy return_result) w (\<lambda>p.
       map_option (\<lambda>(r, w1). (res_bind r succeeded_attribute, w1))
         (run E p ''operation'' (PyFun (Function PlainFunction) at_once) w))"

definition smoke_context_manager ::
    "'v wheel_world_ext pyenv \<Rightarrow> 'v wheel_world_scheme \<Rightarrow> (string res \<times> 'v wheel_world_scheme) option" where
  "smoke_context_manager E w =
     built once_policy w (\<lambda>p.
       map_option (\<lambda>(r, iterator, w1). (res_bind r (\<lambda>_. Ok ''ok''), w1))
         (sync_block E p ''benchmark_context'' (body_of at_once) w))"

text \<open>The budget object of the callback gets the address \<open>b\<close>.\<close>

definition smoke_retry_budget ::
    "'v wheel_world_ext pyenv \<Rightarrow> nat \<Rightarrow> 'v wheel_world_scheme \<Rightarrow> (outcome res \<times> 'v wheel_world_scheme) option" where
  "smoke_retry_budget E b w =
     built (budget_init (VInt 1) (VInt 60)) w (\<lambda>budget.
       let w0 = w\<lparr>ww_calls := 0, w_budgets := (w_budgets w)(b := budget)\<rparr>
       in built (res_bind (wheel_policy 2) (with_retry_budget (Some b) (VStr ''benchmark''))) w0 (\<lambda>p.
            run E p ''operation'' (PyFun (Function PlainFunction) (operation 2 (VStr ''ok''))) w0))"

text \<open>The loop of \<open>_measure\<close>, which drops the values, and \<open>main\<close> after its arguments are parsed\<close>

definition valueless :: "('s \<Rightarrow> ('a res \<times> 's) option) \<Rightarrow> 's \<Rightarrow> (unit res \<times> 's) option" where
  "valueless callback w = map_option (\<lambda>(r, w1). (res_bind r (\<lambda>_. Ok ()), w1)) (callback w)"

definition measure_loop :: "int \<Rightarrow> ('s \<Rightarrow> ('a res \<times> 's) option) \<Rightarrow> 's \<Rightarrow> (unit res \<times> 's) option" where
  "measure_loop iterations callback = in_turn (replicate (nat iterations) (valueless callback))"

definition SystemExit_t :: exc_type where
  "SystemExit_t = ExcType ''builtins'' ''SystemExit'' [BaseException_t]"

definition smoke_main ::
    "'v wheel_world_ext pyenv \<Rightarrow> nat \<Rightarrow> int \<Rightarrow> 'v wheel_world_scheme \<Rightarrow> (unit res \<times> 'v wheel_world_scheme) option" where
  "smoke_main E b iterations w =
     (if iterations \<le> 0 then Some (Raise (new_exn SystemExit_t ''--iterations must be positive''), w)
      else in_turn [measure_loop iterations (immediate_success E),
        measure_loop iterations (one_failure_then_success E),
        measure_loop iterations (smoke_return_result E),
        measure_loop iterations (smoke_context_manager E),
        measure_loop iterations (smoke_retry_budget E b)] w)"

section \<open>A function that returns at once\<close>

interpretation calm: flaky_function at_once "\<lambda>w. w" ww_calls "\<lambda>calls. calls" "\<lambda>calls. False" "VStr ''ok''"
    "new_exn TimeoutError_t ''temporary''"
  by unfold_locales (auto simp: at_once_def py_return_def intro: calls_of_user)

definition once_plain :: "'s policy" where
  "once_plain = basic_policy (StopAfterAttempt (int 1)) (FixedDelay (PInt 0)) (ExceptionCondition [Exception_t])"

definition once_tracked :: "'s policy" where
  "once_tracked = tracking once_plain"

lemma once_policies: "once_policy = Ok once_plain" "return_result once_plain = Ok once_tracked"
proof -
  show "once_policy = Ok once_plain"
    by (simp add: once_policy_def attempts_def default_basic mk_StopAfterAttempt_def no_delay_def wheel_fixed once_plain_def)
  show "return_result once_plain = Ok once_tracked"
    by (simp add: return_result_def replace_exhaustion_def post_init_def explicit_behaviors_def check_sleepers_def
        once_tracked_def tracking_def once_plain_def basic_policy_def default_policy_def)
qed

text \<open>A policy with one attempt, on that function.\<close>

definition single :: "'u pyenv \<Rightarrow> 'u world_scheme policy \<Rightarrow> bool" where
  "single E p \<longleftrightarrow> plain_policy E 1 [Exception_t] p \<and> pol_sleep p = DefaultSleep"

lemma once_single: "env_ok E \<Longrightarrow> single E once_plain" "env_ok E \<Longrightarrow> single E once_tracked"
  by (simp_all add: single_def plain_policy_def once_plain_def once_tracked_def tracking_def basic_policy_def default_policy_def safe_num_iff)

lemma once_loop:
  fixes E :: "'v wheel_world_ext pyenv"
  assumes "single E p" "\<And>s. quiet (env_sleep E s)"
  obtains r g t where "while_true (tracked_turn E p (sleep_before_retry E p) at_once)
      (\<lparr>fw_runtime = runtime_init name c h pn, fw_attempt_started_at = c\<rparr>, w) = Some (Ok (Tracked r), (g, t))"
    "rr_value r = VStr ''ok''" "rr_error r = None" "\<not> rr_exhausted r"
proof -
  let ?f = "\<lparr>fw_runtime = runtime_init name c h pn, fw_attempt_started_at = c\<rparr>"
  have sleep: "quiet (sleep_before_retry E p plan)" for plan
    by (rule quiet_sleep) (use assms in \<open>simp add: single_def invoke_sync_sleep_def\<close>)
  have "plain_policy E 1 [Exception_t] p" using assms(1) by (simp add: single_def)
  then have P: "retries E 1 [Exception_t] (sleep_before_retry E p) (\<lambda>_ _. True) p"
    by (rule plain_policy_retries) (rule sleep)
  have q: "pol_handlers (tracking p) = []" "pol_return_result (tracking p)"
    using P by (simp_all add: retries_def tracking_def)
  have e: "list_ex (isinstance_exn (new_exn TimeoutError_t ''temporary'')) [Exception_t]"
    "is_exception (new_exn TimeoutError_t ''temporary'')" "\<not> is_try_again (new_exn TimeoutError_t ''temporary'')"
    by (simp_all add: isinstance_exn_def new_exn_def exc_type_defs)
  have f: "rn_attempt_number (fw_runtime ?f) = 0" "rn_failed (fw_runtime ?f) = 0" "rn_success (fw_runtime ?f) = 0"
    by (simp_all add: runtime_init_def)
  from calm.loop [OF P q e f, of 0 w] that show thesis by fastforce
qed

lemma once_run:
  fixes E :: "'v wheel_world_ext pyenv"
  assumes "single E p" "\<And>s. quiet (env_sleep E s)"
  shows "\<exists>r t. run E p name (PyFun (Function PlainFunction) at_once) w
      = Some (Ok (if pol_return_result p then Tracked r else Plain (VStr ''ok'')), t)
    \<and> rr_error r = None \<and> \<not> rr_exhausted r"
proof -
  obtain r g t where "while_true (tracked_turn E p (sleep_before_retry E p) at_once)
      (\<lparr>fw_runtime = runtime_init name (env_clock E (w_reads w)) (pol_history_limit p) (pol_name p),
        fw_attempt_started_at = env_clock E (w_reads w)\<rparr>, w\<lparr>w_reads := w_reads w + 1\<rparr>)
      = Some (Ok (Tracked r), (g, t))" "rr_value r = VStr ''ok''" "rr_error r = None" "\<not> rr_exhausted r"
    by (rule once_loop [OF assms])
  from run_of_loop [OF this] this show ?thesis by blast
qed

lemma once_block:
  fixes E :: "'v wheel_world_ext pyenv"
  assumes "single E p" "\<And>s. quiet (env_sleep E s)"
  shows "\<exists>b t. run_block E p (sleep_before_retry E p) name (body_of at_once) w = Some (Ok (), Some b, t)"
proof -
  obtain r g t where "while_true (tracked_turn E p (sleep_before_retry E p) at_once)
      (\<lparr>fw_runtime = runtime_init name (env_clock E (w_reads w)) (pol_history_limit p) (pol_name p),
        fw_attempt_started_at = env_clock E (w_reads w)\<rparr>, w\<lparr>w_reads := w_reads w + 1\<rparr>)
      = Some (Ok (Tracked r), (g, t))" "rr_value r = VStr ''ok''" "rr_error r = None" "\<not> rr_exhausted r"
    by (rule once_loop [OF assms])
  from block_of_loop [OF this] show ?thesis by blast
qed

section \<open>The script\<close>

lemma valueless_passes:
  assumes "\<And>w. \<exists>x w1. callback w = Some (Ok x, w1)"
  shows "passes (valueless callback)"
  unfolding passes_def
proof
  fix w
  obtain x w1 where "callback w = Some (Ok x, w1)" using assms by blast
  then show "\<exists>w1. valueless callback w = Some (Ok (), w1)" by (simp add: valueless_def)
qed

lemma measure_loop_passes: "(\<And>w. \<exists>x w1. callback w = Some (Ok x, w1)) \<Longrightarrow> passes (measure_loop iterations callback)"
  unfolding measure_loop_def by (rule in_turn_passes) (simp add: list_all_iff valueless_passes)

lemma once_fields: "\<not> pol_return_result once_plain" "pol_return_result once_tracked"
  by (simp_all add: once_tracked_def tracking_def once_plain_def basic_policy_def default_policy_def)

text \<open>Each callback returns what it says.\<close>

lemma immediate_success_ok:
  assumes "env_ok E" "\<And>s. quiet (env_sleep E s)"
  shows "\<exists>w1. immediate_success E w = Some (Ok (Plain (VStr ''ok'')), w1)"
  using once_run [OF once_single(1) [OF assms(1)] assms(2), of "''operation''" w]
  by (auto simp: immediate_success_def built_def once_policies once_fields)

lemma smoke_return_result_ok:
  assumes "env_ok E" "\<And>s. quiet (env_sleep E s)"
  shows "\<exists>w1. smoke_return_result E w = Some (Ok True, w1)"
  using once_run [OF once_single(2) [OF assms(1)] assms(2), of "''operation''" w]
  by (auto simp: smoke_return_result_def built_def once_policies once_fields result_succeeded_def)

lemma one_failure_then_success_ok:
  assumes "env_ok E" "\<And>s. quiet (env_sleep E s)"
  shows "\<exists>w1. one_failure_then_success E w = Some (Ok (Plain (VStr ''ok'')), w1) \<and> ww_calls w1 = 2"
  using run_operation [OF wheel_retries(1) [OF assms(1) _ assms(2)], of 2 2 "w\<lparr>ww_calls := 0\<rparr>" "''operation''" "VStr ''ok''"]
  by (auto simp: one_failure_then_success_def built_def wheel_policies wheel_fields)

lemma smoke_context_manager_ok:
  assumes "env_ok E" "\<And>s. quiet (env_sleep E s)"
  shows "\<exists>w1. smoke_context_manager E w = Some (Ok ''ok'', w1)"
  using once_block [OF once_single(1) [OF assms(1)] assms(2), of "''benchmark_context''" w]
  by (auto simp: smoke_context_manager_def built_def once_policies sync_block_def)

lemma smoke_retry_budget_ok:
  assumes "clock_finite E" "\<And>s. quiet (env_sleep E s)"
  shows "\<exists>w1. smoke_retry_budget E b w = Some (Ok (Plain (VStr ''ok'')), w1) \<and> ww_calls w1 = 2"
proof -
  obtain budget where budget: "budget_init (VInt 1) (VInt 60) = Ok budget" "bg_reservations budget = Map.empty"
    by (simp add: budget_init_def ensure_positive_def py_float_def not_le sec_pos)
  let ?w = "w\<lparr>ww_calls := 0, w_budgets := (w_budgets w)(b := budget)\<rparr>" and ?p = "budgeted ''benchmark'' b"
  have key: "\<not> blank ''benchmark''" by (simp add: blank_def is_space_def)
  have sleep: "quiet (sleep_before_retry E ?p plan)" for plan
    by (rule quiet_sleep) (simp add: wheel_fields invoke_sync_sleep_def assms(2))
  obtain t where "run E ?p ''operation'' (PyFun (Function PlainFunction) (operation 2 (VStr ''ok''))) ?w
      = Some (Ok (Plain (VStr ''ok'')), t)" "ww_calls t = 2"
    using run_operation [OF budgeted_retries [OF assms(1) sleep key], of 2 ?w "''operation''" "VStr ''ok''"]
    by (auto simp: wheel_fields fresh_until_retry_def budget(2))
  then show ?thesis
    by (simp add: smoke_retry_budget_def built_def budget(1) wheel_policies [simplified] key Let_def)
qed

text \<open>
  The timed callbacks measure what they are named after: however often the script repeats them, every
  repetition returns, none raises, and the script ends.
\<close>

lemma smoke_main_returns:
  assumes "env_ok E" "clock_finite E" "\<And>seconds. quiet (env_sleep E seconds)" "0 < iterations"
  shows "\<exists>w1. smoke_main E b iterations w = Some (Ok (), w1)"
proof -
  let ?loop = "measure_loop iterations"
  note ok = immediate_success_ok [OF assms(1,3)] one_failure_then_success_ok [OF assms(1,3)]
    smoke_return_result_ok [OF assms(1,3)] smoke_context_manager_ok [OF assms(1,3)] smoke_retry_budget_ok [OF assms(2,3)]
  have "passes (?loop (immediate_success E))" "passes (?loop (one_failure_then_success E))"
    "passes (?loop (smoke_return_result E))" "passes (?loop (smoke_context_manager E))"
    "passes (?loop (smoke_retry_budget E b))"
    by (rule measure_loop_passes, use ok in blast)+
  then have "passes (in_turn [?loop (immediate_success E), ?loop (one_failure_then_success E),
      ?loop (smoke_return_result E), ?loop (smoke_context_manager E), ?loop (smoke_retry_budget E b)])"
    by (intro in_turn_passes) simp
  then show ?thesis using assms(4) by (simp add: smoke_main_def passes_def)
qed

end
