(* ===== verification/Benchmarks.thy ===== *)
theory Benchmarks
  imports Main "HOL-Library.Multiset" WheelSmoke
begin

text \<open>
  \<open>benchmarks/retry_budget.py\<close>: the operations that the script measures, on one \<open>RetryBudget\<close> at the address
  \<open>b\<close> of the heap. Time and memory measurements, printing and the
  arguments are left out; \<open>random.Random(12_020).shuffle\<close> is
  a parameter that permutes a list, and which worker gets the lock next is a schedule.
\<close>

section \<open>The requests of a scenario\<close>

text \<open>\<open>float(n)\<close> for each number of a list, the first error first.\<close>

fun floats :: "int list \<Rightarrow> flt list res" where
  "floats [] = Ok []"
| "floats (n # ns) = res_bind (py_float n) (\<lambda>x. res_bind (floats ns) (\<lambda>xs. Ok (x # xs)))"

definition not_befores :: "nat \<Rightarrow> int \<Rightarrow> string \<Rightarrow> flt list res" where
  "not_befores number capacity scenario =
     (let indices = map int [0..<number]
      in if scenario = ''ordered'' then floats indices
         else if scenario = ''future'' then floats (map (\<lambda>index. int number + index) indices)
         else if scenario = ''decimal''
         then res_bind (floats (map (\<lambda>index. (index * 7) mod max 1 (capacity * 3)) indices))
                (\<lambda>xs. Ok (map (\<lambda>x. fl_mul x (fl_ratio 1 10)) xs))
         else if scenario = ''multi_key'' then floats (map (\<lambda>index. index mod max 1 capacity) indices)
         else Raise (new_exn ValueError_t ''unknown scenario''))"

text \<open>\<open>f"api-{index % 10}" if scenario == "multi_key" else "api"\<close>\<close>

definition bench_key :: "string \<Rightarrow> nat \<Rightarrow> string" where
  "bench_key scenario index = (if scenario = ''multi_key'' then ''api-'' @ nat_str (index mod 10) else ''api'')"

text \<open>\<open>RetryBudget(max_retries=capacity, per=10.0 if scenario != "decimal" else 0.3)\<close>\<close>

definition new_budget :: "nat \<Rightarrow> string \<Rightarrow> int \<Rightarrow> ('u, unit) io" where
  "new_budget b scenario capacity w =
     (case budget_init (VInt capacity) (VFloat (if scenario \<noteq> ''decimal'' then sec 10 else fl_ratio 3 10)) of
        Raise e \<Rightarrow> (Raise e, w)
      | Ok budget \<Rightarrow> (Ok (), w\<lparr>w_budgets := (w_budgets w)(b := budget)\<rparr>))"

section \<open>The operations\<close>

definition bench_reserve :: "nat \<Rightarrow> string \<Rightarrow> nat \<times> flt \<Rightarrow> ('u, reservation) io" where
  "bench_reserve b scenario = (\<lambda>(index, not_before). budget_reserve b (bench_key scenario index) 0 not_before)"

definition reserve_many :: "nat \<Rightarrow> string \<Rightarrow> nat \<Rightarrow> int \<Rightarrow> ('u, reservation list) io" where
  "reserve_many b scenario number capacity =
     py_bind (new_budget b scenario capacity) (\<lambda>_.
     py_bind (py_lift (not_befores number capacity scenario)) (\<lambda>nbs.
     py_map (bench_reserve b scenario) (enumerate 0 nbs)))"

text \<open>\<open>xs[k::3]\<close>\<close>

fun every_third :: "'a list \<Rightarrow> 'a list" where
  "every_third [] = []"
| "every_third (x # xs) = x # every_third (drop 2 xs)"

definition release_order ::
    "(reservation list \<Rightarrow> reservation list) \<Rightarrow> reservation list \<Rightarrow> string \<Rightarrow> reservation list res" where
  "release_order shuffle rs op_name =
     (if op_name = ''release_forward'' then Ok rs
      else if op_name = ''release_reverse'' then Ok (rev rs)
      else if op_name = ''release_first_repeated_pattern''
      then Ok (every_third rs @ every_third (drop 1 rs) @ every_third (drop 2 rs))
      else if op_name = ''release_middle_first''
      then (let middle = length rs div 2 in Ok (drop middle rs @ take middle rs))
      else if op_name = ''release_last_first''
      then Ok (drop (length rs - 1) rs @ take (length rs - 1) rs)
      else if op_name = ''release_shuffled'' then Ok (shuffle rs)
      else Raise (new_exn ValueError_t ''unknown release operation''))"

definition release_many ::
    "'u pyenv \<Rightarrow> (reservation list \<Rightarrow> reservation list) \<Rightarrow> nat \<Rightarrow> string \<Rightarrow> nat \<Rightarrow> int \<Rightarrow> string \<Rightarrow> ('u, unit) io" where
  "release_many E shuffle b scenario number capacity op_name =
     py_bind (reserve_many b scenario number capacity) (\<lambda>rs.
     py_bind (py_lift (release_order shuffle rs op_name)) (\<lambda>order.
     py_bind (py_map (budget_release E b) order) (\<lambda>_. py_return ())))"

text \<open>\<open>budget.snapshot(key)\<close>, and one for each key of a list; a snapshot may not return.\<close>

definition budget_snapshot_at :: "'u pyenv \<Rightarrow> nat \<Rightarrow> string \<Rightarrow> 'u world_scheme \<Rightarrow> (budget_snapshot res \<times> 'u world_scheme) option" where
  "budget_snapshot_at E b key w =
     map_option (\<lambda>(sn, budget). (sn, w\<lparr>w_reads := w_reads w + 1, w_budgets := (w_budgets w)(b := budget)\<rparr>))
       (snapshot (w_budgets w b) (VStr key) (env_clock E (w_reads w)))"

fun snapshots :: "'u pyenv \<Rightarrow> nat \<Rightarrow> string list \<Rightarrow> 'u world_scheme \<Rightarrow> (unit res \<times> 'u world_scheme) option" where
  "snapshots E b [] w = Some (Ok (), w)"
| "snapshots E b (key # rest) w =
     (case budget_snapshot_at E b key w of
        None \<Rightarrow> None
      | Some (Raise e, w1) \<Rightarrow> Some (Raise e, w1)
      | Some (Ok _, w1) \<Rightarrow> snapshots E b rest w1)"

definition snapshot_many :: "'u pyenv \<Rightarrow> nat \<Rightarrow> string \<Rightarrow> nat \<Rightarrow> int \<Rightarrow> 'u world_scheme \<Rightarrow> (unit res \<times> 'u world_scheme) option" where
  "snapshot_many E b scenario number capacity w =
     (let prefill = py_bind (new_budget b scenario capacity) (\<lambda>_.
            py_bind (clock_now E) (\<lambda>base_time.
            py_bind (py_lift (not_befores (min number 1000) capacity scenario)) (\<lambda>nbs.
            py_map (\<lambda>(index, not_before).
              budget_reserve b (bench_key scenario index) base_time (fl_add base_time not_before)) (enumerate 0 nbs))))
      in case prefill w of
           (Raise e, w1) \<Rightarrow> Some (Raise e, w1)
         | (Ok _, w1) \<Rightarrow> snapshots E b (map (bench_key scenario) [0..<number]) w1)"

text \<open>
  \<open>range(worker_index, number, workers)\<close>, and the order in which the workers' requests reach the budget when
  the schedule says whose turn is next.
\<close>

definition worker_range :: "nat \<Rightarrow> nat \<Rightarrow> nat \<Rightarrow> nat list" where
  "worker_range number workers worker = filter (\<lambda>index. worker \<le> index \<and> (index - worker) mod workers = 0) [0..<number]"

fun arrivals :: "nat list \<Rightarrow> (nat \<Rightarrow> nat list) \<Rightarrow> nat list" where
  "arrivals [] queues = []"
| "arrivals (worker # schedule) queues =
     (case queues worker of
        [] \<Rightarrow> arrivals schedule queues
      | index # rest \<Rightarrow> index # arrivals schedule (queues(worker := rest)))"

definition concurrent_reserve_many ::
    "nat list \<Rightarrow> nat \<Rightarrow> string \<Rightarrow> nat \<Rightarrow> int \<Rightarrow> nat \<Rightarrow> ('u, reservation list) io" where
  "concurrent_reserve_many schedule b scenario number capacity workers =
     py_bind (new_budget b scenario capacity) (\<lambda>_.
     py_bind (py_lift (not_befores number capacity scenario)) (\<lambda>nbs.
     py_map (\<lambda>index. bench_reserve b scenario (index, nbs ! index))
       (arrivals schedule (\<lambda>worker. if worker < workers then worker_range number workers worker else []))))"

definition RELEASE_OPERATIONS :: "string list" where
  "RELEASE_OPERATIONS = [''release_forward'', ''release_reverse'', ''release_first_repeated_pattern'',
     ''release_middle_first'', ''release_last_first'', ''release_shuffled'']"

definition CONCURRENT_RESERVE_OPERATIONS :: "string list" where
  "CONCURRENT_RESERVE_OPERATIONS = [''concurrent_reserve_8_workers'', ''concurrent_reserve_32_workers'']"

text \<open>A computation whose value is dropped.\<close>

definition dropping :: "('u, 'a) io \<Rightarrow> 'u world_scheme \<Rightarrow> (unit res \<times> 'u world_scheme) option" where
  "dropping m w = Some (py_bind m (\<lambda>_. py_return ()) w)"

definition run_operation_of ::
    "'u pyenv \<Rightarrow> (reservation list \<Rightarrow> reservation list) \<Rightarrow> nat list \<Rightarrow> nat \<Rightarrow> string \<Rightarrow> nat \<Rightarrow> int \<Rightarrow> string
      \<Rightarrow> 'u world_scheme \<Rightarrow> (unit res \<times> 'u world_scheme) option" where
  "run_operation_of E shuffle schedule b scenario number capacity op_name =
     (if op_name = ''reserve'' then dropping (reserve_many b scenario number capacity)
      else if op_name \<in> set RELEASE_OPERATIONS
      then dropping (release_many E shuffle b scenario number capacity op_name)
      else if op_name = ''snapshot'' then snapshot_many E b scenario number capacity
      else if op_name \<in> set CONCURRENT_RESERVE_OPERATIONS
      then (let workers = if op_name = ''concurrent_reserve_8_workers'' then 8 else 32
            in dropping (concurrent_reserve_many schedule b scenario number capacity workers))
      else (\<lambda>w. Some (Raise (new_exn ValueError_t ''unknown operation''), w)))"

text \<open>The runs that \<open>main\<close> measures, in its order; the schedule of each is a parameter.\<close>

definition bench_main ::
    "'u pyenv \<Rightarrow> (reservation list \<Rightarrow> reservation list) \<Rightarrow> (string \<Rightarrow> nat \<Rightarrow> nat list) \<Rightarrow> nat \<Rightarrow> bool
      \<Rightarrow> 'u world_scheme \<Rightarrow> (unit res \<times> 'u world_scheme) option" where
  "bench_main E shuffle schedules b quick =
     (let counts = if quick then [10, 100] else [10, 100, 1000, 10000];
          capacities = if quick then [1, 10] else [1, 10, 100];
          scenarios = [''ordered'', ''future'', ''decimal'', ''multi_key''];
          operations = ''reserve'' # RELEASE_OPERATIONS @ ''snapshot'' # CONCURRENT_RESERVE_OPERATIONS
      in in_turn [run_operation_of E shuffle (schedules op_name number) b scenario number capacity op_name.
           number \<leftarrow> counts, capacity \<leftarrow> capacities, scenario \<leftarrow> scenarios, op_name \<leftarrow> operations])"

section \<open>The requests, and the orders\<close>

lemma fl_ratio_ok:
  assumes "0 \<le> a" "a \<le> d" "0 < d"
  shows "flt_ok (fl_ratio a d)"
proof -
  define n where "n = a * 2 ^ 1074"
  define k where "k = ulp_exp (n div d)"
  define q where "q = rdiv n (d * 2 ^ k)"
  have v: "fl_ratio a d = q * 2 ^ k" by (simp add: fl_ratio_def Let_def n_def k_def q_def)
  have n0: "0 \<le> n" using assms by (simp add: n_def)
  have q0: "0 \<le> q" unfolding q_def by (rule rdiv_nonneg) (use n0 assms(3) in auto)
  have "n div d < 2 ^ (53 + k)" unfolding k_def by (rule ulp_exp_upper)
  then have "d * (n div d + 1) \<le> d * 2 ^ (53 + k)" using assms(3) by (intro mult_left_mono) auto
  moreover have "n < d * (n div d + 1)"
    using mult_div_mod_eq [of d n] pos_mod_bound [OF assms(3), of n] unfolding distrib_left by linarith
  ultimately have "n \<le> 2 ^ 53 * (d * 2 ^ k)" by (simp add: power_add mult_ac)
  then have "q \<le> 2 ^ 53" unfolding q_def by (rule rdiv_le) (use assms(3) in simp)
  then consider "q * 2 ^ k < 2 ^ (53 + k)" | "q = 2 ^ 53"
    by (fastforce simp: power_add)
  then have "2 ^ ulp_exp (q * 2 ^ k) dvd q * 2 ^ k"
  proof cases
    case 1
    then have "ulp_exp (q * 2 ^ k) \<le> k" by (rule ulp_exp_le)
    then show ?thesis by (meson dvd_triv_right dvd_trans le_imp_power_dvd)
  next
    case 2
    then have "q * 2 ^ k = 2 ^ (53 + k)" by (simp add: power_add)
    then show ?thesis by (simp add: ulp_exp_pow le_imp_power_dvd del: power_Suc)
  qed
  moreover have "fl_ratio a d \<le> fl_inf" "0 \<le> fl_ratio a d"
    using fl_ratio_unit [OF assms] sec_lt_inf [of 1] by auto
  ultimately show ?thesis using q0 by (simp add: flt_ok_def v)
qed

lemma ratio_pos: "0 < fl_ratio 3 10"
proof -
  define n :: int where "n = 3 * 2 ^ 1074"
  define k where "k = ulp_exp (n div 10)"
  have "2 ^ k \<le> n div 10"
  proof (cases "k = 0")
    case True
    have "(2::int) ^ 2 \<le> 2 ^ 1074" by (rule power_increasing) auto
    then have "3 * 2 ^ 2 \<le> n" unfolding n_def by (intro mult_left_mono) simp_all
    with True show ?thesis by simp
  next
    case False
    then have "(2::int) ^ (52 + k) \<le> n div 10" unfolding k_def by (intro ulp_exp_lower) simp
    moreover have "(2::int) ^ k \<le> 2 ^ (52 + k)" by (rule power_increasing) auto
    ultimately show ?thesis by linarith
  qed
  then have "1 * (10 * 2 ^ k) \<le> n" by linarith
  then have "1 \<le> n div (10 * 2 ^ k)" using pos_imp_zdiv_pos_iff [of "10 * 2 ^ k" n] by simp
  then have "0 < rdiv n (10 * 2 ^ k)" using rdiv_bounds [of n "10 * 2 ^ k"] by linarith
  moreover have "fl_ratio 3 10 = rdiv n (10 * 2 ^ k) * 2 ^ k" unfolding fl_ratio_def Let_def n_def k_def by (rule refl)
  ultimately show ?thesis by simp
qed

lemma floats_sec: "(\<And>n. n \<in> set ns \<Longrightarrow> \<bar>n\<bar> < 2 ^ 50) \<Longrightarrow> floats ns = Ok (map sec ns)"
  by (induction ns) (simp_all add: py_float_def)

definition SCENARIOS :: "string list" where
  "SCENARIOS = [''ordered'', ''future'', ''decimal'', ''multi_key'']"

lemma not_befores_ok:
  assumes "scenario \<in> set SCENARIOS" "number < 2 ^ 46"
  obtains nbs where "not_befores number capacity scenario = Ok nbs" "length nbs = number" "\<forall>x\<in>set nbs. flt_ok x"
proof -
  have small: "\<bar>f (int i)\<bar> < 2 ^ 50" if "i < number" "0 \<le> f (int i)" "f (int i) \<le> int number + 7 * int i" for f i
    using that assms(2) by auto
  have f: "floats (map f (map int [0..<number])) = Ok (map sec (map f (map int [0..<number])))
      \<and> (\<forall>x\<in>set (map sec (map f (map int [0..<number]))). flt_ok x)"
    if "\<And>i. 0 \<le> i \<Longrightarrow> 0 \<le> f i \<and> f i \<le> int number + 7 * i" for f
    using small [of _ f] that by (intro conjI floats_sec) auto
  have m: "0 \<le> (i * k) mod max 1 c \<and> (i * k) mod max 1 c \<le> int number + 7 * i" if "0 \<le> i" "0 \<le> k" "k \<le> 7" for i k c :: int
  proof -
    have "(i * k) mod max 1 c \<le> i * k" by (rule zmod_le_nonneg_dividend) (use that in simp)
    moreover have "i * k \<le> i * 7" using that by (intro mult_left_mono) auto
    ultimately show ?thesis by simp
  qed
  have tenth: "flt_ok (fl_ratio 1 10)" by (rule fl_ratio_ok) simp_all
  show thesis
    using assms(1) f [of "\<lambda>i. i"] f [of "\<lambda>i. int number + i"] f [of "\<lambda>i. (i * 7) mod max 1 (capacity * 3)"]
      f [of "\<lambda>i. i mod max 1 capacity"] m [of _ 7] m [of _ 1] fl_mul_ok [OF _ tenth]
    by (auto simp: SCENARIOS_def not_befores_def Let_def intro!: that)
qed

lemma mset_every_third:
  "mset (every_third xs) + mset (every_third (drop 1 xs)) + mset (every_third (drop 2 xs)) = mset xs"
proof (induction xs rule: every_third.induct)
  case (2 x xs)
  then show ?case by (cases xs rule: every_third.cases; cases "tl xs") (auto simp: eval_nat_numeral)
qed simp

lemma release_order_ok:
  assumes "op_name \<in> set RELEASE_OPERATIONS" "\<And>rs. mset (shuffle rs) = mset rs"
  obtains order where "release_order shuffle rs op_name = Ok order" "mset order = mset rs"
proof -
  have "mset (drop k rs @ take k rs) = mset rs" for k by (metis append_take_drop_id mset_append union_commute)
  then have "\<exists>order. release_order shuffle rs op_name = Ok order \<and> mset order = mset rs"
    using assms mset_every_third [of rs]
    by (auto simp: RELEASE_OPERATIONS_def release_order_def Let_def add.assoc)
  then show thesis using that by blast
qed

text \<open>Every worker has its turns: each request arrives, once.\<close>

lemma mset_arrivals:
  assumes "finite A" "\<And>worker. worker \<notin> A \<Longrightarrow> queues worker = []"
    and "\<And>worker. count_list schedule worker = length (queues worker)"
  shows "mset (arrivals schedule queues) = (\<Sum>worker\<in>A. mset (queues worker))"
  using assms(2,3)
proof (induction schedule arbitrary: queues)
  case Nil
  then show ?case by simp
next
  case (Cons w schedule)
  from Cons.prems(2) [of w] obtain index rest where q: "queues w = index # rest" by (cases "queues w") auto
  let ?q = "queues(w := rest)"
  have w: "w \<in> A" using q Cons.prems(1) [of w] by auto
  have "mset (arrivals schedule ?q) = (\<Sum>worker\<in>A. mset (?q worker))"
  proof (rule Cons.IH)
    show "count_list schedule worker = length (?q worker)" for worker
      using Cons.prems(2) [of worker] q by (auto split: if_splits)
  qed (use Cons.prems(1) w in auto)
  then show ?case using q by (simp add: sum.remove [OF assms(1) w])
qed

lemma mset_worker_ranges:
  assumes "0 < workers"
  shows "(\<Sum>worker\<in>{..<workers}. mset (worker_range number workers worker)) = mset [0..<number]"
proof (rule multiset_eqI)
  fix x
  have one: "count (mset (worker_range number workers worker)) x
      = (if worker = x mod workers then count (mset [0..<number]) x else 0)" if "worker < workers" for worker
  proof -
    have "worker \<le> x \<and> (x - worker) mod workers = 0 \<longleftrightarrow> worker = x mod workers"
      using that by (metis mod_eq_dvd_iff_nat dvd_imp_mod_0 mod_0_imp_dvd mod_less mod_less_eq_dividend)
    then show ?thesis by (auto simp: worker_range_def mset_filter simp del: mset_upt count_mset)
  qed
  have "count (\<Sum>worker\<in>{..<workers}. mset (worker_range number workers worker)) x
      = (\<Sum>worker\<in>{..<workers}. if worker = x mod workers then count (mset [0..<number]) x else 0)"
    unfolding count_sum by (rule sum.cong) (use one in auto)
  also have "\<dots> = count (mset [0..<number]) x" using assms by simp
  finally show "count (\<Sum>worker\<in>{..<workers}. mset (worker_range number workers worker)) x
      = count (mset [0..<number]) x" .
qed

section \<open>The budget\<close>

text \<open>A key that is stored has a reservation: \<open>_release\<close> takes the key away with its last one.\<close>

definition no_bare_key :: "retry_budget \<Rightarrow> bool" where
  "no_bare_key b \<longleftrightarrow> (\<forall>key. bg_reservations b key \<noteq> Some [])"

lemma no_bare_key_maybe_cleanup: "no_bare_key b \<Longrightarrow> no_bare_key (maybe_cleanup b t)"
  by (auto simp: no_bare_key_def maybe_cleanup_def cleanup_expired_keys_def Let_def split: option.splits)

lemma no_bare_key_release: "no_bare_key b \<Longrightarrow> no_bare_key (release b r t)"
  by (drule no_bare_key_maybe_cleanup [of _ t]) (auto simp: no_bare_key_def release_def Let_def split: option.splits list.splits)

lemma no_bare_key_reserve: "no_bare_key b \<Longrightarrow> reserve b kv t nb = (x, b') \<Longrightarrow> no_bare_key b'"
  by (frule no_bare_key_maybe_cleanup [of _ t]) (auto simp: no_bare_key_def reserve_def Let_def split: res.splits if_splits)

lemma no_bare_key_empty: "no_bare_key b \<Longrightarrow> budget_inv b [] t \<Longrightarrow> bg_reservations b = Map.empty"
proof
  fix key
  assume "no_bare_key b" "budget_inv b [] t"
  then show "bg_reservations b key = None"
    using budget_invD(10) [of b "[]" t key]
    by (cases "bg_reservations b key") (auto simp: live_def key_log_def no_bare_key_def)
qed

text \<open>Requests at time zero: all are granted, and nothing is pruned from the log.\<close>

lemma bench_key: "validate_key (VStr (bench_key scenario index)) = Ok (bench_key scenario index)"
  by (simp add: bench_key_def blank_def is_space_def)

lemma bench_reserve_ok:
  assumes "budget_inv (w_budgets w b) log 0" "no_bare_key (w_budgets w b)" "flt_ok nb"
  obtains r w1 where "bench_reserve b scenario (index, nb) w = (Ok r, w1)" "rs_key r = bench_key scenario index"
    "budget_inv (w_budgets w1 b) (r # log) 0" "no_bare_key (w_budgets w1 b)" "w_reads w1 = w_reads w"
    "bg_max_retries (w_budgets w1 b) = bg_max_retries (w_budgets w b)" "bg_per (w_budgets w1 b) = bg_per (w_budgets w b)"
proof -
  obtain r budget where r: "reserve (w_budgets w b) (VStr (bench_key scenario index)) 0 nb = (Ok r, budget)"
    "rs_key r = bench_key scenario index"
    using reserve_eq [OF bench_key, of "w_budgets w b" scenario index 0 nb] by (metis reservation.select_convs(2))
  have "flt_ok 0" using sec_ok [of 0] by (simp add: sec_0)
  with r show thesis
    using budget_inv_reserve [OF assms(1) _ _ assms(3) r(1)] no_bare_key_reserve [OF assms(2) r(1)]
      live_reserve(4,5) [OF r(1)]
    by (intro that [of r "w\<lparr>w_budgets := (w_budgets w)(b := budget)\<rparr>"]) (simp_all add: bench_reserve_def budget_reserve_def)
qed

lemma bench_reserves_ok:
  assumes "budget_inv (w_budgets w b) log 0" "no_bare_key (w_budgets w b)" "\<And>q. q \<in> set qs \<Longrightarrow> flt_ok (snd q)"
  shows "\<exists>rs w1. py_map (bench_reserve b scenario) qs w = (Ok rs, w1)
    \<and> map rs_key rs = map (bench_key scenario \<circ> fst) qs
    \<and> budget_inv (w_budgets w1 b) (rev rs @ log) 0 \<and> no_bare_key (w_budgets w1 b) \<and> w_reads w1 = w_reads w
    \<and> bg_max_retries (w_budgets w1 b) = bg_max_retries (w_budgets w b) \<and> bg_per (w_budgets w1 b) = bg_per (w_budgets w b)"
  using assms
proof (induction qs arbitrary: w log)
  case (Cons q qs)
  obtain r w1 where r: "bench_reserve b scenario (fst q, snd q) w = (Ok r, w1)" "rs_key r = bench_key scenario (fst q)"
    "budget_inv (w_budgets w1 b) (r # log) 0" "no_bare_key (w_budgets w1 b)" "w_reads w1 = w_reads w"
    "bg_max_retries (w_budgets w1 b) = bg_max_retries (w_budgets w b)" "bg_per (w_budgets w1 b) = bg_per (w_budgets w b)"
    by (rule bench_reserve_ok [OF Cons.prems(1,2), of "snd q" scenario "fst q"]) (use Cons.prems(3) [of q] in auto)
  from Cons.IH [OF r(3,4)] Cons.prems(3) obtain rs w2 where
    "py_map (bench_reserve b scenario) qs w1 = (Ok rs, w2)" "map rs_key rs = map (bench_key scenario \<circ> fst) qs"
    "budget_inv (w_budgets w2 b) (rev rs @ r # log) 0" "no_bare_key (w_budgets w2 b)" "w_reads w2 = w_reads w1"
    "bg_max_retries (w_budgets w2 b) = bg_max_retries (w_budgets w1 b)" "bg_per (w_budgets w2 b) = bg_per (w_budgets w1 b)"
    by auto
  with r show ?case by (intro exI [of _ "r # rs"] exI [of _ w2]) (simp add: py_bind_def py_return_def)
qed (simp add: py_return_def)

text \<open>Releases, in any order.\<close>

lemma releases_ok:
  assumes "clock_ok E" "budget_inv (w_budgets w b) log t" "t \<le> env_clock E (w_reads w)" "no_bare_key (w_budgets w b)"
  shows "\<exists>ys w1 t1. py_map (budget_release E b) order w = (Ok ys, w1) \<and> no_bare_key (w_budgets w1 b)
    \<and> budget_inv (w_budgets w1 b) (filter (\<lambda>x. \<forall>r\<in>set order. \<not> (rs_key x = rs_key r \<and> rs_token x = rs_token r)) log) t1"
  using assms(2-)
proof (induction order arbitrary: w log t)
  case Nil
  then show ?case by (auto simp: py_return_def)
next
  case (Cons r order)
  let ?c = "env_clock E (w_reads w)" and ?log = "filter (\<lambda>x. \<not> (rs_key x = rs_key r \<and> rs_token x = rs_token r)) log"
  define w1 where "w1 = w\<lparr>w_reads := w_reads w + 1, w_budgets := (w_budgets w)(b := release (w_budgets w b) r ?c)\<rparr>"
  have step: "budget_release E b r w = (Ok (), w1)"
    by (simp add: budget_release_def py_bind_def clock_now_def w1_def)
  have "?c \<le> env_clock E (w_reads w1)" using assms(1) by (simp add: clock_ok_def w1_def)
  moreover have "budget_inv (w_budgets w1 b) ?log ?c"
    using budget_inv_release [OF Cons.prems(1,2)] assms(1) by (simp add: w1_def clock_ok_def)
  moreover have "no_bare_key (w_budgets w1 b)" using no_bare_key_release Cons.prems(3) by (simp add: w1_def)
  ultimately obtain ys w2 t1 where w2: "py_map (budget_release E b) order w1 = (Ok ys, w2)" "no_bare_key (w_budgets w2 b)"
    "budget_inv (w_budgets w2 b) (filter (\<lambda>x. \<forall>r\<in>set order. \<not> (rs_key x = rs_key r \<and> rs_token x = rs_token r)) ?log) t1"
    using Cons.IH by blast
  moreover have "filter (\<lambda>x. \<forall>r\<in>set order. \<not> (rs_key x = rs_key r \<and> rs_token x = rs_token r)) ?log
      = filter (\<lambda>x. \<forall>r\<in>set (r # order). \<not> (rs_key x = rs_key r \<and> rs_token x = rs_token r)) log"
    by (auto intro: filter_cong)
  ultimately show ?case by (auto simp: py_bind_def step py_return_def)
qed

lemma new_budget_ok:
  assumes "0 < capacity"
  obtains w1 where "new_budget b scenario capacity w = (Ok (), w1)" "budget_inv (w_budgets w1 b) [] 0"
    "no_bare_key (w_budgets w1 b)" "w_reads w1 = w_reads w" "bg_max_retries (w_budgets w1 b) = nat capacity"
    "bg_per (w_budgets w1 b) = (if scenario \<noteq> ''decimal'' then sec 10 else fl_ratio 3 10)"
proof -
  let ?per = "if scenario \<noteq> ''decimal'' then sec 10 else fl_ratio 3 10"
  have "0 < fl_ratio 3 10" using ratio_pos by simp
  then have per: "flt_ok ?per" "flt_finite ?per" "0 < ?per"
    using fl_ratio_unit [of 3 10] fl_ratio_ok [of 3 10] sec_lt_inf [of 1] sec_lt_inf [of 10] by (auto simp: flt_finite_def)
  define budget where "budget = \<lparr>bg_max_retries = nat capacity, bg_per = ?per, bg_reservations = Map.empty,
    bg_next_token = 1, bg_op_count = 0\<rparr>"
  have init: "budget_init (VInt capacity) (VFloat ?per) = Ok budget"
    using assms per(2,3) by (auto simp: budget_init_def ensure_positive_def budget_def flt_finite_def)
  have "flt_ok 0" using sec_ok [of 0] by (simp add: sec_0)
  with budget_init_inv [OF init] per(1) have "budget_inv budget [] 0" by (simp add: budget_def)
  with init show thesis
    by (intro that [of "w\<lparr>w_budgets := (w_budgets w)(b := budget)\<rparr>"])
      (simp_all add: new_budget_def no_bare_key_def, simp_all add: budget_def)
qed

lemma reserve_many_ok:
  assumes "scenario \<in> set SCENARIOS" "number < 2 ^ 46" "0 < capacity"
  obtains rs w1 where "reserve_many b scenario number capacity w = (Ok rs, w1)" "length rs = number"
    "budget_inv (w_budgets w1 b) (rev rs) 0" "no_bare_key (w_budgets w1 b)" "w_reads w1 = w_reads w"
proof -
  obtain w0 where w0: "new_budget b scenario capacity w = (Ok (), w0)" "budget_inv (w_budgets w0 b) [] 0"
    "no_bare_key (w_budgets w0 b)" "w_reads w0 = w_reads w"
    by (rule new_budget_ok [OF assms(3)])
  obtain nbs where nbs: "not_befores number capacity scenario = Ok nbs" "length nbs = number"
      "\<forall>x\<in>set nbs. flt_ok x"
    by (rule not_befores_ok [OF assms(1,2), of capacity])
  have "flt_ok (snd q)" if "q \<in> set (enumerate 0 nbs)" for q
    using that nbs(3) by (auto simp: in_set_enumerate_eq) (metis nth_mem)
  from bench_reserves_ok [where qs = "enumerate 0 nbs" and scenario = scenario, OF w0(2,3) this] obtain rs w1 where
    "py_map (bench_reserve b scenario) (enumerate 0 nbs) w0 = (Ok rs, w1)"
    "map rs_key rs = map (bench_key scenario \<circ> fst) (enumerate 0 nbs)" "budget_inv (w_budgets w1 b) (rev rs) 0"
    "no_bare_key (w_budgets w1 b)" "w_reads w1 = w_reads w0"
    by auto
  with w0 nbs show thesis
    by (intro that [of rs w1]) (auto simp: reserve_many_def py_bind_def py_lift_def dest: map_eq_imp_length_eq)
qed

section \<open>Properties\<close>

text \<open>
  C34: each of the six ways in which the benchmark releases its reservations (forwards, backwards, interleaved,
  from the middle, the last first, shuffled) hands back exactly what it reserved: the operation returns
  without an error, and the budget has no key left.
\<close>

theorem release_many_empties:
  assumes "scenario \<in> set SCENARIOS" "op_name \<in> set RELEASE_OPERATIONS" "number < 2 ^ 46" "0 < capacity"
    and "\<And>rs. mset (shuffle rs) = mset rs" and "clock_ok E" "0 \<le> env_clock E (w_reads w)"
  shows "\<exists>w1. release_many E shuffle b scenario number capacity op_name w = (Ok (), w1)
    \<and> bg_reservations (w_budgets w1 b) = Map.empty"
proof -
  obtain rs w1 where rs: "reserve_many b scenario number capacity w = (Ok rs, w1)"
    "budget_inv (w_budgets w1 b) (rev rs) 0" "no_bare_key (w_budgets w1 b)" "w_reads w1 = w_reads w"
    by (rule reserve_many_ok [OF assms(1,3,4)])
  obtain order where order: "release_order shuffle rs op_name = Ok order" "mset order = mset rs"
    by (rule release_order_ok [OF assms(2,5)])
  have "0 \<le> env_clock E (w_reads w1)" using assms(7) rs(4) by simp
  from releases_ok [OF assms(6) rs(2) this rs(3), of order] obtain ys w2 t where
    w2: "py_map (budget_release E b) order w1 = (Ok ys, w2)" "no_bare_key (w_budgets w2 b)"
      "budget_inv (w_budgets w2 b) (filter (\<lambda>x. \<forall>r\<in>set order. \<not> (rs_key x = rs_key r \<and> rs_token x = rs_token r)) (rev rs)) t"
    by blast
  have "filter (\<lambda>x. \<forall>r\<in>set order. \<not> (rs_key x = rs_key r \<and> rs_token x = rs_token r)) (rev rs) = []"
    using mset_eq_setD [OF order(2)] by (auto simp: filter_empty_conv)
  with w2 have "bg_reservations (w_budgets w2 b) = Map.empty" using no_bare_key_empty by metis
  with rs(1) order(1) w2(1) show ?thesis
    by (auto simp: release_many_def py_bind_def py_lift_def py_return_def)
qed

theorem release_many_empties_witness:
  "\<exists>w1. release_many still_env rev 0 ''decimal'' 10 2 ''release_shuffled'' ex_wheel_world = (Ok (), w1)
    \<and> bg_reservations (w_budgets w1 0) = Map.empty"
  by (rule release_many_empties [OF _ _ _ _ _ still_env_ok(2)])
    (simp_all add: SCENARIOS_def RELEASE_OPERATIONS_def still_env_def ex_env_def)

text \<open>
  However the workers of a concurrent benchmark are scheduled, every request is granted, and together they keep
  the rolling capacity of each key.
\<close>

lemma concurrent_reserve_many_ok:
  assumes "scenario \<in> set SCENARIOS" "number < 2 ^ 46" "0 < capacity" "0 < workers"
    and "\<And>worker. count_list schedule worker = (if worker < workers then length (worker_range number workers worker) else 0)"
  shows "\<exists>rs w1. concurrent_reserve_many schedule b scenario number capacity workers w = (Ok rs, w1)
    \<and> length rs = number \<and> distinct (map rs_token rs)
    \<and> mset (map rs_key rs) = mset (map (bench_key scenario) [0..<number])
    \<and> (\<forall>key. rolling_ok (if scenario \<noteq> ''decimal'' then sec 10 else fl_ratio 3 10) (nat capacity)
          (map rs_scheduled_at (filter (\<lambda>r. rs_key r = key) (rev rs))))"
proof -
  obtain w0 where w0: "new_budget b scenario capacity w = (Ok (), w0)" "budget_inv (w_budgets w0 b) [] 0"
    "no_bare_key (w_budgets w0 b)" "bg_max_retries (w_budgets w0 b) = nat capacity"
    "bg_per (w_budgets w0 b) = (if scenario \<noteq> ''decimal'' then sec 10 else fl_ratio 3 10)"
    by (rule new_budget_ok [OF assms(3)])
  obtain nbs where nbs: "not_befores number capacity scenario = Ok nbs" "length nbs = number"
      "\<forall>x\<in>set nbs. flt_ok x"
    by (rule not_befores_ok [OF assms(1,2), of capacity])
  define as where "as = arrivals schedule (\<lambda>worker. if worker < workers then worker_range number workers worker else [])"
  have "mset as = (\<Sum>worker\<in>{..<workers}. mset (if worker < workers then worker_range number workers worker else []))"
    unfolding as_def by (rule mset_arrivals) (auto simp: assms(5))
  then have as: "mset as = mset [0..<number]" using mset_worker_ranges [OF assms(4)] by simp
  have pm: "py_map (\<lambda>index. bench_reserve b scenario (index, nbs ! index)) xs
      = py_map (bench_reserve b scenario) (map (\<lambda>index. (index, nbs ! index)) xs)" for xs
    by (induction xs) simp_all
  have "flt_ok (snd q)" if "q \<in> set (map (\<lambda>index. (index, nbs ! index)) as)" for q
    using that nbs mset_eq_setD [OF as] by auto
  from bench_reserves_ok [where qs = "map (\<lambda>index. (index, nbs ! index)) as" and scenario = scenario, OF w0(2,3) this]
  obtain rs w1 where
    rs: "py_map (bench_reserve b scenario) (map (\<lambda>index. (index, nbs ! index)) as) w0 = (Ok rs, w1)"
    "map rs_key rs = map (bench_key scenario) as" "budget_inv (w_budgets w1 b) (rev rs) 0"
    "bg_max_retries (w_budgets w1 b) = nat capacity" "bg_per (w_budgets w1 b) = bg_per (w_budgets w0 b)"
    using w0(4) by (auto simp: comp_def)
  have "concurrent_reserve_many schedule b scenario number capacity workers w = (Ok rs, w1)"
    using w0(1) nbs(1) rs(1) by (simp add: concurrent_reserve_many_def py_bind_def py_lift_def pm flip: as_def)
  moreover have "length rs = number"
    using map_eq_imp_length_eq [OF rs(2)] mset_eq_length [OF as] by simp
  moreover have "mset (map rs_key rs) = mset (map (bench_key scenario) [0..<number])"
    unfolding rs(2) using as by simp
  moreover have "distinct (map rs_token rs)" using budget_invD(5) [OF rs(3)] by (simp add: rev_map [symmetric])
  moreover have "\<forall>key. rolling_ok (if scenario \<noteq> ''decimal'' then sec 10 else fl_ratio 3 10) (nat capacity)
          (map rs_scheduled_at (filter (\<lambda>r. rs_key r = key) (rev rs)))"
    using budget_invD(8) [OF rs(3)] unfolding rs(4,5) w0(5) key_log_def by blast
  ultimately show ?thesis by blast
qed

end
