(* ===== verification/Spec2Isabelle.thy ===== *)
theory Spec2Isabelle
  imports Main Facade Advice Health EventLoop Threads Http Builders Release Package PerfSmoke Benchmarks
begin

text \<open>
  A model of \<open>relinker\<close>, a retry library for Python (\<open>src/src/relinker\<close>), the scripts that check its
  releases and an installed package (\<open>src/scripts\<close>), and the benchmarks (\<open>src/benchmarks\<close>).

  \<^bold>\<open>The program.\<close> A \<open>RetryPolicy\<close> (\<open>policy.py\<close>) is an immutable configuration: a condition says which outcomes
  are retried, a stop strategy when to give up, a delay strategy how long to wait, an exhaustion behaviour what
  the caller gets in the end. An execution keeps a \<open>RetryFlow\<close> (\<open>internal/executor_flow.py\<close>) with its
  counters; after each attempt it asks the condition and the stop strategy, and plans the wait
  (\<open>internal/retry_wait.py\<close>) from the delay strategy and, when configured, from a \<open>RetryBudget\<close> (\<open>budget.py\<close>)
  that several executions share. Four front ends drive a flow: the sync and async executors, decorated functions, and
  retry blocks. Diagnostics, simulations, serialisation and logging only read a policy or an event.

  \<^bold>\<open>The theories.\<close>

  \<^item> \<open>Prelude\<close>: rewrite collections and generic facts. \<open>PyFloat\<close>: Python floats (IEEE binary64) as exact integer
    multiples of \<open>2 ^ -1074\<close>, with the rounding of sums, quotients and conversions. \<open>PyValue\<close>: values, exception
    classes and exceptions, the result type \<open>res\<close> and the effectful \<open>py\<close>. \<open>PyText\<close>: numbers as text, \<open>strip\<close>.
    \<open>World\<close>: what the code reads and writes outside itself, \<open>any\<close> and \<open>all\<close>, and the locale \<open>combination\<close>.
  \<^item> \<open>Validation\<close>, \<open>Callables\<close>: \<open>internal/validation.py\<close>, \<open>internal/callables.py\<close>.
  \<^item> \<open>BudgetSlots\<close>: the slot search of \<open>budget.py\<close> (\<open>_first_legal_slot\<close>, \<open>_is_legal_slot\<close>, \<open>_available_at\<close>) over the
    locale \<open>rolling_window\<close>, interpreted on the float window \<open>(t - per, t]\<close>. \<open>Budget\<close>: the \<open>RetryBudget\<close> object as a
    record, one function per method, and \<open>budget_run\<close>, the sequences of its operations, with their invariant.
  \<^item> \<open>Stop\<close>, \<open>Conditions\<close>, \<open>Delays\<close>: the strategies of \<open>stop/\<close>, \<open>conditions/\<close>, \<open>delays/\<close> as datatypes, constructors with
    their checks, evaluation, flattening, and the analyses of \<open>internal/policy_diagnostics.py\<close> on their trees.
  \<^item> \<open>Policy\<close>: \<open>policy.py\<close> and \<open>event.py\<close>: the policy record, \<open>__post_init__\<close>, the builder methods, \<open>emit\<close>.
    \<open>Builders\<close>: the policies that any sequence of builder methods can make. \<open>Presets\<close>, \<open>Http\<close>: \<open>presets.py\<close>,
    \<open>http.py\<close>, \<open>result_conditions.py\<close>. \<open>Logging\<close>: \<open>internal/policy_logging.py\<close> and \<open>debug\<close>.
  \<^item> \<open>Records\<close>: \<open>attempt.py\<close>, \<open>state.py\<close>, \<open>result.py\<close>, \<open>stats.py\<close>. \<open>Flow\<close>, \<open>FlowFacts\<close>: \<open>internal/runtime.py\<close>,
    \<open>internal/retry_wait.py\<close>, \<open>internal/exhaustion.py\<close> and \<open>internal/executor_flow.py\<close>.
  \<^item> \<open>Executors\<close>: \<open>executors/\<close>, both loops over the locale \<open>attempt_turns\<close>. \<open>History\<close>: the bounded deque against the
    full list of attempts. \<open>Outcomes\<close>: the final decisions. \<open>PlainRuns\<close>: executions of functions that fail a while
    (the locale \<open>flaky_function\<close>), instantiated in \<open>TestTasks\<close> (\<open>testing/\<close>) and \<open>WheelSmoke\<close>. \<open>Decorator\<close>:
    \<open>internal/decorator.py\<close> and \<open>retry.py\<close>. \<open>Blocks\<close>: \<open>context/\<close>, \<open>break\<close> included. \<open>Facade\<close>: the methods of
    \<open>RetryPolicy\<close> that hand over to the other parts.
  \<^item> \<open>BudgetFlow\<close>: the reservations of one execution, proved once in the locale \<open>reservation_ledger\<close> from the laws its
    budget promises. \<open>EventLoop\<close>: any number of executions interleaved on one event loop, a step relation whose steps are the
    code between two awaits; one turn of \<open>execute_async\<close> is a path of it (\<open>async_turn_path\<close>). \<open>Threads\<close>: executions in
    preemptive threads, where others can run between reading the clock and taking the lock of the budget;
    \<open>plan_retry_wait\<close> and \<open>release_retry_wait\<close> are paths of it.
  \<^item> \<open>Simulation\<close>, \<open>Diagnostics\<close>, \<open>Previews\<close>: \<open>internal/policy_simulation.py\<close>, \<open>diagnostics.py\<close> and
    \<open>internal/policy_diagnostics.py\<close>. \<open>Advice\<close>: what a warning, an estimate and a simulation guarantee; \<open>Health\<close>: what the
    absence of warnings does. \<open>Serialization\<close>:
    \<open>internal/policy_serialization.py\<close>. \<open>Release\<close>: the release check. \<open>WheelSmoke\<close>: the scenarios of
    \<open>validate_installed_wheel.py\<close>, which pass in every environment; \<open>Package\<close>: the exports of \<open>__init__.py\<close> and the checks
    of the installation. \<open>Benchmarks\<close>, \<open>PerfSmoke\<close>: \<open>benchmarks/retry_budget.py\<close>, \<open>benchmarks/smoke.py\<close>.

  \<^bold>\<open>State and operations.\<close> Code that can raise returns \<open>res\<close>. Code that reads or writes state is a function
  \<open>('s, 'a) py = 's \<Rightarrow> 'a res \<times> 's\<close>; the state keeps what was written before an exception. The world counts clock readings and
  random draws and holds the budgets in a heap, so two policies can share one; it can be extended, so user code has state of
  its own. \<open>pyenv\<close> gives the answers of the standard library: the clock by the number of the reading, random
  numbers, powers, float sums, sleeps. A flow is a record next to the world; so are the iterator of a block and the
  statistics of a decorated function. User callbacks, strategies, functions and sleepers are arbitrary \<open>py\<close> functions. The
  dictionaries that \<open>_delay_to_dict\<close> builds by mutation are objects in an explicit store.

  \<^bold>\<open>What the lemmas show.\<close> The budget never overfills a rolling window, grants the earliest float that fits, forgets nothing that
  counts (explicit clean-ups change no grant while the readings do not go back), and keys are independent. Attempt limits end
  both executors; sync, async, decorated and block executions agree; a decorated function counts exactly the results of its
  runs; the bounded history is a view of the full one, which holds what the attempts of the loop leave. Constructed built-in
  delays resolve within \<open>MAX_SLEEP_SECONDS\<close>, but for a linear delay whose integer step overflows a float,
  and the frame machine for additive delays computes the recursive sum. A \<open>Retry-After\<close> header is waited for up to the
  maximum, and no delay of the HTTP policy exceeds it. Every sequence of builder methods gives a policy that passes its own
  checks. Warnings, estimates and simulations are sound for the policies they describe; a report without warnings is so
  for built-in strategies, since user strategies are never reported. Logs hide error messages and handlers
  cannot interrupt a retry. Planning a retry keeps its reservation exactly when it waits, for any interleaving
  of executions on an event loop. With preemptive threads what the budget stores keeps the capacity and no
  reservation has two holders, but a stale clock reading can still overfill a window; that takes an operation
  with a later reading in between, and cannot happen when operations come in the order of their readings. The
  benchmarks release all that they reserve, and their callbacks return. The remaining statements are about
  boundaries where the code departs from its documents.

  \<^bold>\<open>Loops, bounds, hypotheses.\<close> Loops that end are \<open>function\<close>s with a measure (slot search: the scheduled times that can
  still push the candidate; frame machine and stacks: the weight of the trees left). Loops that may not end are
  \<open>partial_function (option)\<close>: the executors, the blocks and \<open>snapshot\<close>; that they return is proved where it holds, and
  that \<open>snapshot\<close> does not where it does not. No fuel is used. \<open>env_ok\<close> says that powers, sums and random draws are floats in
  the ranges the Python documentation gives, \<open>env_positive\<close> that \<open>x ** 0\<close> is one and that sums with a positive part
  are positive, \<open>clock_ok\<close> that the monotonic clock does not go back. Attempt numbers
  are bounded by \<open>2 ^ 50\<close>, and the requests of a benchmark by \<open>2 ^ 46\<close>, where they enter float arithmetic.

  \<^bold>\<open>Deviations.\<close> Texts of errors are kept up to interpolated values; warnings and hints are verbatim. \<open>-0.0\<close> is
  \<open>0.0\<close>, and NaN occurs only as a value. Strings are sequences of the first 256 characters. Exceptions are
  compared with their identity, as \<open>is\<close> does. One budget operation is one step, by the lock of the class.

  \<^bold>\<open>Not modelled.\<close> Type aliases, overloads and protocols (\<open>typing.py\<close>, those of \<open>retry.py\<close>) run no code. \<open>json.dumps\<close>,
  loggers, \<open>print\<close>, \<open>email.utils\<close>, header objects, \<open>ast\<close>, \<open>tomllib\<close>, \<open>copy.copy\<close>, the file system and the metadata
  that the wheel validation asks, and \<open>Random.shuffle\<close> are parameters. The examples only call the library and
  print; the measuring and printing of the benchmarks are left out. Preemption is modelled around the budget only:
  a policy is immutable, and the other objects belong to one execution, except the statistics of a decorated
  function, whose \<open>record\<close>, \<open>snapshot\<close> and \<open>reset\<close> are atomic by their lock.
\<close>

end
